(* ===== verification/Prelude.thy ===== *)
theory Prelude
  imports Complex_Main "HOL-Library.Word" "HOL-Library.AList"
begin

text \<open>
  What the components share: octets and big-endian integers as Python's
  \<^verbatim>\<open>int.to_bytes\<close> and \<^verbatim>\<open>int.from_bytes\<close> compute them, slices, exceptions as the
  left side of a sum, dictionaries as association lists that keep Python's insertion
  order, \<^verbatim>\<open>str.split\<close>, and the locale of a machine with an invariant.
\<close>

unbundle bit_operations_syntax

named_theorems codec_simps \<open>facts that evaluate encoders and decoders\<close>
named_theorems dict_simps \<open>facts about dictionaries\<close>

subsection \<open>Octets\<close>

type_synonym byte = "8 word"
type_synonym bytes = "byte list"

definition from_be :: "bytes \<Rightarrow> nat" where
  "from_be bs = foldl (\<lambda>a b. a * 256 + unat b) 0 bs"

fun to_be :: "nat \<Rightarrow> nat \<Rightarrow> bytes" where
  "to_be 0 n = []"
| "to_be (Suc k) n = to_be k (n div 256) @ [word_of_nat n]"

definition slice :: "'a list \<Rightarrow> nat \<Rightarrow> nat \<Rightarrow> 'a list" where
  "slice xs i j = take (j - i) (drop i xs)"

lemma length_to_be [simp]: "length (to_be k n) = k"
  by (induction k arbitrary: n) auto

lemma word_of_nat_mod_256: "(word_of_nat (n mod 256) :: byte) = word_of_nat n"
  by (rule word_unat_eq_iff [THEN iffD2]) (simp add: unat_of_nat)

lemma to_be_1 [codec_simps]: "to_be (Suc 0) n = [word_of_nat (n mod 256)]"
  by (simp add: word_of_nat_mod_256)

lemma to_be_2 [codec_simps]: "to_be 2 n = [word_of_nat (n div 256 mod 256), word_of_nat (n mod 256)]"
  by (simp add: numeral_2_eq_2 word_of_nat_mod_256)

lemma to_be_3 [codec_simps]:
  "to_be 3 n =
     [word_of_nat (n div 65536 mod 256), word_of_nat (n div 256 mod 256), word_of_nat (n mod 256)]"
  using to_be.simps(2) [of 2 n]
  by (simp add: to_be_2 div_mult2_eq [symmetric] word_of_nat_mod_256)

lemma to_be_4 [codec_simps]:
  "to_be 4 n =
     [word_of_nat (n div 16777216 mod 256), word_of_nat (n div 65536 mod 256),
      word_of_nat (n div 256 mod 256), word_of_nat (n mod 256)]"
  using to_be.simps(2) [of 3 n]
  by (simp add: to_be_3 div_mult2_eq [symmetric] word_of_nat_mod_256)

lemma from_be_Nil [simp]: "from_be [] = 0"
  by (simp add: from_be_def)

lemma from_be_snoc [simp]: "from_be (bs @ [b]) = from_be bs * 256 + unat b"
  by (simp add: from_be_def)

lemma from_be_single [simp]: "from_be [b] = unat b"
  by (simp add: from_be_def)

lemma unat_byte_less [simp]: "unat (b :: byte) < 256"
  using unsigned_less [of b] by simp

lemma unat_byte_le [simp]: "unat (b :: byte) \<le> 255"
  using unat_byte_less [of b] by linarith

lemma unat_word_of_nat_byte: "unat (word_of_nat n :: byte) = n mod 256"
  by (simp add: unat_of_nat)

lemma from_be_to_be: "from_be (to_be k n) = n mod 256 ^ k"
proof (induction k arbitrary: n)
  case 0
  then show ?case by simp
next
  case (Suc k)
  have "n mod 256 ^ Suc k = n div 256 mod 256 ^ k * 256 + n mod 256"
    by (simp add: mod_mult2_eq mult.commute)
  then show ?case by (simp add: Suc.IH unat_word_of_nat_byte)
qed

lemma from_be_to_be_id [simp, codec_simps]: "n < 256 ^ k \<Longrightarrow> from_be (to_be k n) = n"
  by (simp add: from_be_to_be)

lemma from_be_less: "from_be bs < 256 ^ length bs"
proof (induction bs rule: rev_induct)
  case Nil
  then show ?case by simp
next
  case (snoc b bs)
  have "from_be bs * 256 + unat b < (from_be bs + 1) * 256"
    using unat_byte_less [of b] by simp
  also have "\<dots> \<le> 256 ^ length bs * 256"
    using snoc.IH by (intro mult_le_mono1) simp
  finally show ?case by simp
qed

lemma to_be_from_be [simp]: "to_be (length bs) (from_be bs) = bs"
proof (induction bs rule: rev_induct)
  case Nil
  then show ?case by simp
next
  case (snoc b bs)
  have "(from_be bs * 256 + unat b) div 256 = from_be bs"
    using unat_byte_less [of b] by simp
  moreover have "(word_of_nat (from_be bs * 256 + unat b) :: byte) = b"
    by (rule word_unat_eq_iff [THEN iffD2]) (simp add: unat_of_nat del: of_nat_add of_nat_mult)
  ultimately show ?case using snoc.IH by simp
qed

lemma to_be_from_be_len: "length bs = k \<Longrightarrow> to_be k (from_be bs) = bs"
  using to_be_from_be by blast

lemma length_slice: "length (slice xs i j) = min (j - i) (length xs - i)"
  by (simp add: slice_def min.commute)

lemma slice_append [codec_simps]:
  "i = length pre \<Longrightarrow> j = length pre + length mid \<Longrightarrow> slice (pre @ mid @ post) i j = mid"
  by (simp add: slice_def)

subsection \<open>Exceptions as the left side of a sum\<close>

definition andThen :: "'e + 'a \<Rightarrow> ('a \<Rightarrow> 'e + 'b) \<Rightarrow> 'e + 'b" where
  "andThen r f = (case r of Inl e \<Rightarrow> Inl e | Inr x \<Rightarrow> f x)"

lemma andThen_Inl [simp]: "andThen (Inl e) f = Inl e"
  by (simp add: andThen_def)

lemma andThen_Inr [simp]: "andThen (Inr x) f = f x"
  by (simp add: andThen_def)

lemma andThen_eq_Inr_iff: "andThen r f = Inr y \<longleftrightarrow> (\<exists>x. r = Inr x \<and> f x = Inr y)"
  by (cases r) auto

lemma andThen_eq_Inl_iff:
  "andThen r f = Inl e \<longleftrightarrow> r = Inl e \<or> (\<exists>x. r = Inr x \<and> f x = Inl e)"
  by (cases r) auto

lemma andThen_cong [fundef_cong]:
  assumes "r = r'" and "\<And>x. r' = Inr x \<Longrightarrow> f x = f' x"
  shows "andThen r f = andThen r' f'"
  using assms by (cases r') auto

text \<open>\<^verbatim>\<open>int.to_bytes(k, 'big', signed=False)\<close>: an \<^verbatim>\<open>OverflowError\<close> outside the range.\<close>

definition int_to_bytes :: "'e \<Rightarrow> nat \<Rightarrow> int \<Rightarrow> 'e + bytes" where
  "int_to_bytes overflow k n =
     (if 0 \<le> n \<and> n < 256 ^ k then Inr (to_be k (nat n)) else Inl overflow)"

lemma int_to_bytes_ok [codec_simps]:
  "0 \<le> n \<Longrightarrow> n < 256 ^ k \<Longrightarrow> int_to_bytes e k n = Inr (to_be k (nat n))"
  by (simp add: int_to_bytes_def)

lemma int_to_bytes_Inr_iff:
  "int_to_bytes e k n = Inr bs \<longleftrightarrow> 0 \<le> n \<and> n < 256 ^ k \<and> bs = to_be k (nat n)"
  by (auto simp: int_to_bytes_def)

subsection \<open>Dictionaries in insertion order\<close>

type_synonym ('k, 'v) dict = "('k \<times> 'v) list"

abbreviation dict_get :: "('k, 'v) dict \<Rightarrow> 'k \<Rightarrow> 'v option" where
  "dict_get \<equiv> map_of"

abbreviation dict_set :: "'k \<Rightarrow> 'v \<Rightarrow> ('k, 'v) dict \<Rightarrow> ('k, 'v) dict" where
  "dict_set \<equiv> AList.update"

abbreviation dict_pop :: "'k \<Rightarrow> ('k, 'v) dict \<Rightarrow> ('k, 'v) dict" where
  "dict_pop \<equiv> AList.delete"

abbreviation dict_ok :: "('k, 'v) dict \<Rightarrow> bool" where
  "dict_ok d \<equiv> distinct (map fst d)"

lemma dict_get_set [simp, dict_simps]:
  "dict_get (dict_set k v d) k' = (if k' = k then Some v else dict_get d k')"
  by (simp add: update_conv')

lemma dict_get_pop [simp, dict_simps]:
  "dict_get (dict_pop k d) k' = (if k' = k then None else dict_get d k')"
  by (simp add: delete_conv')

lemma dict_set_fresh: "k \<notin> fst ` set d \<Longrightarrow> dict_set k v d = d @ [(k, v)]"
  by (induction d) auto

lemma dict_ok_set [intro, dict_simps]: "dict_ok d \<Longrightarrow> dict_ok (dict_set k v d)"
  by (rule distinct_update)

lemma dict_ok_pop [intro, dict_simps]: "dict_ok d \<Longrightarrow> dict_ok (dict_pop k d)"
  by (rule distinct_delete)

lemma length_dict_set:
  "length (dict_set k v d) = (if dict_get d k = None then Suc (length d) else length d)"
  by (induction d) auto

lemma length_dict_pop_le: "length (dict_pop k d) \<le> length d"
  by (rule length_delete_le)

lemma length_dict_pop:
  "dict_ok d \<Longrightarrow>
     length (dict_pop k d) = (if dict_get d k = None then length d else length d - 1)"
proof (induction d)
  case Nil
  then show ?case by simp
next
  case (Cons p d)
  obtain a b where p: "p = (a, b)" by (cases p)
  show ?case
  proof (cases "a = k")
    case True
    with Cons.prems p have "k \<notin> fst ` set d" by simp
    with True p show ?thesis by (simp add: delete_idem image_iff)
  next
    case False
    with Cons p show ?thesis
      by (cases "dict_get d k"; cases d) auto
  qed
qed

lemma set_dict_set_subset: "set (dict_set k v d) \<subseteq> insert (k, v) (set d)"
  by (induction d) auto

lemma set_dict_pop_subset: "set (dict_pop k d) \<subseteq> set d"
  by (auto simp: AList.delete_eq)

subsection \<open>Splitting text\<close>

fun split_on :: "'a \<Rightarrow> 'a list \<Rightarrow> 'a list list" where
  "split_on c [] = [[]]"
| "split_on c (x # xs) =
     (if x = c then [] # split_on c xs
      else (case split_on c xs of [] \<Rightarrow> [[x]] | y # ys \<Rightarrow> (x # y) # ys))"

lemma split_on_ne [simp]: "split_on c xs \<noteq> []"
  by (induction xs) (auto split: list.splits)

subsection \<open>Machines with an invariant\<close>

locale invariant_machine =
  fixes step :: "'s \<Rightarrow> 'e \<Rightarrow> 's"
    and inv :: "'s \<Rightarrow> bool"
    and ok :: "'e \<Rightarrow> bool"
  assumes step_inv: "inv s \<Longrightarrow> ok e \<Longrightarrow> inv (step s e)"
begin

lemma run_inv: "inv s \<Longrightarrow> list_all ok es \<Longrightarrow> inv (foldl step s es)"
  by (induction es arbitrary: s) (auto intro: step_inv)

lemma run_inv_prefix:
  assumes "inv s" and "list_all ok (es @ fs)"
  shows "inv (foldl step s es)"
  using assms by (auto intro: run_inv)

end

end
