(* ===== verification/Utf8.thy ===== *)
theory Utf8
  imports Prelude
begin

text \<open>
  Python's \<^verbatim>\<open>str\<close> as a list of code points, and the three conversions the sources
  use: \<^verbatim>\<open>str.encode('utf-8')\<close>, \<^verbatim>\<open>bytes.decode('utf-8')\<close> (both strict: surrogates,
  overlong forms and code points above 10FFFF are errors) and
  \<^verbatim>\<open>bytes.decode('ascii', errors='replace')\<close>. Text literals are written
  \<open>str ''...''\<close>, octet literals \<open>octets ''...''\<close>.
\<close>

type_synonym pystr = "nat list"

definition str :: "string \<Rightarrow> pystr" where
  "str s = map of_char s"

definition octets :: "string \<Rightarrow> bytes" where
  "octets s = map of_char s"

definition surrogate :: "nat \<Rightarrow> bool" where
  "surrogate c \<longleftrightarrow> 0xD800 \<le> c \<and> c < 0xE000"

definition utf8_char :: "nat \<Rightarrow> bytes option" where
  "utf8_char c =
     (if c < 0x80 then Some [word_of_nat c]
      else if c < 0x800 then Some [word_of_nat (0xC0 + c div 64), word_of_nat (0x80 + c mod 64)]
      else if c < 0x10000 then
        (if surrogate c then None
         else Some [word_of_nat (0xE0 + c div 4096), word_of_nat (0x80 + c div 64 mod 64),
                    word_of_nat (0x80 + c mod 64)])
      else if c < 0x110000 then
        Some [word_of_nat (0xF0 + c div 262144), word_of_nat (0x80 + c div 4096 mod 64),
              word_of_nat (0x80 + c div 64 mod 64), word_of_nat (0x80 + c mod 64)]
      else None)"

fun utf8_encode :: "pystr \<Rightarrow> bytes option" where
  "utf8_encode [] = Some []"
| "utf8_encode (c # s) =
     (case utf8_char c of None \<Rightarrow> None
      | Some b \<Rightarrow> (case utf8_encode s of None \<Rightarrow> None | Some bs \<Rightarrow> Some (b @ bs)))"

definition utf8_cont :: "byte \<Rightarrow> bool" where
  "utf8_cont b \<longleftrightarrow> 0x80 \<le> unat b \<and> unat b < 0xC0"

definition utf8_2 :: "byte \<Rightarrow> byte \<Rightarrow> nat option" where
  "utf8_2 a b =
     (if utf8_cont b then Some ((unat a - 0xC0) * 64 + (unat b - 0x80)) else None)"

definition utf8_3 :: "byte \<Rightarrow> byte \<Rightarrow> byte \<Rightarrow> nat option" where
  "utf8_3 a b c =
     (let n = (unat a - 0xE0) * 4096 + (unat b - 0x80) * 64 + (unat c - 0x80)
      in if utf8_cont b \<and> utf8_cont c \<and> 0x800 \<le> n \<and> \<not> surrogate n then Some n else None)"

definition utf8_4 :: "byte \<Rightarrow> byte \<Rightarrow> byte \<Rightarrow> byte \<Rightarrow> nat option" where
  "utf8_4 a b c d =
     (let n = (unat a - 0xF0) * 262144 + (unat b - 0x80) * 4096 + (unat c - 0x80) * 64
              + (unat d - 0x80)
      in if utf8_cont b \<and> utf8_cont c \<and> utf8_cont d \<and> 0x10000 \<le> n \<and> n < 0x110000
         then Some n else None)"

text \<open>One character off the front of a byte string, with the rest.\<close>

definition utf8_next :: "bytes \<Rightarrow> (nat \<times> bytes) option" where
  "utf8_next bs =
     (case bs of [] \<Rightarrow> None
      | a # r \<Rightarrow>
        if unat a < 0x80 then Some (unat a, r)
        else if 0xC2 \<le> unat a \<and> unat a < 0xE0 then
          (case r of b # r1 \<Rightarrow> map_option (\<lambda>n. (n, r1)) (utf8_2 a b) | _ \<Rightarrow> None)
        else if 0xE0 \<le> unat a \<and> unat a < 0xF0 then
          (case r of b # c # r1 \<Rightarrow> map_option (\<lambda>n. (n, r1)) (utf8_3 a b c) | _ \<Rightarrow> None)
        else if 0xF0 \<le> unat a \<and> unat a < 0xF5 then
          (case r of b # c # d # r1 \<Rightarrow> map_option (\<lambda>n. (n, r1)) (utf8_4 a b c d) | _ \<Rightarrow> None)
        else None)"

lemma utf8_next_shorter: "utf8_next bs = Some (n, r) \<Longrightarrow> length r < length bs"
  by (auto simp: utf8_next_def split: list.splits if_splits)

function utf8_decode :: "bytes \<Rightarrow> pystr option" where
  "utf8_decode bs =
     (if bs = [] then Some []
      else (case utf8_next bs of None \<Rightarrow> None | Some (n, r) \<Rightarrow> map_option ((#) n) (utf8_decode r)))"
  by pat_completeness auto
termination
  by (relation "measure length") (auto dest: utf8_next_shorter)

declare utf8_decode.simps [simp del]

definition ascii_replace :: "bytes \<Rightarrow> pystr" where
  "ascii_replace bs = map (\<lambda>b. if unat b < 0x80 then unat b else 0xFFFD) bs"

subsection \<open>Round trips\<close>

lemma base64_split3: "c div 4096 * 4096 + c div 64 mod 64 * 64 + c mod 64 = c" for c :: nat
proof -
  have "c div 4096 * 64 + c div 64 mod 64 = c div 64"
    using div_mult_mod_eq [of "c div 64" 64] by (simp add: div_mult2_eq [symmetric])
  then have "(c div 4096 * 64 + c div 64 mod 64) * 64 + c mod 64 = c" by simp
  then show ?thesis by (simp add: add_mult_distrib)
qed

lemma base64_split4:
  "c div 262144 * 262144 + c div 4096 mod 64 * 4096 + c div 64 mod 64 * 64 + c mod 64 = c"
  for c :: nat
proof -
  have "c div 262144 * 64 + c div 4096 mod 64 = c div 4096"
    using div_mult_mod_eq [of "c div 4096" 64] by (simp add: div_mult2_eq [symmetric])
  then have "(c div 262144 * 64 + c div 4096 mod 64) * 4096 + c div 64 mod 64 * 64 + c mod 64 = c"
    by (simp add: base64_split3)
  then show ?thesis by (simp add: add_mult_distrib)
qed

lemma base64_join: "k < 64 \<Longrightarrow> c = m * 64 + k \<Longrightarrow> c div 64 = m \<and> c mod 64 = k" for c :: nat
  by simp

lemma unat_lead: "n < 256 \<Longrightarrow> unat (word_of_nat n :: byte) = n"
  by (simp add: unat_word_of_nat_byte)

lemma utf8_cont_digit [simp]: "utf8_cont (word_of_nat (0x80 + m mod 64))"
  using mod_less_divisor [of 64 m]
  by (simp add: utf8_cont_def unat_lead del: mod_less_divisor of_nat_add)

lemma unat_cont_digit [simp]: "unat (word_of_nat (0x80 + m mod 64) :: byte) = 0x80 + m mod 64"
  using mod_less_divisor [of 64 m] by (intro unat_lead) (simp del: mod_less_divisor)

lemma utf8_next_char_2:
  assumes "0x80 \<le> c" "c < 0x800"
  shows "utf8_next (word_of_nat (0xC0 + c div 64) # word_of_nat (0x80 + c mod 64) # r) = Some (c, r)"
proof -
  have "c div 64 < 32" "2 \<le> c div 64" using assms by auto
  then have "unat (word_of_nat (0xC0 + c div 64) :: byte) = 0xC0 + c div 64"
    by (intro unat_lead) simp
  with \<open>c div 64 < 32\<close> \<open>2 \<le> c div 64\<close> show ?thesis
    by (simp only: utf8_next_def utf8_2_def list.case utf8_cont_digit unat_cont_digit if_True) simp
qed

lemma utf8_next_char_3:
  assumes "0x800 \<le> c" "c < 0x10000" "\<not> surrogate c"
  shows "utf8_next (word_of_nat (0xE0 + c div 4096) # word_of_nat (0x80 + c div 64 mod 64)
           # word_of_nat (0x80 + c mod 64) # r) = Some (c, r)"
proof -
  have "c div 4096 < 16" using assms by auto
  moreover from this have "unat (word_of_nat (0xE0 + c div 4096) :: byte) = 0xE0 + c div 4096"
    by (intro unat_lead) simp
  ultimately show ?thesis using assms
    by (simp only: utf8_next_def utf8_3_def list.case utf8_cont_digit unat_cont_digit
          diff_add_inverse base64_split3 Let_def) simp
qed

lemma utf8_next_char_4:
  assumes "0x10000 \<le> c" "c < 0x110000"
  shows "utf8_next (word_of_nat (0xF0 + c div 262144) # word_of_nat (0x80 + c div 4096 mod 64)
           # word_of_nat (0x80 + c div 64 mod 64) # word_of_nat (0x80 + c mod 64) # r) = Some (c, r)"
proof -
  have "c div 262144 < 5" using assms by auto
  moreover from this have "unat (word_of_nat (0xF0 + c div 262144) :: byte) = 0xF0 + c div 262144"
    by (intro unat_lead) simp
  ultimately show ?thesis using assms
    by (simp only: utf8_next_def utf8_4_def list.case utf8_cont_digit unat_cont_digit
          diff_add_inverse base64_split4 Let_def) simp
qed

lemma utf8_next_char: "utf8_char c = Some b \<Longrightarrow> utf8_next (b @ r) = Some (c, r)"
  using utf8_next_char_2 [of c r] utf8_next_char_3 [of c r] utf8_next_char_4 [of c r]
  by (auto simp: utf8_char_def utf8_next_def [of "_ # r"] unat_lead simp del: of_nat_add
      split: if_splits)

lemma byte_eq_of_nat: "unat b = n \<Longrightarrow> word_of_nat n = b" for b :: byte
  by auto

lemma utf8_char_2:
  assumes "0xC2 \<le> unat a" "unat a < 0xE0" "utf8_2 a b = Some c"
  shows "utf8_char c = Some [a, b]"
proof -
  obtain m n where mn: "unat a = 0xC0 + m" "unat b = 0x80 + n" "n < 64" "m < 32" "2 \<le> m"
    and c: "c = m * 64 + n"
    using assms that [of "unat a - 0xC0" "unat b - 0x80"]
    by (auto simp: utf8_2_def utf8_cont_def split: if_splits)
  then have "c div 64 = m" "c mod 64 = n" "0x80 \<le> c" "c < 0x800" by auto
  with mn show ?thesis by (simp add: utf8_char_def byte_eq_of_nat del: of_nat_add)
qed

lemma utf8_char_3:
  assumes "0xE0 \<le> unat a" "unat a < 0xF0" "utf8_3 a b d = Some c"
  shows "utf8_char c = Some [a, b, d]"
proof -
  obtain m n k where mn: "unat a = 0xE0 + m" "unat b = 0x80 + n" "unat d = 0x80 + k"
      "k < 64" "n < 64" "m < 16"
    and c: "c = m * 4096 + n * 64 + k" "0x800 \<le> c" "\<not> surrogate c"
    using assms that [of "unat a - 0xE0" "unat b - 0x80" "unat d - 0x80"]
    by (auto simp: utf8_3_def utf8_cont_def Let_def split: if_splits)
  have "c = (m * 64 + n) * 64 + k" by (simp add: c add_mult_distrib)
  with mn have "c div 64 = m * 64 + n" "c mod 64 = k" using base64_join by blast+
  moreover from this mn have "c div 4096 = m" "c div 64 mod 64 = n"
    using div_mult2_eq [of c 64 64] base64_join [of n "c div 64" m] by simp_all
  moreover have "c < 0x10000" using mn c by simp
  ultimately show ?thesis using mn c(2,3) by (simp add: utf8_char_def byte_eq_of_nat del: of_nat_add)
qed

lemma utf8_char_4:
  assumes "0xF0 \<le> unat a" "unat a < 0xF5" "utf8_4 a b d e = Some c"
  shows "utf8_char c = Some [a, b, d, e]"
proof -
  obtain m n k l where mn: "unat a = 0xF0 + m" "unat b = 0x80 + n" "unat d = 0x80 + k"
      "unat e = 0x80 + l" "l < 64" "k < 64" "n < 64" "m < 5"
    and c: "c = m * 262144 + n * 4096 + k * 64 + l" "0x10000 \<le> c" "c < 0x110000"
    using assms that [of "unat a - 0xF0" "unat b - 0x80" "unat d - 0x80" "unat e - 0x80"]
    by (auto simp: utf8_4_def utf8_cont_def Let_def split: if_splits)
  have "c = ((m * 64 + n) * 64 + k) * 64 + l" by (simp add: c add_mult_distrib)
  with mn have 1: "c div 64 = (m * 64 + n) * 64 + k" "c mod 64 = l" using base64_join by blast+
  with mn have 2: "c div 4096 = m * 64 + n" "c div 64 mod 64 = k"
    using div_mult2_eq [of c 64 64] base64_join [of k "c div 64" "m * 64 + n"] by simp_all
  with mn have "c div 262144 = m" "c div 4096 mod 64 = n"
    using div_mult2_eq [of c 4096 64] base64_join [of n "c div 4096" m] by simp_all
  with 1 2 mn c(2,3) show ?thesis by (simp add: utf8_char_def byte_eq_of_nat del: of_nat_add)
qed

lemma utf8_char_next:
  assumes "utf8_next bs = Some (c, r)"
  shows "\<exists>b. utf8_char c = Some b \<and> bs = b @ r"
  using assms utf8_char_2 utf8_char_3 utf8_char_4
  by (fastforce simp: utf8_next_def utf8_char_def [of "unat a" for a]
      split: list.splits if_splits)

lemma utf8_decode_Nil [simp]: "utf8_decode [] = Some []"
  by (simp add: utf8_decode.simps)

lemma utf8_char_ne: "utf8_char c = Some b \<Longrightarrow> b \<noteq> []"
  by (auto simp: utf8_char_def split: if_splits)

theorem utf8_decode_encode: "utf8_encode s = Some bs \<Longrightarrow> utf8_decode bs = Some s"
proof (induction s arbitrary: bs)
  case Nil
  then show ?case by simp
next
  case (Cons c s)
  then obtain b bs' where b: "utf8_char c = Some b" "utf8_encode s = Some bs'" "bs = b @ bs'"
    by (auto split: option.splits)
  with Cons.IH have "utf8_decode bs' = Some s" by simp
  with b utf8_char_ne [OF b(1)] show ?case
    by (simp add: utf8_decode.simps [of "b @ bs'"] utf8_next_char)
qed

theorem utf8_encode_decode: "utf8_decode bs = Some s \<Longrightarrow> utf8_encode s = Some bs"
proof (induction bs arbitrary: s rule: utf8_decode.induct)
  case (1 bs)
  show ?case
  proof (cases "bs = []")
    case True
    with "1.prems" show ?thesis by simp
  next
    case False
    with "1.prems" obtain n r s' where n: "utf8_next bs = Some (n, r)"
      and s': "utf8_decode r = Some s'" "s = n # s'"
      by (subst (asm) utf8_decode.simps) (auto split: option.splits)
    from utf8_char_next [OF n] obtain b where "utf8_char n = Some b" "bs = b @ r" by blast
    moreover from "1.IH" False n s' have "utf8_encode s' = Some r" by blast
    ultimately show ?thesis using s' by simp
  qed
qed

lemma length_ascii_replace [simp]: "length (ascii_replace bs) = length bs"
  by (simp add: ascii_replace_def)

lemma str_Nil [simp]: "str [] = []" and str_Cons [simp]: "str (c # s) = of_char c # str s"
  by (simp_all add: str_def)

lemma octets_Nil [simp]: "octets [] = []"
  and octets_Cons [simp]: "octets (c # s) = of_char c # octets s"
  by (simp_all add: octets_def)

text \<open>\<^verbatim>\<open>str(n)\<close> of a natural number.\<close>

fun show_nat :: "nat \<Rightarrow> pystr" where
  "show_nat n = (if n < 10 then [0x30 + n] else show_nat (n div 10) @ [0x30 + n mod 10])"

declare show_nat.simps [simp del]

end
