(* ===== verification/H2_Frame.thy ===== *)
theory H2_Frame
  imports Utf8
begin

text \<open>
  HTTP/2 frames: the frame types, their flags and error codes, the constructors and the
  \<^verbatim>\<open>save\<close> methods of \<^verbatim>\<open>src/blackbull/protocol/frame_types.py\<close>, the static HPACK fast path of
  \<^verbatim>\<open>hpack_fastpath.py\<close> and the \<^verbatim>\<open>FrameFactory\<close> of \<^verbatim>\<open>frame.py\<close>. The third-party \<^verbatim>\<open>hpack\<close> codec is
  a parameter: a decoder \<open>dec\<close> and an encoder \<open>enc\<close>, each with a state of its own (the dynamic
  table). An exception is the left side of a sum.
\<close>

subsection \<open>Frame types, flags and error codes\<close>

definition DEFAULT_INITIAL_WINDOW_SIZE :: int where
  "DEFAULT_INITIAL_WINDOW_SIZE = 65535"

definition DEFAULT_MAX_FRAME_SIZE :: nat where
  "DEFAULT_MAX_FRAME_SIZE = 16384"

datatype frame_types =
    DATA | HEADERS | PRIORITY | RST_STREAM | SETTINGS | PUSH_PROMISE | PING | GOAWAY
  | WINDOW_UPDATE | CONTINUATION | PRIORITY_UPDATE

fun ft_value :: "frame_types \<Rightarrow> byte" where
  "ft_value DATA = 0x00"
| "ft_value HEADERS = 0x01"
| "ft_value PRIORITY = 0x02"
| "ft_value RST_STREAM = 0x03"
| "ft_value SETTINGS = 0x04"
| "ft_value PUSH_PROMISE = 0x05"
| "ft_value PING = 0x06"
| "ft_value GOAWAY = 0x07"
| "ft_value WINDOW_UPDATE = 0x08"
| "ft_value CONTINUATION = 0x09"
| "ft_value PRIORITY_UPDATE = 0x10"

definition all_frame_types :: "frame_types list" where
  "all_frame_types =
     [DATA, HEADERS, PRIORITY, RST_STREAM, SETTINGS, PUSH_PROMISE, PING, GOAWAY, WINDOW_UPDATE,
      CONTINUATION, PRIORITY_UPDATE]"

definition frame_type_by_value :: "(byte, frame_types) dict" where
  "frame_type_by_value = map (\<lambda>m. (ft_value m, m)) all_frame_types"

text \<open>Flags are Python ints; a flag test is \<^verbatim>\<open>FLAG & self.flags\<close>.\<close>

definition F_END_STREAM :: nat where "F_END_STREAM = 0x1"
definition F_ACK :: nat where "F_ACK = 0x1"
definition F_INIT :: nat where "F_INIT = 0x0"
definition F_END_HEADERS :: nat where "F_END_HEADERS = 0x4"
definition F_PADDED :: nat where "F_PADDED = 0x8"
definition F_PRIORITY :: nat where "F_PRIORITY = 0x20"

definition flag_set :: "nat \<Rightarrow> nat \<Rightarrow> bool" where
  "flag_set flag flags \<longleftrightarrow> flag AND flags \<noteq> 0"

lemmas flag_defs = F_END_STREAM_def F_ACK_def F_INIT_def F_END_HEADERS_def F_PADDED_def F_PRIORITY_def

datatype error_codes =
    NO_ERROR | PROTOCOL_ERROR | INTERNAL_ERROR | FLOW_CONTROL_ERROR | SETTINGS_TIMEOUT
  | STREAM_CLOSED | FRAME_SIZE_ERROR | REFUSED_STREAM | CANCEL | COMPRESSION_ERROR
  | CONNECT_ERROR | ENHANCE_YOUR_CALM | INADEQUATE_SECURITY | HTTP_1_1_REQUIRED

fun ec_value :: "error_codes \<Rightarrow> nat" where
  "ec_value NO_ERROR = 0x0"
| "ec_value PROTOCOL_ERROR = 0x1"
| "ec_value INTERNAL_ERROR = 0x2"
| "ec_value FLOW_CONTROL_ERROR = 0x3"
| "ec_value SETTINGS_TIMEOUT = 0x4"
| "ec_value STREAM_CLOSED = 0x5"
| "ec_value FRAME_SIZE_ERROR = 0x6"
| "ec_value REFUSED_STREAM = 0x7"
| "ec_value CANCEL = 0x8"
| "ec_value COMPRESSION_ERROR = 0x9"
| "ec_value CONNECT_ERROR = 0xa"
| "ec_value ENHANCE_YOUR_CALM = 0xb"
| "ec_value INADEQUATE_SECURITY = 0xc"
| "ec_value HTTP_1_1_REQUIRED = 0xd"

subsection \<open>Exceptions\<close>

datatype h2_exn =
    NotEnoughData      \<comment> \<open>\<^verbatim>\<open>Exception('not enough data length ...')\<close> of \<^verbatim>\<open>FrameFactory.load\<close>\<close>
  | FrameSizeError     \<comment> \<open>\<^verbatim>\<open>Exception('Frame size error')\<close>: RST_STREAM, PING\<close>
  | PadLengthError     \<comment> \<open>\<^verbatim>\<open>ValueError\<close> of a padded DATA frame\<close>
  | HpackError         \<comment> \<open>whatever \<^verbatim>\<open>hpack\<close> raises\<close>
  | ValueErr           \<comment> \<open>\<^verbatim>\<open>ValueError\<close> of \<^verbatim>\<open>urlsplit\<close>\<close>
  | UnicodeErr         \<comment> \<open>\<^verbatim>\<open>UnicodeDecodeError\<close>/\<^verbatim>\<open>UnicodeEncodeError\<close>\<close>
  | OverflowErr        \<comment> \<open>\<^verbatim>\<open>OverflowError\<close> of \<^verbatim>\<open>int.to_bytes\<close>\<close>
  | AttributeErr       \<comment> \<open>\<^verbatim>\<open>_UnknownFrame\<close> has no \<^verbatim>\<open>save\<close>\<close>

subsection \<open>Frames\<close>

record frame_base =
  flength :: nat
  ftype :: frame_types
  fflags :: nat
  fstream :: nat

datatype setting_attr =
    header_table_size | enable_push | max_concurrent_streams | initial_window_size
  | max_frame_size | max_header_list_size | enable_connect_protocol

datatype pseudo_headers = METHOD | PATH | SCHEME | STATUS | AUTHORITY | PROTOCOL

type_synonym fields = "(bytes \<times> bytes) list"

datatype malformed_reason =
    HeadersPadLength | SelfDependency | InvalidFieldName | InvalidFieldValue
  | PseudoAfterRegular | UnknownPseudo | DuplicatePseudo | ConnectionSpecific | InvalidTE
  | StatusInRequest | MissingMethod | MissingScheme | MissingPath | EmptyPath | EmptyAuthority
  | InvalidAuthority | MultipleHost | MissingHost | EmptyHost | InvalidHost

text \<open>
  The attributes of a \<^verbatim>\<open>Headers\<close> frame beyond the base ones; \<open>malformed\<close> holds the reason when
  \<^verbatim>\<open>self.malformed\<close> is set.
\<close>

record header_block =
  pseudo_headers :: "(pseudo_headers, pystr) dict"
  regular_headers :: fields
  malformed :: "malformed_reason option"
  raw_block :: bytes
  stream_dependency :: nat
  priority_weight :: nat

text \<open>A header name or value handed to the encoder is text or octets.\<close>

datatype htext = HStr pystr | HBytes bytes

datatype frame =
    SettingFrame frame_base bytes "(setting_attr, nat) dict"
  | WindowUpdate frame_base bytes nat
  | Headers frame_base header_block
  | PushPromise frame_base nat "(pseudo_headers, pystr) dict" "(htext \<times> htext) list"
  | GoAway frame_base nat nat bytes
  | RstStream frame_base nat
  | Data frame_base bytes
  | Priority frame_base nat nat nat
  | Ping frame_base bytes
  | Continuation frame_base bytes
  | PriorityUpdate frame_base nat pystr
  | UnknownFrame nat byte nat nat bytes

subsection \<open>SETTINGS payloads\<close>

definition setting_attrs :: "(bytes, setting_attr) dict" where
  "setting_attrs =
     [([0x00, 0x01], header_table_size), ([0x00, 0x02], enable_push),
      ([0x00, 0x03], max_concurrent_streams), ([0x00, 0x04], initial_window_size),
      ([0x00, 0x05], max_frame_size), ([0x00, 0x06], max_header_list_size),
      ([0x00, 0x08], enable_connect_protocol)]"

definition apply_setting ::
  "bytes \<Rightarrow> bytes \<Rightarrow> (setting_attr, nat) dict \<Rightarrow> (setting_attr, nat) dict" where
  "apply_setting identifier value attrs =
     (case dict_get setting_attrs identifier of
        None \<Rightarrow> attrs
      | Some attr \<Rightarrow> dict_set attr (from_be value) attrs)"

fun read_settings :: "bytes \<Rightarrow> (setting_attr, nat) dict \<Rightarrow> (setting_attr, nat) dict" where
  "read_settings (i1 # i2 # v1 # v2 # v3 # v4 # rest) attrs =
     read_settings rest (apply_setting [i1, i2] [v1, v2, v3, v4] attrs)"
| "read_settings _ attrs = attrs"


subsection \<open>Header blocks\<close>

fun pseudo_name :: "pseudo_headers \<Rightarrow> string" where
  "pseudo_name METHOD = '':method''"
| "pseudo_name PATH = '':path''"
| "pseudo_name SCHEME = '':scheme''"
| "pseudo_name STATUS = '':status''"
| "pseudo_name AUTHORITY = '':authority''"
| "pseudo_name PROTOCOL = '':protocol''"

definition pseudo_by_bytes :: "(bytes, pseudo_headers) dict" where
  "pseudo_by_bytes =
     map (\<lambda>m. (octets (pseudo_name m), m)) [METHOD, PATH, SCHEME, STATUS, AUTHORITY, PROTOCOL]"

definition hop_by_hop_headers :: "bytes list" where
  "hop_by_hop_headers =
     [octets ''connection'', octets ''keep-alive'', octets ''proxy-connection'',
      octets ''transfer-encoding'', octets ''upgrade'']"

definition field_name_octet_ok :: "byte \<Rightarrow> bool" where
  "field_name_octet_ok b \<longleftrightarrow>
     \<not> (b \<le> 0x20 \<or> b = 0x3A \<or> (0x41 \<le> b \<and> b \<le> 0x5A) \<or> b \<ge> 0x7F)"

definition field_name_is_valid :: "bytes \<Rightarrow> bool" where
  "field_name_is_valid name =
     (case name of
        [] \<Rightarrow> False
      | c # rest \<Rightarrow> list_all field_name_octet_ok (if c = 0x3A then rest else name))"

definition field_value_is_valid :: "bytes \<Rightarrow> bool" where
  "field_value_is_valid value \<longleftrightarrow>
     \<not> (0x00 \<in> set value \<or> 0x0A \<in> set value \<or> 0x0D \<in> set value)"

definition empty_block :: header_block where
  "empty_block =
     \<lparr>pseudo_headers = [], regular_headers = [], malformed = None, raw_block = [],
      stream_dependency = 0, priority_weight = 1\<rparr>"

definition mark_malformed :: "malformed_reason \<Rightarrow> header_block \<Rightarrow> header_block" where
  "mark_malformed reason hb = hb\<lparr>malformed := Some reason\<rparr>"

text \<open>The loop over the decoded fields in \<^verbatim>\<open>Headers.parse_payload\<close>; a \<^verbatim>\<open>return\<close> in it ends the loop.\<close>

fun parse_fields :: "bool \<Rightarrow> fields \<Rightarrow> header_block \<Rightarrow> h2_exn + header_block" where
  "parse_fields seen_regular [] hb = Inr hb"
| "parse_fields seen_regular ((k, v) # fs) hb =
     (if \<not> field_name_is_valid k then Inr (mark_malformed InvalidFieldName hb)
      else if \<not> field_value_is_valid v then Inr (mark_malformed InvalidFieldValue hb)
      else if take 1 k = [0x3A] then
        (if seen_regular then Inr (mark_malformed PseudoAfterRegular hb)
         else (case dict_get pseudo_by_bytes k of
             None \<Rightarrow> Inr (mark_malformed UnknownPseudo hb)
           | Some p \<Rightarrow>
               if dict_get (pseudo_headers hb) p \<noteq> None
               then Inr (mark_malformed DuplicatePseudo hb)
               else (case utf8_decode v of
                   None \<Rightarrow> Inl UnicodeErr
                 | Some s \<Rightarrow>
                     parse_fields seen_regular fs
                       (hb\<lparr>pseudo_headers := dict_set p s (pseudo_headers hb)\<rparr>))))
      else if k \<in> set hop_by_hop_headers then Inr (mark_malformed ConnectionSpecific hb)
      else if k = octets ''te'' \<and> v \<noteq> octets ''trailers'' then Inr (mark_malformed InvalidTE hb)
      else parse_fields True fs (hb\<lparr>regular_headers := regular_headers hb @ [(k, v)]\<rparr>))"

text \<open>\<^verbatim>\<open>BytesIO.read(n)\<close>: a negative \<^verbatim>\<open>n\<close> reads everything that is left.\<close>

definition bio_read :: "int \<Rightarrow> bytes \<Rightarrow> bytes \<times> bytes" where
  "bio_read n bs = (if n < 0 then (bs, []) else (take (nat n) bs, drop (nat n) bs))"

type_synonym 'd hpack_decoder = "'d \<Rightarrow> bytes \<Rightarrow> (fields \<times> 'd) option"
type_synonym 'c hpack_encoder = "'c \<Rightarrow> (htext \<times> htext) list \<Rightarrow> bytes \<times> 'c"

text \<open>The PRIORITY prefix of a header block: dependency, weight, and what follows.\<close>

definition read_priority :: "bytes \<Rightarrow> nat \<times> nat \<times> bytes" where
  "read_priority payload =
     (let (sd_raw, payload) = bio_read 4 payload;
          (w, payload) = bio_read 1 payload
      in (from_be sd_raw AND 0x7fffffff, from_be w, payload))"

definition decode_block ::
  "'d hpack_decoder \<Rightarrow> 'd \<Rightarrow> bytes \<Rightarrow> header_block \<Rightarrow> h2_exn + header_block \<times> 'd" where
  "decode_block dec d block hb =
     (case dec d block of
        None \<Rightarrow> Inl HpackError
      | Some (fs, d') \<Rightarrow> andThen (parse_fields False fs hb) (\<lambda>hb'. Inr (hb', d')))"

definition parse_payload ::
  "'d hpack_decoder \<Rightarrow> 'd \<Rightarrow> frame_base \<Rightarrow> header_block \<Rightarrow> h2_exn + header_block \<times> 'd" where
  "parse_payload dec d base hb =
     (let payload = raw_block hb; remaining = int (length (raw_block hb));
          padded = flag_set F_PADDED (fflags base);
          (pad, payload) = (if padded then bio_read 1 payload else ([], payload))
      in if padded \<and> from_be pad \<ge> flength base then Inr (mark_malformed HeadersPadLength hb, d)
         else
           let remaining = (if padded then remaining - (1 + int (from_be pad)) else remaining)
           in if flag_set F_PRIORITY (fflags base) then
                let (dep, weight, payload) = read_priority payload;
                    hb = hb\<lparr>stream_dependency := dep, priority_weight := weight\<rparr>
                in if dep = fstream base then Inr (mark_malformed SelfDependency hb, d)
                   else decode_block dec d (fst (bio_read (remaining - 5) payload)) hb
              else decode_block dec d (fst (bio_read remaining payload)) hb)"

subsection \<open>The constructors\<close>

definition mk_SettingFrame :: "frame_base \<Rightarrow> bytes \<Rightarrow> frame" where
  "mk_SettingFrame base data = SettingFrame base data (read_settings data [])"

definition mk_WindowUpdate :: "frame_base \<Rightarrow> bytes \<Rightarrow> frame" where
  "mk_WindowUpdate base data =
     (let payload = (if data = [] then [0, 0, 0, 0] else data)
      in WindowUpdate base payload (from_be payload))"

definition mk_Headers ::
  "'d hpack_decoder \<Rightarrow> 'd \<Rightarrow> frame_base \<Rightarrow> bytes \<Rightarrow> h2_exn + frame \<times> 'd" where
  "mk_Headers dec d base data =
     (if flength base = 0 then Inr (Headers base empty_block, d)
      else
        let hb = empty_block\<lparr>raw_block := data\<rparr>
        in if flag_set F_END_HEADERS (fflags base)
           then andThen (parse_payload dec d base hb) (\<lambda>(hb', d'). Inr (Headers base hb', d'))
           else Inr (Headers base hb, d))"

definition mk_PushPromise :: "frame_base \<Rightarrow> bytes \<Rightarrow> frame" where
  "mk_PushPromise base data = PushPromise base (from_be (take 4 data) AND 0x7FFFFFFF) [] []"

definition mk_GoAway :: "frame_base \<Rightarrow> bytes \<Rightarrow> frame" where
  "mk_GoAway base data =
     GoAway base (from_be (take 4 data)) (from_be (take 4 (drop 4 data))) (drop 8 data)"

definition mk_RstStream :: "frame_base \<Rightarrow> bytes \<Rightarrow> h2_exn + frame" where
  "mk_RstStream base data =
     (if length data \<noteq> 4 then Inl FrameSizeError else Inr (RstStream base (from_be data)))"

definition mk_Data :: "frame_base \<Rightarrow> bytes \<Rightarrow> h2_exn + frame" where
  "mk_Data base data =
     (if flag_set F_PADDED (fflags base) then
        let (pad, payload) = bio_read 1 data
        in if from_be pad \<ge> flength base then Inl PadLengthError
           else Inr (Data base
                  (fst (bio_read (int (flength base) - int (from_be pad) - 1) payload)))
      else Inr (Data base (if length data = flength base then data else take (flength base) data)))"

definition mk_Priority :: "frame_base \<Rightarrow> bytes \<Rightarrow> frame" where
  "mk_Priority base data =
     (let t = from_be (take 4 data)
      in Priority base (0x80000000 AND t) (t AND 0x7fffffff) (from_be (take 1 (drop 4 data)) + 1))"

definition mk_Ping :: "frame_base \<Rightarrow> bytes \<Rightarrow> h2_exn + frame" where
  "mk_Ping base data = (if flength base \<noteq> 8 then Inl FrameSizeError else Inr (Ping base data))"

definition mk_PriorityUpdate :: "frame_base \<Rightarrow> bytes \<Rightarrow> frame" where
  "mk_PriorityUpdate base data =
     PriorityUpdate base (from_be (take 4 data) AND 0x7FFFFFFF) (ascii_replace (drop 4 data))"


subsection \<open>\<^verbatim>\<open>FrameFactory.create\<close> and \<^verbatim>\<open>FrameFactory.load\<close>\<close>

definition create ::
  "'d hpack_decoder \<Rightarrow> 'd \<Rightarrow> frame_types \<Rightarrow> nat \<Rightarrow> nat \<Rightarrow> bytes \<Rightarrow> h2_exn + frame \<times> 'd" where
  "create dec d typ flags stream_id data =
     (let base = \<lparr>flength = length data, ftype = typ, fflags = flags, fstream = stream_id\<rparr>
      in case typ of
           DATA \<Rightarrow> andThen (mk_Data base data) (\<lambda>f. Inr (f, d))
         | HEADERS \<Rightarrow> mk_Headers dec d base data
         | PRIORITY \<Rightarrow> Inr (mk_Priority base data, d)
         | RST_STREAM \<Rightarrow> andThen (mk_RstStream base data) (\<lambda>f. Inr (f, d))
         | SETTINGS \<Rightarrow> Inr (mk_SettingFrame base data, d)
         | PUSH_PROMISE \<Rightarrow> Inr (mk_PushPromise base data, d)
         | PING \<Rightarrow> andThen (mk_Ping base data) (\<lambda>f. Inr (f, d))
         | GOAWAY \<Rightarrow> Inr (mk_GoAway base data, d)
         | WINDOW_UPDATE \<Rightarrow> Inr (mk_WindowUpdate base data, d)
         | CONTINUATION \<Rightarrow> Inr (Continuation base data, d)
         | PRIORITY_UPDATE \<Rightarrow> Inr (mk_PriorityUpdate base data, d))"

definition load :: "'d hpack_decoder \<Rightarrow> 'd \<Rightarrow> bytes \<Rightarrow> h2_exn + frame \<times> 'd" where
  "load dec d data =
     (if length data < 9 then Inl NotEnoughData
      else
        let len = from_be (take 3 data); typ = data ! 3; flags = from_be (slice data 4 5);
            stream_id = from_be (slice data 5 9) AND 0x7fffffff;
            payload = slice data 9 (9 + len)
        in case dict_get frame_type_by_value typ of
             None \<Rightarrow> Inr (UnknownFrame len typ flags stream_id payload, d)
           | Some t \<Rightarrow> create dec d t flags stream_id payload)"

subsection \<open>The static HPACK fast path\<close>

definition static_indexed :: "(bytes \<times> bytes, bytes) dict" where
  "static_indexed =
     [((octets '':method'', octets ''GET''), [0x80 OR 2]),
      ((octets '':method'', octets ''POST''), [0x80 OR 3]),
      ((octets '':path'', octets ''/''), [0x80 OR 4]),
      ((octets '':path'', octets ''/index.html''), [0x80 OR 5]),
      ((octets '':scheme'', octets ''http''), [0x80 OR 6]),
      ((octets '':scheme'', octets ''https''), [0x80 OR 7]),
      ((octets '':status'', octets ''200''), [0x80 OR 8]),
      ((octets '':status'', octets ''204''), [0x80 OR 9]),
      ((octets '':status'', octets ''206''), [0x80 OR 10]),
      ((octets '':status'', octets ''304''), [0x80 OR 11]),
      ((octets '':status'', octets ''400''), [0x80 OR 12]),
      ((octets '':status'', octets ''404''), [0x80 OR 13]),
      ((octets '':status'', octets ''500''), [0x80 OR 14]),
      ((octets ''accept-encoding'', octets ''gzip, deflate''), [0x80 OR 16])]"

definition coerce_bytes :: "htext \<Rightarrow> h2_exn + bytes" where
  "coerce_bytes v =
     (case v of HBytes b \<Rightarrow> Inr b
      | HStr s \<Rightarrow> if list_all (\<lambda>c. c < 128) s then Inr (map word_of_nat s) else Inl UnicodeErr)"

definition pseudo_fast_bytes :: "htext \<Rightarrow> htext \<Rightarrow> h2_exn + bytes option" where
  "pseudo_fast_bytes name value =
     andThen (coerce_bytes name) (\<lambda>n.
     andThen (coerce_bytes value) (\<lambda>v. Inr (dict_get static_indexed (n, v))))"

definition status_fast_bytes :: "htext \<Rightarrow> h2_exn + bytes option" where
  "status_fast_bytes value =
     andThen (coerce_bytes value) (\<lambda>v. Inr (dict_get static_indexed (octets '':status'', v)))"

subsection \<open>\<^verbatim>\<open>save\<close>\<close>

definition base_save :: "frame_base \<Rightarrow> h2_exn + bytes" where
  "base_save b =
     andThen (int_to_bytes OverflowErr 3 (int (flength b))) (\<lambda>l.
     andThen (int_to_bytes OverflowErr 1 (int (fflags b))) (\<lambda>f.
     andThen (int_to_bytes OverflowErr 4 (int (fstream b))) (\<lambda>s.
       Inr (l @ [ft_value (ftype b)] @ f @ s))))"

text \<open>\<^verbatim>\<open>super().save() + payload\<close>, the length taken from the frame as it stands.\<close>

definition save_with :: "frame_base \<Rightarrow> bytes \<Rightarrow> h2_exn + bytes" where
  "save_with b payload = andThen (base_save b) (\<lambda>h. Inr (h @ payload))"

abbreviation set_len :: "frame_base \<Rightarrow> bytes \<Rightarrow> frame_base" where
  "set_len b payload \<equiv> b\<lparr>flength := length payload\<rparr>"

definition pseudo_item :: "pseudo_headers \<times> pystr \<Rightarrow> htext \<times> htext" where
  "pseudo_item kv = (HStr (str (pseudo_name (fst kv))), HStr (snd kv))"

definition save_Headers ::
  "'c hpack_encoder \<Rightarrow> 'c \<Rightarrow> frame_base \<Rightarrow> header_block \<Rightarrow> h2_exn + bytes \<times> 'c" where
  "save_Headers enc c b hb =
     andThen (case dict_get (pseudo_headers hb) STATUS of
                None \<Rightarrow> Inr None | Some status \<Rightarrow> status_fast_bytes (HStr status)) (\<lambda>wire.
       let fast_bytes = (case wire of None \<Rightarrow> [] | Some w \<Rightarrow> w);
           pseudo_items = (case wire of None \<Rightarrow> pseudo_headers hb
             | Some _ \<Rightarrow> filter (\<lambda>(k, v). k \<noteq> STATUS) (pseudo_headers hb));
           (block, c') = enc c (map pseudo_item pseudo_items
                                @ map (\<lambda>(k, v). (HBytes k, HBytes v)) (regular_headers hb));
           payload = fast_bytes @ block
       in andThen (save_with (set_len b payload) payload) (\<lambda>bs. Inr (bs, c')))"

fun split_pseudo ::
  "(pseudo_headers, pystr) dict \<Rightarrow> h2_exn + bytes \<times> (pseudo_headers, pystr) dict" where
  "split_pseudo [] = Inr ([], [])"
| "split_pseudo ((k, v) # ps) =
     andThen (pseudo_fast_bytes (HStr (str (pseudo_name k))) (HStr v)) (\<lambda>wire.
     andThen (split_pseudo ps) (\<lambda>(fast, rest).
       Inr (case wire of Some w \<Rightarrow> (w @ fast, rest) | None \<Rightarrow> (fast, (k, v) # rest))))"

definition save_PushPromise ::
  "'c hpack_encoder \<Rightarrow> 'c \<Rightarrow> frame_base \<Rightarrow> nat \<Rightarrow> (pseudo_headers, pystr) dict \<Rightarrow>
   (htext \<times> htext) list \<Rightarrow> h2_exn + bytes \<times> 'c" where
  "save_PushPromise enc c b promised pseudo hdrs =
     andThen (split_pseudo pseudo) (\<lambda>(fast_bytes, remaining_pseudo).
       let (block, c') = enc c (map pseudo_item remaining_pseudo @ hdrs);
           payload = to_be 4 (promised AND 0x7FFFFFFF) @ fast_bytes @ block
       in andThen (save_with ((set_len b payload)\<lparr>fflags := F_END_HEADERS\<rparr>) payload)
            (\<lambda>bs. Inr (bs, c')))"

definition save_GoAway :: "frame_base \<Rightarrow> nat \<Rightarrow> nat \<Rightarrow> bytes \<Rightarrow> h2_exn + bytes" where
  "save_GoAway b last_stream_id error_code append_data =
     andThen (base_save b) (\<lambda>h.
     andThen (int_to_bytes OverflowErr 4 (int last_stream_id)) (\<lambda>l.
     andThen (int_to_bytes OverflowErr 4 (int error_code)) (\<lambda>e.
       Inr (h @ l @ e @ append_data))))"

definition save_Priority :: "frame_base \<Rightarrow> nat \<Rightarrow> nat \<Rightarrow> nat \<Rightarrow> h2_exn + bytes" where
  "save_Priority b exclusion dependent_stream weight =
     andThen (base_save b) (\<lambda>h.
     andThen (int_to_bytes OverflowErr 4 (int (exclusion OR dependent_stream))) (\<lambda>t.
     andThen (int_to_bytes OverflowErr 1 (int weight)) (\<lambda>w. Inr (h @ t @ w))))"

definition save_PriorityUpdate :: "frame_base \<Rightarrow> nat \<Rightarrow> pystr \<Rightarrow> h2_exn + bytes" where
  "save_PriorityUpdate b prioritized_stream_id priority_field =
     andThen (int_to_bytes OverflowErr 4 (int prioritized_stream_id)) (\<lambda>i.
     case utf8_encode priority_field of None \<Rightarrow> Inl UnicodeErr
     | Some v \<Rightarrow> save_with (set_len b (i @ v)) (i @ v))"

definition save_SettingFrame :: "frame_base \<Rightarrow> bytes \<Rightarrow> h2_exn + bytes" where
  "save_SettingFrame b payload = save_with (set_len b payload) payload"

definition save_WindowUpdate :: "frame_base \<Rightarrow> bytes \<Rightarrow> h2_exn + bytes" where
  "save_WindowUpdate b payload = save_with b payload"

definition save_RstStream :: "frame_base \<Rightarrow> nat \<Rightarrow> h2_exn + bytes" where
  "save_RstStream b error_code =
     andThen (base_save b) (\<lambda>h.
     andThen (int_to_bytes OverflowErr 4 (int error_code)) (\<lambda>e. Inr (h @ e)))"

definition save_Data :: "frame_base \<Rightarrow> bytes \<Rightarrow> h2_exn + bytes" where
  "save_Data b payload = save_with (set_len b payload) payload"

definition save_Ping :: "frame_base \<Rightarrow> bytes \<Rightarrow> h2_exn + bytes" where
  "save_Ping b payload = save_with b payload"

definition save_Continuation :: "frame_base \<Rightarrow> bytes \<Rightarrow> h2_exn + bytes" where
  "save_Continuation b payload = save_with b payload"

lemmas save_defs = save_SettingFrame_def save_WindowUpdate_def save_RstStream_def save_Data_def
  save_Ping_def save_Continuation_def

text \<open>The call \<^verbatim>\<open>frame.save()\<close>, dispatched on the class.\<close>

definition save_frame :: "'c hpack_encoder \<Rightarrow> 'c \<Rightarrow> frame \<Rightarrow> h2_exn + bytes \<times> 'c" where
  "save_frame enc c f =
     (let plain = (\<lambda>r. andThen r (\<lambda>bs. Inr (bs, c))) in
      case f of
        SettingFrame b payload attrs \<Rightarrow> plain (save_SettingFrame b payload)
      | WindowUpdate b payload w \<Rightarrow> plain (save_WindowUpdate b payload)
      | Headers b hb \<Rightarrow> save_Headers enc c b hb
      | PushPromise b promised pseudo hdrs \<Rightarrow> save_PushPromise enc c b promised pseudo hdrs
      | GoAway b l e a \<Rightarrow> plain (save_GoAway b l e a)
      | RstStream b e \<Rightarrow> plain (save_RstStream b e)
      | Data b payload \<Rightarrow> plain (save_Data b payload)
      | Priority b ex dep w \<Rightarrow> plain (save_Priority b ex dep w)
      | Ping b payload \<Rightarrow> plain (save_Ping b payload)
      | Continuation b payload \<Rightarrow> plain (save_Continuation b payload)
      | PriorityUpdate b i s \<Rightarrow> plain (save_PriorityUpdate b i s)
      | UnknownFrame _ _ _ _ _ \<Rightarrow> Inl AttributeErr)"

subsection \<open>The factory's helpers\<close>

definition factory_window_update ::
  "'d hpack_decoder \<Rightarrow> 'd \<Rightarrow> nat \<Rightarrow> int \<Rightarrow> h2_exn + frame \<times> 'd" where
  "factory_window_update dec d stream_id increment =
     andThen (int_to_bytes OverflowErr 4 increment) (\<lambda>data.
       create dec d WINDOW_UPDATE F_INIT stream_id data)"

definition factory_rst_stream ::
  "'d hpack_decoder \<Rightarrow> 'd \<Rightarrow> nat \<Rightarrow> error_codes \<Rightarrow> h2_exn + frame \<times> 'd" where
  "factory_rst_stream dec d stream_id error_code =
     andThen (int_to_bytes OverflowErr 4 (int (ec_value error_code))) (\<lambda>data.
       create dec d RST_STREAM F_INIT stream_id data)"

definition factory_goaway ::
  "'d hpack_decoder \<Rightarrow> 'd \<Rightarrow> nat \<Rightarrow> error_codes \<Rightarrow> h2_exn + frame \<times> 'd" where
  "factory_goaway dec d last_stream_id error_code =
     andThen (int_to_bytes OverflowErr 4 (int last_stream_id)) (\<lambda>l.
     andThen (int_to_bytes OverflowErr 4 (int (ec_value error_code))) (\<lambda>e.
       create dec d GOAWAY F_INIT 0 (l @ e)))"

definition opt_setting :: "bytes \<Rightarrow> nat option \<Rightarrow> h2_exn + bytes" where
  "opt_setting identifier v =
     (case v of None \<Rightarrow> Inr []
      | Some n \<Rightarrow> andThen (int_to_bytes OverflowErr 4 (int n)) (\<lambda>b. Inr (identifier @ b)))"

definition factory_settings ::
  "'d hpack_decoder \<Rightarrow> 'd \<Rightarrow> bool \<Rightarrow> bool \<Rightarrow> nat option \<Rightarrow> nat option \<Rightarrow> h2_exn + frame \<times> 'd" where
  "factory_settings dec d ack connect_protocol initial_window max_streams =
     (if ack then create dec d SETTINGS F_ACK 0 []
      else
        andThen (opt_setting [0x00, 0x03] max_streams) (\<lambda>m.
        andThen (opt_setting [0x00, 0x04] initial_window) (\<lambda>i.
          create dec d SETTINGS F_INIT 0
            (m @ (if connect_protocol then [0x00, 0x08, 0x00, 0x00, 0x00, 0x01] else []) @ i))))"

definition factory_push_promise ::
  "'d hpack_decoder \<Rightarrow> 'd \<Rightarrow> nat \<Rightarrow> nat \<Rightarrow> (pseudo_headers, pystr) dict \<Rightarrow>
   (htext \<times> htext) list \<Rightarrow> h2_exn + frame \<times> 'd" where
  "factory_push_promise dec d parent_stream_id promised_stream_id pseudo hdrs =
     andThen (create dec d PUSH_PROMISE F_END_HEADERS parent_stream_id []) (\<lambda>(f, d').
       Inr (case f of PushPromise b _ _ _ \<Rightarrow> PushPromise b promised_stream_id pseudo hdrs
            | _ \<Rightarrow> f, d'))"

subsection \<open>What the wire carries\<close>

lemma and_low31: "n AND 0x7fffffff = n mod 2 ^ 31" for n :: nat
  using take_bit_eq_mask [of 31 n] by (simp add: take_bit_eq_mod mask_eq_exp_minus_1)

lemma dict_get_frame_type [simp]: "dict_get frame_type_by_value (ft_value t) = Some t"
  by (cases t) (simp_all add: frame_type_by_value_def all_frame_types_def)

definition wire :: "frame_types \<Rightarrow> nat \<Rightarrow> nat \<Rightarrow> bytes \<Rightarrow> bytes" where
  "wire t flags stream_id data =
     to_be 3 (length data) @ [ft_value t, word_of_nat flags] @ to_be 4 stream_id @ data"

lemma base_save_ok:
  assumes "flength b < 2 ^ 24" "fflags b < 256" "fstream b < 2 ^ 32"
  shows "base_save b =
    Inr (to_be 3 (flength b) @ [ft_value (ftype b), word_of_nat (fflags b)] @ to_be 4 (fstream b))"
  using assms by (simp add: base_save_def int_to_bytes_ok)

lemma load_wire:
  assumes "length data < 2 ^ 24" "flags < 256" "sid < 2 ^ 32"
  shows "load dec d (wire t flags sid data @ rest) = create dec d t flags (sid mod 2 ^ 31) data"
proof -
  let ?w = "wire t flags sid data @ rest"
  have parts: "take 3 ?w = to_be 3 (length data)" "?w ! 3 = ft_value t"
    "slice ?w 4 5 = [word_of_nat flags]" "slice ?w 5 9 = to_be 4 sid"
    "slice ?w 9 (9 + length data) = data" "\<not> length ?w < 9"
    by (simp_all add: wire_def slice_def nth_append)
  with assms show ?thesis
    unfolding load_def Let_def and_low31 by (simp add: unat_word_of_nat_byte from_be_single)
qed


text \<open>
  The payloads that \<^verbatim>\<open>save\<close> reproduces octet by octet: HEADERS and PUSH_PROMISE go through the
  encoder, a padded DATA frame loses its padding, PRIORITY has a theorem of its own.
\<close>

fun reproducible :: "frame_types \<Rightarrow> nat \<Rightarrow> bytes \<Rightarrow> bool" where
  "reproducible DATA flags data = (\<not> flag_set F_PADDED flags)"
| "reproducible RST_STREAM flags data = (length data = 4)"
| "reproducible SETTINGS flags data = True"
| "reproducible PING flags data = (length data = 8)"
| "reproducible GOAWAY flags data = (8 \<le> length data)"
| "reproducible WINDOW_UPDATE flags data = (data \<noteq> [])"
| "reproducible CONTINUATION flags data = True"
| "reproducible PRIORITY_UPDATE flags data =
     (4 \<le> length data \<and> from_be (take 4 data) < 2 ^ 31 \<and> list_all (\<lambda>b. unat b < 128) (drop 4 data))"
| "reproducible _ flags data = False"

lemma utf8_encode_ascii: "list_all (\<lambda>b. unat b < 128) bs \<Longrightarrow> utf8_encode (ascii_replace bs) = Some bs"
  by (induction bs) (auto simp: ascii_replace_def utf8_char_def)

lemma save_with_ok:
  assumes "flength b < 2 ^ 24" "fflags b < 256" "fstream b < 2 ^ 32" "flength b = length data"
  shows "save_with b data = Inr (wire (ftype b) (fflags b) (fstream b) data)"
  using assms by (simp add: save_with_def base_save_ok wire_def)

lemma from_be_take4_less: "from_be (take 4 data) < 256 ^ 4"
proof -
  have "from_be (take 4 data) < 256 ^ length (take 4 data)" by (rule from_be_less)
  also have "\<dots> \<le> 256 ^ 4" by (rule power_increasing) auto
  finally show ?thesis .
qed

lemma to_be_take4: "4 \<le> length data \<Longrightarrow> to_be 4 (from_be (take 4 data)) = take 4 data"
  by (rule to_be_from_be_len) simp

lemma save_GoAway_ok:
  assumes "8 \<le> length data" "length data < 2 ^ 24" "fl < 256" "sid < 2 ^ 32"
  shows "save_GoAway \<lparr>flength = length data, ftype = GOAWAY, fflags = fl, fstream = sid\<rparr>
           (from_be (take 4 data)) (from_be (take 4 (drop 4 data))) (drop 8 data)
         = Inr (wire GOAWAY fl sid data)"
proof -
  have "take 4 data @ take 4 (drop 4 data) @ drop 8 data = data"
    using append_take_drop_id [of 4 data] append_take_drop_id [of 4 "drop 4 data"] by simp
  then show ?thesis using assms from_be_take4_less [of data] from_be_take4_less [of "drop 4 data"]
    by (simp add: save_GoAway_def base_save_ok int_to_bytes_ok to_be_take4 wire_def)
qed

lemma save_PriorityUpdate_ok:
  assumes "4 \<le> length data" "length data < 2 ^ 24" "fl < 256" "sid < 2 ^ 32"
    and "from_be (take 4 data) < 2 ^ 31" "list_all (\<lambda>b. unat b < 128) (drop 4 data)"
  shows "save_PriorityUpdate \<lparr>flength = length data, ftype = PRIORITY_UPDATE, fflags = fl, fstream = sid\<rparr>
           (from_be (take 4 data) AND 0x7FFFFFFF) (ascii_replace (drop 4 data))
         = Inr (wire PRIORITY_UPDATE fl sid data)"
  using assms
  by (simp add: save_PriorityUpdate_def and_low31 int_to_bytes_ok to_be_take4 utf8_encode_ascii
      save_with_ok)

lemma save_create:
  assumes "reproducible t flags data" "length data < 2 ^ 24" "flags < 256" "sid < 2 ^ 32"
  shows "\<exists>f. create dec d t flags sid data = Inr (f, d)
           \<and> save_frame enc c f = Inr (wire t flags sid data, c)"
proof (cases t)
  case RST_STREAM
  with assms from_be_less [of data] to_be_from_be [of data] show ?thesis
    by (simp add: create_def mk_RstStream_def save_frame_def save_defs base_save_ok int_to_bytes_ok
        wire_def)
qed (use assms in \<open>simp_all add: create_def mk_Data_def mk_SettingFrame_def mk_Ping_def mk_GoAway_def
       mk_WindowUpdate_def mk_PriorityUpdate_def save_frame_def save_defs save_with_ok save_GoAway_ok
       save_PriorityUpdate_ok\<close>)




subsection \<open>SETTINGS\<close>

text \<open>The parameters of a payload the server knows, in the order they come.\<close>

definition known_settings :: "(bytes \<times> bytes) list \<Rightarrow> (setting_attr \<times> nat) list" where
  "known_settings ps =
     List.map_filter (\<lambda>(i, v). map_option (\<lambda>a. (a, from_be v)) (dict_get setting_attrs i)) ps"

lemma read_settings_short [simp]: "length tail < 6 \<Longrightarrow> read_settings tail attrs = attrs"
  by (cases "(tail, attrs)" rule: read_settings.cases) auto

lemma length_2_4E:
  assumes "length i = 2" "length v = 4"
  obtains a b c d e f where "i = [a, b]" "v = [c, d, e, f]"
  using assms by (auto simp: numeral_eq_Suc length_Suc_conv)

lemma read_settings_map:
  assumes "\<forall>(i, v) \<in> set ps. length i = 2 \<and> length v = 4" "length tail < 6"
  shows "dict_get (read_settings (concat (map (\<lambda>(i, v). i @ v) ps) @ tail) attrs) a
       = (case dict_get (rev (known_settings ps)) a of None \<Rightarrow> dict_get attrs a | Some n \<Rightarrow> Some n)"
  using assms(1)
proof (induction ps arbitrary: attrs)
  case Nil
  then show ?case using assms(2) by (simp add: known_settings_def)
next
  case (Cons p ps)
  obtain i v where p: "p = (i, v)" by (cases p)
  with Cons.prems obtain b1 b2 v1 v2 v3 v4 where "i = [b1, b2]" "v = [v1, v2, v3, v4]"
    by (auto elim: length_2_4E)
  then show ?case
    using Cons p
    by (auto simp: known_settings_def apply_setting_def map_filter_simps map_add_def
        split: option.splits)
qed

text \<open>
  A SETTINGS payload is read as RFC 9113 section 6.5 says: six octets per parameter, the last
  value of a known parameter wins, an unknown identifier changes nothing, and a truncated
  parameter at the end is ignored.
\<close>

lemma settings_payload:
  assumes "\<forall>(i, v) \<in> set ps. length i = 2 \<and> length v = 4" "length tail < 6"
  shows "dict_get (read_settings (concat (map (\<lambda>(i, v). i @ v) ps) @ tail) []) a
         = dict_get (rev (known_settings ps)) a"
  by (simp add: read_settings_map [OF assms] option.case_eq_if)

lemma opt_setting_Inr:
  "opt_setting i v = Inr m \<Longrightarrow>
     (case v of None \<Rightarrow> m = [] | Some n \<Rightarrow> n < 2 ^ 32 \<and> m = i @ to_be 4 n)"
  by (auto simp: opt_setting_def andThen_eq_Inr_iff int_to_bytes_Inr_iff split: option.splits)

text \<open>
  The SETTINGS frame the server builds announces what it was asked to announce and nothing
  else: the acknowledgement is empty with the ACK flag, and otherwise the three parameters are
  present exactly when requested, with the requested values.
\<close>

lemma factory_settings_announces:
  assumes "factory_settings dec d ack cp iw ms = Inr (f, d')"
  shows "\<exists>b p attrs. f = SettingFrame b p attrs \<and> d' = d \<and> fstream b = 0
      \<and> flag_set F_ACK (fflags b) = ack \<and> flength b = length p
      \<and> (if ack then p = [] \<and> attrs = []
         else dict_get attrs max_concurrent_streams = ms
            \<and> dict_get attrs initial_window_size = iw
            \<and> dict_get attrs enable_connect_protocol = (if cp then Some 1 else None)
            \<and> (\<forall>a. a \<notin> {max_concurrent_streams, initial_window_size, enable_connect_protocol}
                  \<longrightarrow> dict_get attrs a = None))"
proof (cases ack)
  case True
  with assms show ?thesis
    by (auto simp: factory_settings_def create_def mk_SettingFrame_def flag_set_def flag_defs)
next
  case False
  with assms obtain m i where mi: "opt_setting [0x00, 0x03] ms = Inr m"
      "opt_setting [0x00, 0x04] iw = Inr i"
    and f: "create dec d SETTINGS F_INIT 0
            (m @ (if cp then [0x00, 0x08, 0x00, 0x00, 0x00, 0x01] else []) @ i) = Inr (f, d')"
    by (auto simp: factory_settings_def andThen_eq_Inr_iff)
  let ?ps = "(case ms of None \<Rightarrow> [] | Some n \<Rightarrow> [([0x00, 0x03], to_be 4 n)])
      @ (if cp then [([0x00, 0x08], [0x00, 0x00, 0x00, 0x01])] else [])
      @ (case iw of None \<Rightarrow> [] | Some n \<Rightarrow> [([0x00, 0x04], to_be 4 n)])"
  let ?data = "m @ (if cp then [0x00, 0x08, 0x00, 0x00, 0x00, 0x01] else []) @ i"
  note m = opt_setting_Inr [OF mi(1)] and i = opt_setting_Inr [OF mi(2)]
  have "?data = concat (map (\<lambda>(i, v). i @ v) ?ps) @ []"
    using m i by (auto split: option.splits)
  moreover have "\<forall>(i, v) \<in> set ?ps. length i = 2 \<and> length v = 4"
    by (auto split: option.splits)
  ultimately have "dict_get (read_settings ?data []) a = dict_get (rev (known_settings ?ps)) a" for a
    using read_settings_map [of ?ps "[]" "[]" a] by (simp only:) (simp add: option.case_eq_if)
  then show ?thesis using f False m i
    by (auto simp: create_def mk_SettingFrame_def flag_set_def flag_defs known_settings_def
        map_filter_simps setting_attrs_def from_be_def [of "[_, _, _, _]"] split: option.splits)
qed

subsection \<open>Which header blocks are accepted\<close>

definition is_pseudo :: "bytes \<times> bytes \<Rightarrow> bool" where
  "is_pseudo kv \<longleftrightarrow> take 1 (fst kv) = [0x3A]"

definition octets_ok :: "bytes \<times> bytes \<Rightarrow> bool" where
  "octets_ok kv \<longleftrightarrow> field_name_is_valid (fst kv) \<and> field_value_is_valid (snd kv)"

definition pseudo_ok :: "bytes \<times> bytes \<Rightarrow> bool" where
  "pseudo_ok kv \<longleftrightarrow> octets_ok kv \<and> dict_get pseudo_by_bytes (fst kv) \<noteq> None"

definition regular_ok :: "bytes \<times> bytes \<Rightarrow> bool" where
  "regular_ok kv \<longleftrightarrow> octets_ok kv \<and> \<not> is_pseudo kv \<and> fst kv \<notin> set hop_by_hop_headers
     \<and> (fst kv = octets ''te'' \<longrightarrow> snd kv = octets ''trailers'')"

text \<open>
  RFC 9113 sections 8.2 and 8.3: known pseudo-header fields first, each at most once, then
  regular fields, none of them connection-specific, every octet permitted.
\<close>

definition well_formed_fields :: "fields \<Rightarrow> bool" where
  "well_formed_fields fs \<longleftrightarrow>
     list_all pseudo_ok (takeWhile is_pseudo fs)
     \<and> distinct (map fst (takeWhile is_pseudo fs))
     \<and> list_all regular_ok (dropWhile is_pseudo fs)"

lemma malformed_mark [simp]: "malformed (mark_malformed r hb) = Some r"
  by (simp add: mark_malformed_def)

lemma parse_fields_regular:
  "malformed hb = None \<Longrightarrow>
   \<exists>hb'. parse_fields True fs hb = Inr hb' \<and> (malformed hb' = None \<longleftrightarrow> list_all regular_ok fs)
     \<and> (list_all regular_ok fs \<longrightarrow> hb' = hb\<lparr>regular_headers := regular_headers hb @ fs\<rparr>)"
proof (induction fs arbitrary: hb)
  case Nil
  then show ?case by simp
next
  case (Cons kv fs)
  obtain k v where kv: "kv = (k, v)" by (cases kv)
  show ?case
  proof (cases "regular_ok kv")
    case True
    then have "parse_fields True (kv # fs) hb
        = parse_fields True fs (hb\<lparr>regular_headers := regular_headers hb @ [(k, v)]\<rparr>)"
      by (auto simp: kv regular_ok_def octets_ok_def is_pseudo_def simp del: octets_Cons)
    then show ?thesis
      using Cons.IH [of "hb\<lparr>regular_headers := regular_headers hb @ [(k, v)]\<rparr>"] Cons.prems True
      by (simp add: kv)
  next
    case False
    then have "\<exists>r. parse_fields True (kv # fs) hb = Inr (mark_malformed r hb)"
      by (simp add: kv regular_ok_def octets_ok_def is_pseudo_def del: octets_Cons) blast
    then show ?thesis using False by auto
  qed
qed

lemma pseudo_by_bytes_inj:
  assumes "dict_get pseudo_by_bytes k = Some p" "dict_get pseudo_by_bytes k' = Some p"
  shows "k = k'"
proof -
  have "k = octets (pseudo_name p)" if "dict_get pseudo_by_bytes k = Some p" for k
    using map_of_SomeD [OF that] by (auto simp: pseudo_by_bytes_def)
  with assms show ?thesis by blast
qed

text \<open>The pseudo-header dictionary a list of fields adds to \<open>d\<close>.\<close>

definition stores :: "fields \<Rightarrow> (pseudo_headers, pystr) dict \<Rightarrow> (pseudo_headers, pystr) dict \<Rightarrow> bool" where
  "stores ps d d' \<longleftrightarrow>
     (\<forall>p. dict_get d' p =
       (case find (\<lambda>(k, v). dict_get pseudo_by_bytes k = Some p) ps of
          None \<Rightarrow> dict_get d p | Some (k, v) \<Rightarrow> utf8_decode v))"

definition fresh_in :: "(pseudo_headers, pystr) dict \<Rightarrow> bytes \<times> bytes \<Rightarrow> bool" where
  "fresh_in d kv \<longleftrightarrow> (\<forall>p. dict_get pseudo_by_bytes (fst kv) = Some p \<longrightarrow> dict_get d p = None)"

lemma fresh_in_set:
  assumes "dict_get pseudo_by_bytes k = Some p" "pseudo_ok kv"
  shows "fresh_in (dict_set p s d) kv \<longleftrightarrow> fresh_in d kv \<and> fst kv \<noteq> k"
proof -
  from assms(2) obtain q where q: "dict_get pseudo_by_bytes (fst kv) = Some q"
    by (auto simp: pseudo_ok_def)
  with assms(1) have "q = p \<longleftrightarrow> fst kv = k"
    using pseudo_by_bytes_inj [OF assms(1), of "fst kv"] by auto
  with q show ?thesis by (simp add: fresh_in_def)
qed

lemma stores_Cons:
  assumes "dict_get pseudo_by_bytes k = Some p" "utf8_decode v = Some s"
    and "stores ps (dict_set p s d) d'" "\<forall>kv \<in> set ps. fst kv \<noteq> k"
  shows "stores ((k, v) # ps) d d'"
proof -
  have "find (\<lambda>(k, v). dict_get pseudo_by_bytes k = Some p) ps = None"
    using assms(4) pseudo_by_bytes_inj [OF assms(1)] by (force simp: find_None_iff)
  with assms show ?thesis by (auto simp: stores_def split: option.splits)
qed

lemma list_all_fresh_set:
  assumes "dict_get pseudo_by_bytes k = Some p" "list_all pseudo_ok ps"
  shows "list_all (fresh_in (dict_set p s d)) ps
     \<longleftrightarrow> list_all (fresh_in d) ps \<and> (\<forall>kv \<in> set ps. fst kv \<noteq> k)"
  using assms by (auto simp: list_all_iff fresh_in_set)


lemma accept_pseudo:
  assumes "dict_get pseudo_by_bytes k = Some p" "pseudo_ok (k, v)" "is_pseudo (k, v)"
    and "fresh_in d (k, v)"
  shows "well_formed_fields ((k, v) # fs) \<and> list_all (fresh_in d) (takeWhile is_pseudo ((k, v) # fs))
     \<longleftrightarrow> well_formed_fields fs \<and> list_all (fresh_in (dict_set p s d)) (takeWhile is_pseudo fs)"
  using assms list_all_fresh_set [OF assms(1), of "takeWhile is_pseudo fs" s d]
  by (auto simp: well_formed_fields_def)

lemma accept_stores:
  assumes "dict_get pseudo_by_bytes k = Some p" "is_pseudo (k, v)" "utf8_decode v = Some s"
    and "well_formed_fields ((k, v) # fs)"
    and "stores (takeWhile is_pseudo fs) (dict_set p s d) d'"
  shows "stores (takeWhile is_pseudo ((k, v) # fs)) d d'"
proof -
  have "\<forall>kv \<in> set (takeWhile is_pseudo fs). fst kv \<noteq> k"
    using assms(2,4) by (auto simp: well_formed_fields_def)
  with stores_Cons [OF assms(1,3,5)] assms(2) show ?thesis by simp
qed

lemma parse_fields_accept:
  assumes "dict_get pseudo_by_bytes k = Some p" "pseudo_ok (k, v)" "is_pseudo (k, v)"
    and "fresh_in (pseudo_headers hb) (k, v)" "utf8_decode v = Some s"
  shows "parse_fields False ((k, v) # fs) hb
       = parse_fields False fs (hb\<lparr>pseudo_headers := dict_set p s (pseudo_headers hb)\<rparr>)"
  using assms by (simp add: pseudo_ok_def octets_ok_def is_pseudo_def fresh_in_def del: octets_Cons)

lemma parse_fields_reject:
  assumes "is_pseudo (k, v)" "\<not> (pseudo_ok (k, v) \<and> fresh_in (pseudo_headers hb) (k, v))"
  shows "\<exists>r. parse_fields False ((k, v) # fs) hb = Inr (mark_malformed r hb)"
  using assms by (auto simp: pseudo_ok_def octets_ok_def is_pseudo_def fresh_in_def
      simp del: octets_Cons split: option.splits)

lemma parse_fields_pseudo:
  assumes "malformed hb = None" "\<forall>kv \<in> set fs. is_pseudo kv \<longrightarrow> utf8_decode (snd kv) \<noteq> None"
  shows "\<exists>hb'. parse_fields False fs hb = Inr hb'
     \<and> (malformed hb' = None \<longleftrightarrow>
          well_formed_fields fs \<and> list_all (fresh_in (pseudo_headers hb)) (takeWhile is_pseudo fs))
     \<and> (malformed hb' = None \<longrightarrow>
          regular_headers hb' = regular_headers hb @ dropWhile is_pseudo fs
          \<and> stores (takeWhile is_pseudo fs) (pseudo_headers hb) (pseudo_headers hb'))"
  using assms
proof (induction fs arbitrary: hb)
  case Nil
  then show ?case by (simp add: well_formed_fields_def stores_def)
next
  case (Cons kv fs)
  obtain k v where kv: "kv = (k, v)" by (cases kv)
  consider (regular) "\<not> is_pseudo kv"
    | (reject) "is_pseudo kv" "\<not> (pseudo_ok kv \<and> fresh_in (pseudo_headers hb) kv)"
    | (accept) "is_pseudo kv" "pseudo_ok kv" "fresh_in (pseudo_headers hb) kv" by blast
  then show ?case
  proof cases
    case regular
    then have "parse_fields False (kv # fs) hb = parse_fields True (kv # fs) hb"
      by (simp add: kv is_pseudo_def del: octets_Cons)
    with regular parse_fields_regular [OF Cons.prems(1), of "kv # fs"] show ?thesis
      by (auto simp: well_formed_fields_def stores_def)
  next
    case reject
    then show ?thesis using parse_fields_reject [of k v hb fs]
      by (auto simp: kv well_formed_fields_def)
  next
    case accept
    then obtain p where p: "dict_get pseudo_by_bytes k = Some p" by (auto simp: kv pseudo_ok_def)
    from accept Cons.prems obtain s where s: "utf8_decode v = Some s" by (auto simp: kv)
    let ?hb = "hb\<lparr>pseudo_headers := dict_set p s (pseudo_headers hb)\<rparr>"
    have "malformed ?hb = None" "\<forall>kv \<in> set fs. is_pseudo kv \<longrightarrow> utf8_decode (snd kv) \<noteq> None"
      using Cons.prems by simp_all
    from Cons.IH [OF this] accept show ?thesis
      using parse_fields_accept [OF p _ _ _ s, of hb fs] accept_pseudo [OF p, of v _ fs s]
        accept_stores [OF p _ s, of fs]
      by (fastforce simp: kv)
  qed
qed

lemma parse_fields_sound:
  assumes "parse_fields seen fs hb = Inr hb'" "malformed hb' = None"
  shows "set (regular_headers hb') \<subseteq> set (regular_headers hb) \<union> {kv. regular_ok kv}"
  using assms
proof (induction seen fs hb rule: parse_fields.induct)
  case (1 seen hb)
  then show ?case by simp
next
  case (2 seen k v fs hb)
  then show ?case
    by (fastforce simp: regular_ok_def octets_ok_def is_pseudo_def simp del: octets_Cons
        split: if_splits option.splits)
qed



text \<open>
  C28. No header injection: every regular field of an accepted block has a non-empty lower-case
  visible-ASCII name without a colon, a value without NUL, LF or CR, and is not one of the
  connection-specific fields that desynchronise message framing.
\<close>

theorem header_block_no_injection:
  assumes "parse_fields False fs (empty_block\<lparr>raw_block := raw\<rparr>) = Inr hb" "malformed hb = None"
    and "(k, v) \<in> set (regular_headers hb)"
  shows "k \<noteq> [] \<and> (\<forall>b \<in> set k. 0x20 < b \<and> b < 0x7F \<and> b \<noteq> 0x3A \<and> (b < 0x41 \<or> 0x5A < b))
     \<and> 0x00 \<notin> set v \<and> 0x0A \<notin> set v \<and> 0x0D \<notin> set v
     \<and> k \<notin> {octets ''connection'', octets ''keep-alive'', octets ''proxy-connection'',
             octets ''transfer-encoding'', octets ''upgrade''}"
proof -
  from parse_fields_sound [OF assms(1,2)] assms(3) have "regular_ok (k, v)"
    by (auto simp: empty_block_def)
  then show ?thesis
    by (auto simp: regular_ok_def octets_ok_def is_pseudo_def field_name_is_valid_def
        field_value_is_valid_def field_name_octet_ok_def hop_by_hop_headers_def list_all_iff
        not_le simp del: octets_Cons split: list.splits if_splits)
qed

theorem header_block_no_injection_witness:
  "\<exists>hb. parse_fields False [(octets ''a'', octets ''b'')] (empty_block\<lparr>raw_block := []\<rparr>) = Inr hb
     \<and> (octets ''a'', octets ''b'') \<in> set (regular_headers hb)
     \<and> (\<forall>b \<in> set (octets ''a''). 0x20 < b \<and> b < 0x7F \<and> b \<noteq> 0x3A \<and> (b < 0x41 \<or> 0x5A < b))"
proof -
  let ?hb = "empty_block\<lparr>raw_block := [], regular_headers := [(octets ''a'', octets ''b'')]\<rparr>"
  have 1: "parse_fields False [(octets ''a'', octets ''b'')] (empty_block\<lparr>raw_block := []\<rparr>) = Inr ?hb"
    by (simp add: field_name_is_valid_def field_name_octet_ok_def field_value_is_valid_def
        hop_by_hop_headers_def empty_block_def)
  have 2: "malformed ?hb = None" "(octets ''a'', octets ''b'') \<in> set (regular_headers ?hb)"
    by (simp_all add: empty_block_def)
  from header_block_no_injection [OF 1 2] 1 2 show ?thesis by blast
qed

subsection \<open>Padding and priority in a HEADERS payload\<close>

lemma bio_read_append: "bio_read (int (length xs)) (xs @ ys) = (xs, ys)"
  by (simp add: bio_read_def)

lemma read_priority_append:
  "length dep = 4 \<Longrightarrow> read_priority (dep @ w # rest) = (from_be dep mod 2 ^ 31, unat w, rest)"
  using bio_read_append [of dep "w # rest"] bio_read_append [of "[w]" rest]
  by (simp add: read_priority_def and_low31)

text \<open>
  The pad length, the priority fields and the padding never reach the HPACK decoder: from a
  payload laid out as RFC 9113 section 6.2 says, with whichever of the two flags, exactly the
  header block fragment is decoded, and dependency and weight are stored.
\<close>

lemma headers_payload_layout:
  assumes "raw_block hb = (if flag_set F_PADDED fl then [word_of_nat (length padding)] else [])
      @ (if flag_set F_PRIORITY fl then dep @ [w] else []) @ block
      @ (if flag_set F_PADDED fl then padding else [])"
    and "length dep = 4" "length padding < 256"
    and "flag_set F_PRIORITY fl \<longrightarrow> from_be dep mod 2 ^ 31 \<noteq> sid"
    and "base = \<lparr>flength = length (raw_block hb), ftype = HEADERS, fflags = fl, fstream = sid\<rparr>"
  shows "parse_payload dec d base hb =
    decode_block dec d block
      (if flag_set F_PRIORITY fl
       then hb\<lparr>stream_dependency := from_be dep mod 2 ^ 31, priority_weight := unat w\<rparr> else hb)"
proof -
  have pad: "bio_read 1 (x # xs) = ([x], xs)" for x xs
    by (simp add: bio_read_def)
  have rd: "fst (bio_read (int (length block)) (block @ rest)) = block" for rest
    by (simp add: bio_read_append)
  have u: "unat (word_of_nat (length padding) :: byte) = length padding"
    using assms(3) by (simp add: unat_word_of_nat_byte)
  show ?thesis
    using assms(2-) rd [of "[]"] rd [of padding]
    by (auto simp: parse_payload_def assms(1) pad u read_priority_append Let_def)
qed

text \<open>
  A padded HEADERS frame with priority fields whose pad length leaves no room for them (the
  pad length and the six fixed octets exceed the payload) is not rejected: the remaining length
  is negative, \<^verbatim>\<open>BytesIO.read\<close> then returns everything, and the padding is decoded as header
  block. RFC 9113 section 6.2 makes this a connection error.
\<close>

lemma headers_padding_overlap_decoded:
  assumes "raw_block hb = pad # dep @ w # rest" "length dep = 4"
    and "flag_set F_PADDED (fflags base)" "flag_set F_PRIORITY (fflags base)"
    and "flength base = length (raw_block hb)" "unat pad < flength base"
    and "unat pad > length rest" "from_be dep mod 2 ^ 31 \<noteq> fstream base"
  shows "parse_payload dec d base hb = decode_block dec d rest
           (hb\<lparr>stream_dependency := from_be dep mod 2 ^ 31, priority_weight := unat w\<rparr>)"
proof -
  have "int (length rest) < int (unat pad)" using assms(7) by (simp only: of_nat_less_iff)
  with assms show ?thesis
    by (simp add: parse_payload_def bio_read_def read_priority_append Let_def)
qed

lemma join_high_low:
  fixes t :: nat
  assumes "t < 2 ^ 32"
  shows "(0x80000000 AND t) OR (t AND 0x7fffffff) = t"
proof -
  have "(0x80000000 AND t) OR (t AND 0x7fffffff) = t AND (0x80000000 OR 0x7fffffff)"
    by (rule bit_eqI) (simp only: bit_and_iff bit_or_iff; blast)
  also have "\<dots> = t AND mask 32"
    by (simp add: mask_eq_exp_minus_1)
  also have "\<dots> = take_bit 32 t"
    by (simp add: take_bit_eq_mask)
  also have "\<dots> = t"
    using assms by (simp add: take_bit_eq_mod)
  finally show ?thesis .
qed

text \<open>
  \<^verbatim>\<open>Priority.save\<close> writes the weight itself where the constructor reads weight minus one: a
  PRIORITY frame loaded and saved again comes out with its weight raised by one, and a frame of
  the maximal weight 256 cannot be saved at all.
\<close>

lemma priority_save_shifts_weight:
  assumes "length dep = 4" "flags < 256" "sid < 2 ^ 31"
  shows "\<exists>f. load dec d (wire PRIORITY flags sid (dep @ [w])) = Inr (f, d)
     \<and> save_frame enc c f =
         (if unat w = 255 then Inl OverflowErr
          else Inr (wire PRIORITY flags sid (dep @ [w + 1]), c))"
proof -
  have t: "(0x80000000 AND t) OR (t AND 0x7fffffff) = t" if "t < 2 ^ 32" for t :: nat
    using that join_high_low by simp
  have dep: "from_be dep < 2 ^ 32" "to_be 4 (from_be dep) = dep"
    using from_be_less [of dep] to_be_from_be [of dep] assms(1) by simp_all
  have "int_to_bytes OverflowErr 1 (int (n + 1))
      = (if n = 255 then Inl OverflowErr else Inr [word_of_nat (n + 1)])" if "n < 256" for n
    using that by (auto simp: int_to_bytes_def nat_add_distrib add.commute)
  from this [of "unat w"] have w: "int_to_bytes OverflowErr 1 (int (unat w + 1))
      = (if unat w = 255 then Inl OverflowErr else Inr [w + 1])"
    by (simp del: of_nat_add add: of_nat_add [where 'a = byte])
  let ?b = "\<lparr>flength = 5, ftype = PRIORITY, fflags = flags, fstream = sid\<rparr>"
  let ?f = "Priority ?b (0x80000000 AND from_be dep) (from_be dep AND 0x7fffffff) (unat w + 1)"
  have "load dec d (wire PRIORITY flags sid (dep @ [w])) = Inr (?f, d)"
    using assms load_wire [of "dep @ [w]" flags sid dec d PRIORITY "[]"]
    by (simp add: create_def mk_Priority_def Let_def)
  moreover have "save_frame enc c ?f = (if unat w = 255 then Inl OverflowErr
      else Inr (wire PRIORITY flags sid (dep @ [w + 1]), c))"
    unfolding save_frame_def Let_def frame.case save_Priority_def t [OF dep(1)] w
    using assms dep by (simp add: base_save_ok int_to_bytes_ok wire_def)
  ultimately show ?thesis by blast
qed

end
