(* ===== verification/Rate_Window.thy ===== *)
theory Rate_Window
  imports Prelude
begin

text \<open>
  \<^verbatim>\<open>RateWindow\<close> of \<^verbatim>\<open>src/blackbull/server/rate_window.py\<close>, the fixed-window counter that bounds
  cheap frames (PING, SETTINGS, RST_STREAM, empty CONTINUATION and DATA). The clock is an
  argument of \<open>hit\<close>. The locale \<open>meter\<close> states what the frame loop relies on and derives
  the two facts that matter: no alarm without a real burst, and no burst beyond twice the limit
  without an alarm.
\<close>

record rate_window =
  limit :: int
  window :: real
  count :: int
  started_at :: real

definition new_rate_window :: "int \<Rightarrow> real \<Rightarrow> rate_window" where
  "new_rate_window bnd w = \<lparr>limit = bnd, window = w, count = 0, started_at = 0\<rparr>"

definition hit :: "real \<Rightarrow> rate_window \<Rightarrow> bool \<times> rate_window" where
  "hit now m =
     (if limit m = 0 then (False, m)
      else
        let m = (if now - started_at m > window m then m\<lparr>count := 0, started_at := now\<rparr> else m);
            m = m\<lparr>count := count m + 1\<rparr>
        in (count m > limit m, m))"

definition reset_window :: "rate_window \<Rightarrow> rate_window" where
  "reset_window m = m\<lparr>count := 0, started_at := 0\<rparr>"

subsection \<open>The interface and what follows from it\<close>

text \<open>The state after events at the given times, and whether none of them raised an alarm.\<close>

fun after :: "(real \<Rightarrow> 's \<Rightarrow> bool \<times> 's) \<Rightarrow> 's \<Rightarrow> real list \<Rightarrow> 's" where
  "after h s [] = s"
| "after h s (t # ts) = after h (snd (h t s)) ts"

fun quiet :: "(real \<Rightarrow> 's \<Rightarrow> bool \<times> 's) \<Rightarrow> 's \<Rightarrow> real list \<Rightarrow> bool" where
  "quiet h s [] = True"
| "quiet h s (t # ts) = (\<not> fst (h t s) \<and> quiet h (snd (h t s)) ts)"

locale meter =
  fixes hit :: "real \<Rightarrow> 's \<Rightarrow> bool \<times> 's"
    and bnd :: "'s \<Rightarrow> int" and win :: "'s \<Rightarrow> real"
    and cnt :: "'s \<Rightarrow> int" and opened :: "'s \<Rightarrow> real"
  assumes params: "bnd (snd (hit now s)) = bnd s" "win (snd (hit now s)) = win s"
    and roll: "bnd s \<noteq> 0 \<Longrightarrow> now - opened s > win s \<Longrightarrow>
      cnt (snd (hit now s)) = 1 \<and> opened (snd (hit now s)) = now"
    and same: "bnd s \<noteq> 0 \<Longrightarrow> \<not> now - opened s > win s \<Longrightarrow>
      cnt (snd (hit now s)) = cnt s + 1 \<and> opened (snd (hit now s)) = opened s"
    and alarm: "bnd s \<noteq> 0 \<Longrightarrow> fst (hit now s) \<longleftrightarrow> cnt (snd (hit now s)) > bnd s"
begin

lemma after_params: "bnd (after hit s ts) = bnd s \<and> win (after hit s ts) = win s"
  by (induction ts arbitrary: s) (auto simp: params)

lemma quiet_append: "quiet hit s (xs @ ys) \<longleftrightarrow> quiet hit s xs \<and> quiet hit (after hit s xs) ys"
  by (induction xs arbitrary: s) auto

lemma quiet_cnt: "bnd s \<noteq> 0 \<Longrightarrow> quiet hit s ts \<Longrightarrow> cnt s \<le> bnd s \<Longrightarrow> cnt (after hit s ts) \<le> bnd s"
proof (induction ts arbitrary: s)
  case Nil
  then show ?case by simp
next
  case (Cons t ts)
  then show ?case using Cons.IH [of "snd (hit t s)"] alarm [of s t] by (simp add: params)
qed

lemma quiet_inside:
  assumes "bnd s \<noteq> 0" "quiet hit s ts" "sorted ts" "cnt s \<le> bnd s" "b \<le> opened s + win s"
  shows "cnt s + int (length (filter (\<lambda>t. t \<le> b) ts)) \<le> bnd s"
  using assms
proof (induction ts arbitrary: s)
  case Nil
  then show ?case by simp
next
  case (Cons t ts)
  show ?case
  proof (cases "t \<le> b")
    case True
    with Cons.prems have "cnt (snd (hit t s)) = cnt s + 1 \<and> opened (snd (hit t s)) = opened s"
      by (intro same) auto
    with True Cons.prems Cons.IH [of "snd (hit t s)"] alarm [of s t] show ?thesis
      by (simp add: params)
  next
    case False
    with Cons.prems have "filter (\<lambda>t. t \<le> b) ts = []"
      by (auto simp: filter_empty_conv)
    with False Cons.prems show ?thesis by simp
  qed
qed

lemma quiet_from:
  assumes "bnd s \<noteq> 0" "quiet hit s ts" "sorted ts" "cnt s \<le> bnd s" "0 \<le> bnd s" "\<forall>t \<in> set ts. a \<le> t"
  shows "cnt s + int (length (filter (\<lambda>t. t \<le> a + win s) ts)) \<le> 2 * bnd s"
  using assms
proof (induction ts arbitrary: s)
  case Nil
  then show ?case by simp
next
  case (Cons t ts)
  let ?s = "snd (hit t s)"
  have s: "bnd ?s \<noteq> 0" "quiet hit ?s ts" "cnt ?s \<le> bnd ?s" "sorted ts"
    using Cons.prems alarm [of s t] by (auto simp: params)
  show ?case
  proof (cases "t - opened s > win s")
    case True
    then have "cnt ?s = 1" "opened ?s = t" using roll Cons.prems(1) by auto
    with quiet_inside [OF s(1,2,4,3), of "a + win s"] Cons.prems show ?thesis
      by (auto simp: params)
  next
    case False
    then have "cnt ?s = cnt s + 1" using same Cons.prems(1) by auto
    with Cons.IH [OF s(1,2,4,3)] Cons.prems show ?thesis by (auto simp: params)
  qed
qed

lemma length_filter_mono:
  "(\<And>x. P x \<Longrightarrow> Q x) \<Longrightarrow> length (filter P xs) \<le> length (filter Q xs)" for xs :: "real list"
  by (induction xs) (auto intro: le_SucI)

lemma filter_ge_sorted: "sorted ts \<Longrightarrow> \<exists>xs. ts = xs @ filter (\<lambda>t. a \<le> t) ts" for a :: real
proof (induction ts)
  case Nil
  then show ?case by simp
next
  case (Cons t ts)
  then obtain xs where xs: "ts = xs @ filter (\<lambda>t. a \<le> t) ts" by auto
  show ?case
  proof (cases "a \<le> t")
    case True
    with Cons.prems have "filter (\<lambda>t. a \<le> t) ts = ts" by (auto simp: filter_id_conv)
    with True show ?thesis by simp
  next
    case False
    with xs show ?thesis by (intro exI [of _ "t # xs"]) simp
  qed
qed

lemma cnt_nonneg: "bnd s \<noteq> 0 \<Longrightarrow> 0 \<le> cnt s \<Longrightarrow> 0 \<le> cnt (after hit s ts)"
proof (induction ts arbitrary: s)
  case Nil
  then show ?case by simp
next
  case (Cons t ts)
  then have "0 \<le> cnt (snd (hit t s))"
    using roll [of s t] same [of s t] by (cases "t - opened s > win s") auto
  with Cons show ?case by (simp add: params)
qed

lemma burst_bound:
  assumes "0 < bnd s" "0 \<le> cnt s" "cnt s \<le> bnd s" "quiet hit s ts" "sorted ts"
  shows "int (length (filter (\<lambda>t. a \<le> t \<and> t \<le> a + win s) ts)) \<le> 2 * bnd s"
proof -
  let ?ys = "filter (\<lambda>t. a \<le> t) ts"
  from filter_ge_sorted [OF assms(5)] obtain xs where xs: "ts = xs @ ?ys" by blast
  with assms(4) have "quiet hit (after hit s xs) ?ys" by (metis quiet_append)
  moreover have "quiet hit s xs" using assms(4) xs by (metis quiet_append)
  then have cnt: "cnt (after hit s xs) \<le> bnd s" "0 \<le> cnt (after hit s xs)"
    using quiet_cnt [of s xs] cnt_nonneg [of s xs] assms by auto
  moreover have "sorted ?ys" using assms(5) by (rule sorted_wrt_filter)
  ultimately have "cnt (after hit s xs) + int (length (filter (\<lambda>t. t \<le> a + win (after hit s xs)) ?ys))
      \<le> 2 * bnd (after hit s xs)"
    using assms(1) by (intro quiet_from) (simp_all add: after_params)
  with cnt(2) show ?thesis by (simp add: after_params conj_commute)
qed

lemma cnt_history:
  assumes "bnd s \<noteq> 0" "0 \<le> win s" "sorted (hist @ ts)" "cnt s \<le> int (length (filter (\<lambda>t. opened s \<le> t) hist))"
    and "\<forall>t \<in> set ts. opened s \<le> t"
  shows "cnt (after hit s ts) \<le> int (length (filter (\<lambda>t. opened (after hit s ts) \<le> t) (hist @ ts)))
    \<and> (ts \<noteq> [] \<longrightarrow> last ts - opened (after hit s ts) \<le> win s)"
  using assms
proof (induction ts arbitrary: s hist)
  case Nil
  then show ?case by simp
next
  case (Cons t ts)
  let ?s = "snd (hit t s)"
  have "cnt ?s \<le> int (length (filter (\<lambda>u. opened ?s \<le> u) (hist @ [t])))
      \<and> (\<forall>u \<in> set ts. opened ?s \<le> u) \<and> t - opened ?s \<le> win s"
    using roll [of s t] same [of s t] Cons.prems
    by (cases "t - opened s > win s") (auto simp: sorted_append)
  with Cons.IH [of ?s "hist @ [t]"] Cons.prems show ?case by (auto simp: params)
qed

lemma alarm_burst:
  assumes "bnd s \<noteq> 0" "0 \<le> win s" "cnt s = 0" "sorted (ts @ [now])" "\<forall>t \<in> set (ts @ [now]). opened s \<le> t"
    and "fst (hit now (after hit s ts))"
  shows "bnd s < int (length (filter (\<lambda>t. now - win s \<le> t) (ts @ [now])))"
proof -
  let ?s = "after hit s (ts @ [now])"
  have snoc: "after hit s (ts @ [now]) = snd (hit now (after hit s ts))" for s
    by (induction ts arbitrary: s) auto
  have "cnt ?s \<le> int (length (filter (\<lambda>t. opened ?s \<le> t) (ts @ [now])))" "now - opened ?s \<le> win s"
    using cnt_history [of s "[]" "ts @ [now]"] assms by auto
  moreover have "bnd s < cnt ?s"
    using alarm [of "after hit s ts" now] assms by (simp add: snoc after_params)
  moreover have "length (filter (\<lambda>t. opened ?s \<le> t) (ts @ [now]))
      \<le> length (filter (\<lambda>t. now - win s \<le> t) (ts @ [now]))" if "now - opened ?s \<le> win s"
    using that by (intro length_filter_mono) auto
  ultimately show ?thesis by linarith
qed

end

interpretation rw: meter hit limit window count started_at
  by unfold_locales (auto simp: hit_def Let_def)

text \<open>
  No false alarm: when a fresh meter reports an overrun on a clock that does not run
  backwards, more than \<open>limit\<close> events, the current one included, happened within the last
  \<open>window\<close> seconds.
\<close>

lemma rate_window_no_false_alarm:
  assumes "bnd \<noteq> 0" "0 \<le> w" "sorted (ts @ [now])" "\<forall>t \<in> set (ts @ [now]). 0 \<le> t"
    and "fst (hit now (after hit (new_rate_window bnd w) ts))"
  shows "bnd < int (length (filter (\<lambda>t. now - w \<le> t) (ts @ [now])))"
  using rw.alarm_burst [of "new_rate_window bnd w" ts now] assms by (simp add: new_rate_window_def)

text \<open>
  A flood is always noticed: while the meter stays silent, no interval of \<open>window\<close> seconds
  ever holds more than twice \<open>limit\<close> events.
\<close>

lemma rate_window_flood_bound:
  assumes "0 < bnd" "quiet hit (new_rate_window bnd w) ts" "sorted ts"
  shows "int (length (filter (\<lambda>t. a \<le> t \<and> t \<le> a + w) ts)) \<le> 2 * bnd"
  using rw.burst_bound [of "new_rate_window bnd w" ts a] assms by (simp add: new_rate_window_def)

end
