(* ===== verification/H2_Stream.thy ===== *)
theory H2_Stream
  imports H2_Frame
begin

text \<open>
  \<^verbatim>\<open>StreamState\<close> and the \<^verbatim>\<open>Stream\<close> tree of \<^verbatim>\<open>src/blackbull/protocol/stream.py\<close>. A node carries its
  own data and its children in insertion order; the back pointer \<^verbatim>\<open>parent\<close> is the node's place in
  the tree. The server only ever adds children to the root (\<^verbatim>\<open>HTTP2Actor\<close> and
  \<^verbatim>\<open>PriorityUpdateResponder\<close>), so its trees stay flat, and on a flat tree the searches below are
  plain dictionary operations; the connection model relies on exactly this.
\<close>

datatype stream_state = IDLE | OPEN | HALF_CLOSED_LOCAL | HALF_CLOSED_REMOTE | CLOSED

text \<open>
  The attributes of a \<^verbatim>\<open>Stream\<close>. \<open>'q\<close> is the type of the dispatch target \<^verbatim>\<open>conn\<close>; a priority hint
  is urgency and incremental.
\<close>

record 'q stream =
  stream_id :: nat
  weight :: nat
  conn :: "'q option"
  state :: stream_state
  priority_hint :: "(int \<times> bool) option"
  expected_content_length :: "int option"
  received_data_bytes :: nat

definition new_stream :: "nat \<Rightarrow> 'q stream" where
  "new_stream sid =
     \<lparr>stream_id = sid, weight = 1, conn = None, state = IDLE, priority_hint = None,
      expected_content_length = None, received_data_bytes = 0\<rparr>"

definition on_headers_received :: "bool \<Rightarrow> 'q stream \<Rightarrow> 'q stream" where
  "on_headers_received end_stream s =
     s\<lparr>state := (if end_stream then HALF_CLOSED_REMOTE else OPEN)\<rparr>"

definition on_data_received :: "bool \<Rightarrow> 'q stream \<Rightarrow> 'q stream" where
  "on_data_received end_stream s = (if end_stream then s\<lparr>state := HALF_CLOSED_REMOTE\<rparr> else s)"

datatype 'q stree = Node "'q stream" "(nat \<times> 'q stree) list"

fun node_data :: "'q stree \<Rightarrow> 'q stream" where
  "node_data (Node s cs) = s"

fun children :: "'q stree \<Rightarrow> (nat, 'q stree) dict" where
  "children (Node s cs) = cs"

text \<open>
  \<^verbatim>\<open>find_child\<close>: the node itself, then its direct children, then the subtrees of those children
  that have children of their own, in order.
\<close>

fun find_child :: "nat \<Rightarrow> 'q stree \<Rightarrow> 'q stree option"
  and find_below :: "nat \<Rightarrow> (nat \<times> 'q stree) list \<Rightarrow> 'q stree option" where
  "find_child sid (Node s cs) =
     (if stream_id s = sid then Some (Node s cs)
      else (case dict_get cs sid of Some c \<Rightarrow> Some c | None \<Rightarrow> find_below sid cs))"
| "find_below sid [] = None"
| "find_below sid ((k, v) # cs) =
     (if children v \<noteq> [] then
        (case find_child sid v of Some r \<Rightarrow> Some r | None \<Rightarrow> find_below sid cs)
      else find_below sid cs)"

text \<open>\<^verbatim>\<open>add_child\<close> returns the node; the tree is updated in place.\<close>

fun add_child :: "nat \<Rightarrow> 'q stree \<Rightarrow> 'q stree \<times> 'q stree" where
  "add_child sid (Node s cs) =
     (case find_child sid (Node s cs) of
        Some existing \<Rightarrow> (existing, Node s cs)
      | None \<Rightarrow>
          let child = Node (new_stream sid) [] in (child, Node s (dict_set sid child cs)))"

text \<open>\<^verbatim>\<open>drop_child\<close> raises \<^verbatim>\<open>KeyError\<close> for an unknown child.\<close>

fun drop_child :: "nat \<Rightarrow> 'q stree \<Rightarrow> 'q stree option" where
  "drop_child sid (Node s cs) =
     (if dict_get cs sid = None then None else Some (Node s (dict_pop sid cs)))"

fun get_children :: "'q stree \<Rightarrow> 'q stree list" where
  "get_children (Node s cs) = concat (map (\<lambda>(k, c). c # get_children c) cs)"

subsection \<open>Flat trees are dictionaries\<close>

definition flat :: "'q stree \<Rightarrow> bool" where
  "flat t \<longleftrightarrow> list_all (\<lambda>(k, c). children c = []) (children t)"

text \<open>The flat tree over a dictionary of streams, and the dictionary of a tree.\<close>

definition tree_of :: "'q stream \<Rightarrow> (nat, 'q stream) dict \<Rightarrow> 'q stree" where
  "tree_of rt d = Node rt (map (\<lambda>(k, s). (k, Node s [])) d)"

lemma flat_tree_of: "flat (tree_of rt d)"
  by (auto simp: flat_def tree_of_def list_all_iff)

lemma find_below_flat: "list_all (\<lambda>(k, c). children c = []) cs \<Longrightarrow> find_below sid cs = None"
  by (induction cs) auto

lemma map_of_nodes: "dict_get (map (\<lambda>(k, s). (k, Node s [])) d) sid = map_option (\<lambda>s. Node s []) (dict_get d sid)"
  by (induction d) auto

lemma update_nodes:
  "dict_set sid (Node s []) (map (\<lambda>(k, s). (k, Node s [])) d)
   = map (\<lambda>(k, s). (k, Node s [])) (dict_set sid s d)"
  by (induction d) auto

lemma delete_nodes:
  "dict_pop sid (map (\<lambda>(k, s). (k, Node s [])) d) = map (\<lambda>(k, s). (k, Node s [])) (dict_pop sid d)"
  by (induction d) auto



end
