(* ===== verification/Structured_Fields.thy ===== *)
theory Structured_Fields
  imports Utf8
begin

text \<open>
  RFC 9651 structured field values: the parser and the serialiser of
  \<^verbatim>\<open>src/blackbull/protocol/structured_fields.py\<close>, and \<^verbatim>\<open>parse_priority_field\<close> of
  \<^verbatim>\<open>frame_types.py\<close>, which reads the RFC 9218 priority of a request. The cursor \<^verbatim>\<open>_Parser\<close> is the
  text that is left; a \<^verbatim>\<open>ValueError\<close> is \<open>None\<close>. A decimal is its sign and its value in
  thousandths: the parser only produces floats with at most three decimals and fifteen digits,
  which the binary format keeps apart.
\<close>

subsection \<open>Types\<close>

datatype bare_item =
    SFBool bool
  | SFInt int
  | SFDec bool nat
  | SFStr pystr
  | SFToken pystr
  | SFBytes bytes
  | SFDate int
  | SFDisplay pystr

type_synonym sf_params = "(pystr, bare_item) dict"
type_synonym sf_item = "bare_item \<times> sf_params"

datatype sf_member = Item bare_item sf_params | Inner "sf_item list" sf_params

type_synonym 'a sf_parser = "pystr \<Rightarrow> ('a \<times> pystr) option"

subsection \<open>Character classes\<close>

definition is_digit :: "nat \<Rightarrow> bool" where
  "is_digit c \<longleftrightarrow> 0x30 \<le> c \<and> c \<le> 0x39"

definition is_lcalpha :: "nat \<Rightarrow> bool" where
  "is_lcalpha c \<longleftrightarrow> 0x61 \<le> c \<and> c \<le> 0x7A"

definition is_alpha :: "nat \<Rightarrow> bool" where
  "is_alpha c \<longleftrightarrow> is_lcalpha c \<or> 0x41 \<le> c \<and> c \<le> 0x5A"

definition key_start :: "nat \<Rightarrow> bool" where
  "key_start c \<longleftrightarrow> is_lcalpha c \<or> c = 0x2A"

definition key_char :: "nat \<Rightarrow> bool" where
  "key_char c \<longleftrightarrow> is_lcalpha c \<or> is_digit c \<or> c \<in> set (str ''_-.*'')"

definition token_start :: "nat \<Rightarrow> bool" where
  "token_start c \<longleftrightarrow> is_alpha c \<or> c = 0x2A"

definition token_char :: "nat \<Rightarrow> bool" where
  "token_char c \<longleftrightarrow> is_alpha c \<or> is_digit c
     \<or> c \<in> {0x21, 0x23, 0x24, 0x25, 0x26, 0x27, 0x2A, 0x2B, 0x2D, 0x2E, 0x5E, 0x5F, 0x60, 0x7C, 0x7E}
     \<or> c \<in> {0x3A, 0x2F}"

definition lc_hexdig :: "nat \<Rightarrow> nat option" where
  "lc_hexdig c =
     (if is_digit c then Some (c - 0x30)
      else if 0x61 \<le> c \<and> c \<le> 0x66 then Some (c - 0x61 + 10) else None)"

subsection \<open>The cursor\<close>

definition expect :: "nat \<Rightarrow> pystr \<Rightarrow> pystr option" where
  "expect c s = (case s of x # r \<Rightarrow> if x = c then Some r else None | [] \<Rightarrow> None)"

definition discard_sp :: "pystr \<Rightarrow> pystr" where
  "discard_sp = dropWhile (\<lambda>c. c = 0x20)"

definition discard_ows :: "pystr \<Rightarrow> pystr" where
  "discard_ows = dropWhile (\<lambda>c. c = 0x20 \<or> c = 0x09)"

subsection \<open>Base64\<close>

definition b64_alphabet :: pystr where
  "b64_alphabet = str ''ABCDEFGHIJKLMNOPQRSTUVWXYZabcdefghijklmnopqrstuvwxyz0123456789+/''"

definition b64_val :: "nat \<Rightarrow> nat option" where
  "b64_val c =
     (if 0x41 \<le> c \<and> c \<le> 0x5A then Some (c - 0x41)
      else if 0x61 \<le> c \<and> c \<le> 0x7A then Some (c - 0x61 + 26)
      else if 0x30 \<le> c \<and> c \<le> 0x39 then Some (c - 0x30 + 52)
      else if c = 0x2B then Some 62 else if c = 0x2F then Some 63 else None)"

definition b64_vals :: "pystr \<Rightarrow> nat list option" where
  "b64_vals s = (if list_all (\<lambda>c. b64_val c \<noteq> None) s then Some (map (the \<circ> b64_val) s) else None)"

text \<open>
  \<^verbatim>\<open>base64.b64decode(s, validate=True)\<close>: quads of the alphabet, the last one possibly padded;
  anything after the padding is an error, unused low bits are not checked.
\<close>

fun b64decode :: "pystr \<Rightarrow> bytes option" where
  "b64decode [] = Some []"
| "b64decode (a # b # c # d # r) =
     (case b64_vals [a, b] of
        Some [x, y] \<Rightarrow>
          if c = 0x3D \<and> d = 0x3D then
            (if r = [] then Some [word_of_nat (x * 4 + y div 16)] else None)
          else (case b64_vals [c] of
              Some [z] \<Rightarrow>
                if d = 0x3D then
                  (if r = [] then Some [word_of_nat (x * 4 + y div 16),
                                        word_of_nat (y mod 16 * 16 + z div 4)] else None)
                else (case b64_vals [d] of
                    Some [w] \<Rightarrow>
                      map_option (\<lambda>bs. [word_of_nat (x * 4 + y div 16),
                                        word_of_nat (y mod 16 * 16 + z div 4),
                                        word_of_nat (z mod 4 * 64 + w)] @ bs) (b64decode r)
                  | _ \<Rightarrow> None)
            | _ \<Rightarrow> None)
      | _ \<Rightarrow> None)"
| "b64decode _ = None"

fun b64encode :: "bytes \<Rightarrow> pystr" where
  "b64encode [] = []"
| "b64encode [a] =
     [b64_alphabet ! (unat a div 4), b64_alphabet ! (unat a mod 4 * 16), 0x3D, 0x3D]"
| "b64encode [a, b] =
     [b64_alphabet ! (unat a div 4), b64_alphabet ! (unat a mod 4 * 16 + unat b div 16),
      b64_alphabet ! (unat b mod 16 * 4), 0x3D]"
| "b64encode (a # b # c # r) =
     [b64_alphabet ! (unat a div 4), b64_alphabet ! (unat a mod 4 * 16 + unat b div 16),
      b64_alphabet ! (unat b mod 16 * 4 + unat c div 64), b64_alphabet ! (unat c mod 64)]
     @ b64encode r"

definition base64_char :: "nat \<Rightarrow> bool" where
  "base64_char c \<longleftrightarrow> b64_val c \<noteq> None \<or> c = 0x3D"

subsection \<open>Parsing\<close>

definition parse_key :: "pystr sf_parser" where
  "parse_key s =
     (case s of [] \<Rightarrow> None
      | c # _ \<Rightarrow> if key_start c then Some (takeWhile key_char s, dropWhile key_char s) else None)"

definition digits_value :: "pystr \<Rightarrow> nat" where
  "digits_value ds = foldl (\<lambda>a c. a * 10 + (c - 0x30)) 0 ds"

fun num_loop :: "bool \<Rightarrow> pystr \<Rightarrow> pystr \<Rightarrow> (bool \<times> pystr \<times> pystr) option" where
  "num_loop is_decimal digits [] = Some (is_decimal, digits, [])"
| "num_loop is_decimal digits (c # r) =
     (if is_digit c then
        (if \<not> is_decimal \<and> length digits + 1 > 15 then None
         else if is_decimal \<and> length digits + 1 > 16 then None
         else num_loop is_decimal (digits @ [c]) r)
      else if \<not> is_decimal \<and> c = 0x2E then
        (if length digits > 12 then None
         else if length digits + 1 > 16 then None
         else num_loop True (digits @ [c]) r)
      else Some (is_decimal, digits, c # r))"

definition pad3 :: "pystr \<Rightarrow> pystr" where
  "pad3 ds = ds @ replicate (3 - length ds) 0x30"

definition number_body :: "bool \<Rightarrow> bare_item sf_parser" where
  "number_body neg s =
     (case num_loop False [] s of
        None \<Rightarrow> None
      | Some (is_decimal, text, r) \<Rightarrow>
          if \<not> is_decimal
          then Some (SFInt ((if neg then -1 else 1) * int (digits_value text)), r)
          else
            let int_part = takeWhile (\<lambda>c. c \<noteq> 0x2E) text;
                frac_part = drop (length int_part + 1) text
            in if frac_part = [] then None
               else if length frac_part > 3 then None
               else Some (SFDec neg (digits_value (int_part @ pad3 frac_part)), r))"

definition parse_number :: "bare_item sf_parser" where
  "parse_number s =
     (let (neg, s) = (if take 1 s = [0x2D] then (True, drop 1 s) else (False, s))
      in if s = [] \<or> \<not> is_digit (hd s) then None else number_body neg s)"

fun string_loop :: "pystr \<Rightarrow> pystr sf_parser" where
  "string_loop out [] = None"
| "string_loop out (c # s) =
     (if c = 0x5C then
        (case s of [] \<Rightarrow> None
         | nxt # r \<Rightarrow> if nxt = 0x22 \<or> nxt = 0x5C then string_loop (out @ [nxt]) r else None)
      else if c = 0x22 then Some (out, s)
      else if \<not> (0x20 \<le> c \<and> c \<le> 0x7E) then None
      else string_loop (out @ [c]) s)"

definition parse_string :: "bare_item sf_parser" where
  "parse_string s =
     (case expect 0x22 s of None \<Rightarrow> None
      | Some s \<Rightarrow> map_option (\<lambda>(out, r). (SFStr out, r)) (string_loop [] s))"

definition parse_token :: "bare_item sf_parser" where
  "parse_token s =
     (case s of [] \<Rightarrow> None
      | c # _ \<Rightarrow> if token_start c
                 then Some (SFToken (takeWhile token_char s), dropWhile token_char s) else None)"

definition parse_byte_sequence :: "bare_item sf_parser" where
  "parse_byte_sequence s =
     (case expect 0x3A s of None \<Rightarrow> None
      | Some s \<Rightarrow>
          let b64 = takeWhile (\<lambda>c. c \<noteq> 0x3A) s
          in case dropWhile (\<lambda>c. c \<noteq> 0x3A) s of
               [] \<Rightarrow> None
             | _ # r \<Rightarrow>
                 if \<not> list_all base64_char b64 then None
                 else map_option (\<lambda>bs. (SFBytes bs, r)) (b64decode b64))"

definition parse_boolean :: "bare_item sf_parser" where
  "parse_boolean s =
     (case expect 0x3F s of None \<Rightarrow> None
      | Some s \<Rightarrow>
          (case s of [] \<Rightarrow> None
           | c # r \<Rightarrow> if c = 0x31 then Some (SFBool True, r)
                      else if c = 0x30 then Some (SFBool False, r) else None))"

definition parse_date :: "bare_item sf_parser" where
  "parse_date s =
     (case expect 0x40 s of None \<Rightarrow> None
      | Some s \<Rightarrow>
          (case parse_number s of Some (SFInt n, r) \<Rightarrow> Some (SFDate n, r) | _ \<Rightarrow> None))"

fun display_loop :: "bytes \<Rightarrow> bare_item sf_parser" where
  "display_loop raw [] = None"
| "display_loop raw (c # s) =
     (if c \<le> 0x1F \<or> c \<ge> 0x7F then None
      else if c = 0x25 then
        (case s of hi # lo # r \<Rightarrow>
           (case (lc_hexdig hi, lc_hexdig lo) of
              (Some h, Some l) \<Rightarrow> display_loop (raw @ [word_of_nat (h * 16 + l)]) r
            | _ \<Rightarrow> None)
         | _ \<Rightarrow> None)
      else if c = 0x22 then map_option (\<lambda>t. (SFDisplay t, s)) (utf8_decode raw)
      else display_loop (raw @ [word_of_nat c]) s)"

definition parse_display_string :: "bare_item sf_parser" where
  "parse_display_string s =
     (case expect 0x25 s of None \<Rightarrow> None
      | Some s \<Rightarrow> (case expect 0x22 s of None \<Rightarrow> None | Some s \<Rightarrow> display_loop [] s))"

definition parse_bare_item :: "bare_item sf_parser" where
  "parse_bare_item s =
     (case s of [] \<Rightarrow> None
      | c # _ \<Rightarrow>
          if c = 0x2D \<or> is_digit c then parse_number s
          else if c = 0x22 then parse_string s
          else if token_start c then parse_token s
          else if c = 0x3A then parse_byte_sequence s
          else if c = 0x3F then parse_boolean s
          else if c = 0x40 then parse_date s
          else if c = 0x25 then parse_display_string s
          else None)"

subsubsection \<open>Every parser consumes\<close>

lemma length_dropWhile_lt: "s \<noteq> [] \<Longrightarrow> P (hd s) \<Longrightarrow> length (dropWhile P s) < length s"
  using length_dropWhile_le [of P "tl s"] by (cases s) auto

lemma dropWhile_Cons_shorter: "dropWhile P s = x # r \<Longrightarrow> length r < length s"
  using length_dropWhile_le [of P s] by simp

lemma expect_shorter: "expect c s = Some r \<Longrightarrow> length r < length s"
  by (auto simp: expect_def split: list.splits if_splits)

lemma discard_sp_le: "length (discard_sp s) \<le> length s"
  by (simp add: discard_sp_def length_dropWhile_le)

lemma discard_ows_le: "length (discard_ows s) \<le> length s"
  by (simp add: discard_ows_def length_dropWhile_le)

lemma key_start_char: "key_start c \<Longrightarrow> key_char c"
  by (auto simp: key_start_def key_char_def)

lemma token_start_char: "token_start c \<Longrightarrow> token_char c"
  by (auto simp: token_start_def token_char_def)

lemma parse_key_shorter: "parse_key s = Some (k, r) \<Longrightarrow> length r < length s"
  by (auto simp: parse_key_def key_start_char le_imp_less_Suc length_dropWhile_le
      split: list.splits if_splits)

lemma num_loop_le: "num_loop d ds s = Some (d', t, r) \<Longrightarrow> length r \<le> length s"
  by (induction d ds s rule: num_loop.induct) (auto split: if_splits)

lemma num_loop_digit:
  "s \<noteq> [] \<Longrightarrow> is_digit (hd s) \<Longrightarrow> num_loop False [] s = Some (d, t, r) \<Longrightarrow> length r < length s"
  by (cases s) (auto dest: num_loop_le split: if_splits)

lemma number_body_shorter:
  assumes "s \<noteq> []" "is_digit (hd s)" "number_body neg s = Some (v, r)"
  shows "length r < length s"
proof -
  from assms(3) obtain d t where "num_loop False [] s = Some (d, t, r)"
    by (auto simp: number_body_def Let_def split: option.splits if_splits prod.splits)
  with assms num_loop_digit show ?thesis by blast
qed

lemma parse_number_shorter: "parse_number s = Some (v, r) \<Longrightarrow> length r < length s"
  by (cases s) (auto simp: parse_number_def Let_def split: if_splits dest!: number_body_shorter [rotated 2])

lemma string_loop_shorter: "string_loop out s = Some (t, r) \<Longrightarrow> length r < length s"
  by (induction out s rule: string_loop.induct) (auto split: if_splits list.splits)

lemma display_loop_shorter: "display_loop raw s = Some (t, r) \<Longrightarrow> length r < length s"
proof (induction "length s" arbitrary: raw s rule: less_induct)
  case less
  note IH = less.hyps
  from less.prems show ?case
  proof (cases s)
    case (Cons c s')
    with less.prems show ?thesis
      by (auto split: if_splits list.splits option.splits dest!: IH [rotated])
  qed simp
qed

lemma parse_string_shorter: "parse_string s = Some (v, r) \<Longrightarrow> length r < length s"
  by (auto simp: parse_string_def split: option.splits dest!: expect_shorter string_loop_shorter)

lemma parse_token_shorter: "parse_token s = Some (v, r) \<Longrightarrow> length r < length s"
  by (auto simp: parse_token_def token_start_char le_imp_less_Suc length_dropWhile_le
      split: list.splits if_splits)

lemma parse_byte_sequence_shorter: "parse_byte_sequence s = Some (v, r) \<Longrightarrow> length r < length s"
  by (auto simp: parse_byte_sequence_def Let_def split: option.splits list.splits if_splits
      dest!: expect_shorter dropWhile_Cons_shorter)

lemma parse_boolean_shorter: "parse_boolean s = Some (v, r) \<Longrightarrow> length r < length s"
  by (auto simp: parse_boolean_def split: option.splits list.splits if_splits dest!: expect_shorter)

lemma parse_date_shorter: "parse_date s = Some (v, r) \<Longrightarrow> length r < length s"
  by (auto simp: parse_date_def split: option.splits prod.splits bare_item.splits
      dest!: expect_shorter parse_number_shorter)

lemma parse_display_string_shorter: "parse_display_string s = Some (v, r) \<Longrightarrow> length r < length s"
  by (auto simp: parse_display_string_def split: option.splits
      dest!: expect_shorter display_loop_shorter)

lemma parse_bare_item_shorter: "parse_bare_item s = Some (v, r) \<Longrightarrow> length r < length s"
  by (cases s) (auto simp: parse_bare_item_def split: if_splits
      dest: parse_number_shorter parse_string_shorter parse_token_shorter
        parse_byte_sequence_shorter parse_boolean_shorter parse_date_shorter
        parse_display_string_shorter)

subsubsection \<open>Parameters, items, lists and dictionaries\<close>

function parameters_loop :: "sf_params \<Rightarrow> sf_params sf_parser" where
  "parameters_loop params s =
     (if take 1 s \<noteq> [0x3B] then Some (params, s)
      else (case parse_key (discard_sp (drop 1 s)) of
          None \<Rightarrow> None
        | Some (key, s1) \<Rightarrow>
            if take 1 s1 = [0x3D] then
              (case parse_bare_item (drop 1 s1) of
                 None \<Rightarrow> None
               | Some (value, s2) \<Rightarrow> parameters_loop (dict_set key value params) s2)
            else parameters_loop (dict_set key (SFBool True) params) s1))"
  by pat_completeness auto
termination
proof (relation "measure (length \<circ> snd)", goal_cases)
  case (2 params s ks key s1 vs val s2)
  then have "s \<noteq> []" by auto
  with 2 parse_key_shorter [of "discard_sp (drop 1 s)" key s1] discard_sp_le [of "drop 1 s"]
    parse_bare_item_shorter [of "drop 1 s1" val s2]
  show ?case by auto
next
  case (3 params s ks key s1)
  then have "s \<noteq> []" by auto
  with 3 parse_key_shorter [of "discard_sp (drop 1 s)" key s1] discard_sp_le [of "drop 1 s"]
  show ?case by auto
qed simp

declare parameters_loop.simps [simp del]

definition parse_parameters :: "sf_params sf_parser" where
  "parse_parameters s = parameters_loop [] s"

definition parse_item_at :: "sf_item sf_parser" where
  "parse_item_at s =
     (case parse_bare_item s of None \<Rightarrow> None
      | Some (bare, s1) \<Rightarrow>
          (case parse_parameters s1 of None \<Rightarrow> None | Some (params, s2) \<Rightarrow> Some ((bare, params), s2)))"

lemma parameters_loop_le: "parameters_loop params s = Some (ps, r) \<Longrightarrow> length r \<le> length s"
proof (induction params s rule: parameters_loop.induct)
  case (1 params s)
  show ?case
  proof (cases "take 1 s = [0x3B]")
    case True
    with "1.prems" obtain key s1 where k: "parse_key (discard_sp (drop 1 s)) = Some (key, s1)"
      by (subst (asm) parameters_loop.simps) (auto split: option.splits)
    note key = parse_key_shorter [OF k] discard_sp_le [of "drop 1 s"]
    show ?thesis
    proof (cases "take 1 s1 = [0x3D]")
      case eq: True
      with "1.prems" True k obtain v s2 where v: "parse_bare_item (drop 1 s1) = Some (v, s2)"
        and l: "parameters_loop (dict_set key v params) s2 = Some (ps, r)"
        by (subst (asm) parameters_loop.simps) (auto split: option.splits)
      from "1.IH"(1) [OF _ k refl eq v refl l] True parse_bare_item_shorter [OF v] key
      show ?thesis by auto
    next
      case False
      with "1.prems" True k
      have l: "parameters_loop (dict_set key (SFBool True) params) s1 = Some (ps, r)"
        by (subst (asm) parameters_loop.simps) auto
      from "1.IH"(2) [OF _ k refl False l] True key show ?thesis by auto
    qed
  next
    case False
    with "1.prems" show ?thesis by (subst (asm) parameters_loop.simps) auto
  qed
qed

lemma parse_item_at_shorter: "parse_item_at s = Some (v, r) \<Longrightarrow> length r < length s"
  by (auto simp: parse_item_at_def parse_parameters_def split: option.splits
      dest!: parse_bare_item_shorter parameters_loop_le)

function inner_loop :: "sf_item list \<Rightarrow> sf_member sf_parser" where
  "inner_loop inner s =
     (if s = [] then None
      else
        let s1 = discard_sp s
        in if take 1 s1 = [0x29] then
             map_option (\<lambda>(params, r). (Inner inner params, r)) (parse_parameters (drop 1 s1))
           else (case parse_item_at s1 of
               None \<Rightarrow> None
             | Some (item, s2) \<Rightarrow>
                 if take 1 s2 = [0x20] \<or> take 1 s2 = [0x29] then inner_loop (inner @ [item]) s2
                 else None))"
  by pat_completeness auto
termination
proof (relation "measure (length \<circ> snd)", goal_cases)
  case (2 inner s s1 ps item s2)
  then have "length s2 < length (discard_sp s)" using parse_item_at_shorter [of s1 item s2] by auto
  also have "\<dots> \<le> length s" by (rule discard_sp_le)
  finally show ?case by simp
qed simp

declare inner_loop.simps [simp del]

definition parse_inner_list :: "sf_member sf_parser" where
  "parse_inner_list s = (case expect 0x28 s of None \<Rightarrow> None | Some s \<Rightarrow> inner_loop [] s)"

definition parse_item_or_inner_list :: "sf_member sf_parser" where
  "parse_item_or_inner_list s =
     (if take 1 s = [0x28] then parse_inner_list s
      else map_option (\<lambda>((bare, params), r). (Item bare params, r)) (parse_item_at s))"

lemma inner_loop_shorter: "inner_loop inner s = Some (v, r) \<Longrightarrow> length r < length s"
proof (induction inner s rule: inner_loop.induct)
  case (1 inner s)
  let ?s1 = "discard_sp s"
  have le: "length ?s1 \<le> length s" by (rule discard_sp_le)
  show ?case
  proof (cases "take 1 ?s1 = [0x29]")
    case True
    then have "0 < length ?s1" by (cases ?s1) auto
    moreover have "length r \<le> length ?s1 - 1"
      using True "1.prems" by (subst (asm) inner_loop.simps)
         (auto simp: parse_parameters_def Let_def split: if_splits dest!: parameters_loop_le)
    ultimately show ?thesis using le by linarith
  next
    case False
    with "1.prems" obtain item s2 where s2: "parse_item_at ?s1 = Some (item, s2)"
        "take 1 s2 = [0x20] \<or> take 1 s2 = [0x29]" "inner_loop (inner @ [item]) s2 = Some (v, r)"
      by (subst (asm) inner_loop.simps) (auto simp: Let_def split: if_splits option.splits)
    with "1.prems" have "s \<noteq> []" by (auto simp: inner_loop.simps)
    from "1.IH" [OF this refl False s2(1) refl s2(2,3)] parse_item_at_shorter [OF s2(1)] le
    show ?thesis by linarith
  qed
qed

lemma parse_item_or_inner_list_shorter:
  "parse_item_or_inner_list s = Some (v, r) \<Longrightarrow> length r < length s"
  by (auto simp: parse_item_or_inner_list_def parse_inner_list_def split: if_splits option.splits
      dest!: expect_shorter inner_loop_shorter parse_item_at_shorter)


function list_loop :: "sf_member list \<Rightarrow> pystr \<Rightarrow> (sf_member list \<times> pystr) option" where
  "list_loop members s =
     (if s = [] then Some (members, s)
      else (case parse_item_or_inner_list s of
          None \<Rightarrow> None
        | Some (m, s1) \<Rightarrow>
            let s2 = discard_ows s1
            in if s2 = [] then Some (members @ [m], s2)
               else (case expect 0x2C s2 of
                   None \<Rightarrow> None
                 | Some s3 \<Rightarrow>
                     let s4 = discard_ows s3
                     in if s4 = [] then None else list_loop (members @ [m]) s4)))"
  by pat_completeness auto
termination
proof (relation "measure (length \<circ> snd)", goal_cases)
  case (2 members s p m s1 s2 s3 s4)
  then show ?case
    using parse_item_or_inner_list_shorter [of s m s1] expect_shorter [of "0x2C" s2 s3]
      discard_ows_le [of s1] discard_ows_le [of s3] by auto
qed simp

declare list_loop.simps [simp del]

definition parse_member :: "sf_member sf_parser" where
  "parse_member s =
     (if take 1 s = [0x3D] then parse_item_or_inner_list (drop 1 s)
      else map_option (\<lambda>(params, r). (Item (SFBool True) params, r)) (parse_parameters s))"

lemma parse_member_le: "parse_member s = Some (m, r) \<Longrightarrow> length r \<le> length s"
  by (auto simp: parse_member_def parse_parameters_def split: if_splits
      dest!: parse_item_or_inner_list_shorter parameters_loop_le)

function dictionary_loop ::
  "(pystr, sf_member) dict \<Rightarrow> pystr \<Rightarrow> ((pystr, sf_member) dict \<times> pystr) option" where
  "dictionary_loop d s =
     (if s = [] then Some (d, s)
      else (case parse_key s of
          None \<Rightarrow> None
        | Some (key, s0) \<Rightarrow>
            (case parse_member s0 of
               None \<Rightarrow> None
             | Some (m, s1) \<Rightarrow>
                 let d = dict_set key m d; s2 = discard_ows s1
                 in if s2 = [] then Some (d, s2)
                    else (case expect 0x2C s2 of
                        None \<Rightarrow> None
                      | Some s3 \<Rightarrow>
                          let s4 = discard_ows s3
                          in if s4 = [] then None else dictionary_loop d s4))))"
  by pat_completeness auto
termination
proof (relation "measure (length \<circ> snd)", goal_cases)
  case (2 d s p key s0 q m s1 d' s2 s3 s4)
  then show ?case
    using parse_key_shorter [of s key s0] parse_member_le [of s0 m s1]
      expect_shorter [of "0x2C" s2 s3] discard_ows_le [of s1] discard_ows_le [of s3] by auto
qed simp

declare dictionary_loop.simps [simp del]

definition to_text :: "pystr \<Rightarrow> pystr option" where
  "to_text v = (if list_all (\<lambda>c. c < 128) v then Some v else None)"

definition parse_top :: "'a sf_parser \<Rightarrow> pystr \<Rightarrow> 'a option" where
  "parse_top parse_fn v =
     (case to_text v of
        None \<Rightarrow> None
      | Some s \<Rightarrow>
          (case parse_fn (discard_sp s) of
             None \<Rightarrow> None
           | Some (res, r) \<Rightarrow> if discard_sp r = [] then Some res else None))"

definition parse_item :: "pystr \<Rightarrow> sf_item option" where
  "parse_item = parse_top parse_item_at"

definition parse_list :: "pystr \<Rightarrow> sf_member list option" where
  "parse_list = parse_top (list_loop [])"

definition parse_dictionary :: "pystr \<Rightarrow> (pystr, sf_member) dict option" where
  "parse_dictionary = parse_top (dictionary_loop [])"

subsection \<open>The priority field\<close>

text \<open>\<^verbatim>\<open>parse_priority_field\<close>: the pair of urgency and incremental.\<close>

definition parse_priority_field :: "pystr \<Rightarrow> int \<times> bool" where
  "parse_priority_field s =
     (case parse_dictionary s of
        None \<Rightarrow> (3, False)
      | Some members \<Rightarrow>
          ((case dict_get members (str ''u'') of
              Some (Item (SFInt n) _) \<Rightarrow> if 0 \<le> n \<and> n \<le> 7 then n else 3
            | _ \<Rightarrow> 3),
           (case dict_get members (str ''i'') of
              Some (Item (SFBool b) _) \<Rightarrow> b
            | _ \<Rightarrow> False)))"


subsection \<open>Serialisation\<close>

definition show_int :: "int \<Rightarrow> pystr" where
  "show_int n = (if n < 0 then 0x2D # show_nat (nat (- n)) else show_nat (nat n))"

definition ser_integer :: "int \<Rightarrow> pystr option" where
  "ser_integer v =
     (if -999999999999999 \<le> v \<and> v \<le> 999999999999999 then Some (show_int v) else None)"

definition rstrip_zeros :: "pystr \<Rightarrow> pystr" where
  "rstrip_zeros s = rev (dropWhile (\<lambda>c. c = 0x30) (rev s))"

text \<open>\<open>m\<close> thousandths; the quantised decimal has three decimals.\<close>

definition ser_decimal :: "bool \<Rightarrow> nat \<Rightarrow> pystr option" where
  "ser_decimal neg m =
     (if length (show_nat m) > 15 then None
      else
        let text = (if neg then [0x2D] else []) @ show_nat (m div 1000) @ [0x2E]
                   @ [0x30 + m mod 1000 div 100, 0x30 + m mod 100 div 10, 0x30 + m mod 10];
            text = rstrip_zeros text
        in Some (if last text = 0x2E then text @ [0x30] else text))"

fun escape_string :: "pystr \<Rightarrow> pystr option" where
  "escape_string [] = Some []"
| "escape_string (c # s) =
     (if \<not> (0x20 \<le> c \<and> c \<le> 0x7E) then None
      else map_option (\<lambda>t. (if c = 0x22 \<or> c = 0x5C then [0x5C, c] else [c]) @ t) (escape_string s))"

definition ser_string :: "pystr \<Rightarrow> pystr option" where
  "ser_string v = map_option (\<lambda>t. [0x22] @ t @ [0x22]) (escape_string v)"

definition ser_token :: "pystr \<Rightarrow> pystr option" where
  "ser_token v =
     (if v = [] \<or> \<not> token_start (hd v) \<or> \<not> list_all token_char v then None else Some v)"

definition ser_byte_sequence :: "bytes \<Rightarrow> pystr" where
  "ser_byte_sequence v = [0x3A] @ b64encode v @ [0x3A]"

definition hex_digit :: "nat \<Rightarrow> nat" where
  "hex_digit n = (if n < 10 then 0x30 + n else 0x61 + (n - 10))"

definition display_byte :: "byte \<Rightarrow> pystr" where
  "display_byte b =
     (if b = 0x25 \<or> b = 0x22 \<or> \<not> (0x20 \<le> b \<and> b \<le> 0x7E)
      then [0x25, hex_digit (unat b div 16), hex_digit (unat b mod 16)] else [unat b])"

definition ser_display_string :: "pystr \<Rightarrow> pystr option" where
  "ser_display_string v =
     map_option (\<lambda>bs. [0x25, 0x22] @ concat (map display_byte bs) @ [0x22]) (utf8_encode v)"

definition ser_bare_item :: "bare_item \<Rightarrow> pystr option" where
  "ser_bare_item v =
     (case v of
        SFBool b \<Rightarrow> Some (if b then [0x3F, 0x31] else [0x3F, 0x30])
      | SFInt n \<Rightarrow> ser_integer n
      | SFDec neg m \<Rightarrow> ser_decimal neg m
      | SFToken t \<Rightarrow> ser_token t
      | SFDisplay t \<Rightarrow> ser_display_string t
      | SFStr t \<Rightarrow> ser_string t
      | SFBytes b \<Rightarrow> Some (ser_byte_sequence b)
      | SFDate n \<Rightarrow> map_option (\<lambda>t. [0x40] @ t) (ser_integer n))"

definition ser_key :: "pystr \<Rightarrow> pystr option" where
  "ser_key key =
     (if key = [] \<or> \<not> key_start (hd key) \<or> \<not> list_all key_char key then None else Some key)"

fun ser_parameters :: "sf_params \<Rightarrow> pystr option" where
  "ser_parameters [] = Some []"
| "ser_parameters ((key, v) # ps) =
     (case ser_key key of None \<Rightarrow> None
      | Some k \<Rightarrow>
          (case (if v = SFBool True then Some [] else map_option (\<lambda>t. [0x3D] @ t) (ser_bare_item v)) of
             None \<Rightarrow> None
           | Some t \<Rightarrow> map_option (\<lambda>r. [0x3B] @ k @ t @ r) (ser_parameters ps)))"

definition ser_item :: "sf_item \<Rightarrow> pystr option" where
  "ser_item it =
     (case ser_bare_item (fst it) of None \<Rightarrow> None
      | Some b \<Rightarrow> map_option (\<lambda>p. b @ p) (ser_parameters (snd it)))"

text \<open>\<^verbatim>\<open>sep.join(f(x) for x in xs)\<close>; the first exception ends it.\<close>

fun join_map :: "pystr \<Rightarrow> ('a \<Rightarrow> pystr option) \<Rightarrow> 'a list \<Rightarrow> pystr option" where
  "join_map sep f [] = Some []"
| "join_map sep f [x] = f x"
| "join_map sep f (x # y # xs) =
     (case f x of None \<Rightarrow> None
      | Some a \<Rightarrow> map_option (\<lambda>b. a @ sep @ b) (join_map sep f (y # xs)))"

definition ser_item_or_inner_list :: "sf_member \<Rightarrow> pystr option" where
  "ser_item_or_inner_list m =
     (case m of
        Inner items params \<Rightarrow>
          (case join_map [0x20] ser_item items of None \<Rightarrow> None
           | Some inner \<Rightarrow>
               map_option (\<lambda>p. [0x28] @ inner @ [0x29] @ p) (ser_parameters params))
      | Item bare params \<Rightarrow> ser_item (bare, params))"

definition serialize_item :: "sf_item \<Rightarrow> pystr option" where
  "serialize_item = ser_item"

definition serialize_list :: "sf_member list \<Rightarrow> pystr option" where
  "serialize_list ms = join_map [0x2C, 0x20] ser_item_or_inner_list ms"

definition ser_member :: "pystr \<times> sf_member \<Rightarrow> pystr option" where
  "ser_member km =
     (case ser_key (fst km) of None \<Rightarrow> None
      | Some prefix \<Rightarrow>
          (case snd km of
             Item (SFBool True) params \<Rightarrow> map_option (\<lambda>p. prefix @ p) (ser_parameters params)
           | m \<Rightarrow> map_option (\<lambda>t. prefix @ [0x3D] @ t) (ser_item_or_inner_list m)))"

definition serialize_dictionary :: "(pystr, sf_member) dict \<Rightarrow> pystr option" where
  "serialize_dictionary d = join_map [0x2C, 0x20] ser_member d"

end
