(* ===== verification/Sf_Roundtrip.thy ===== *)
theory Sf_Roundtrip
  imports Structured_Fields
begin

text \<open>
  The strict structured-field parser reads back what the serialiser writes: one lemma per kind of
  bare item, then parameters, items, inner lists, list and dictionary members, and the ASCII
  check of the whole field value.
\<close>

subsection \<open>What may follow\<close>


text \<open>What may follow a key or a bare item, and what may follow a parameter list.\<close>

definition stops :: "pystr \<Rightarrow> bool" where
  "stops r \<longleftrightarrow> (case r of [] \<Rightarrow> True | c # _ \<Rightarrow> c \<in> {0x20, 0x29, 0x2C, 0x3B, 0x3D})"

definition ends :: "pystr \<Rightarrow> bool" where
  "ends r \<longleftrightarrow> (case r of [] \<Rightarrow> True | c # _ \<Rightarrow> c \<in> {0x20, 0x29, 0x2C})"

lemma ends_stops: "ends r \<Longrightarrow> stops r"
  by (auto simp: ends_def stops_def split: list.splits)

lemma stops_simps [simp]: "stops []" "stops (0x3B # r)" "stops (0x3D # r)" "stops (0x2C # r)"
  by (simp_all add: stops_def)

lemma ends_simps [simp]: "ends []" "ends (0x20 # r)" "ends (0x29 # r)" "ends (0x2C # r)"
  by (simp_all add: ends_def)

lemma stops_not:
  "stops (c # r) \<Longrightarrow> \<not> key_char c \<and> \<not> token_char c \<and> \<not> is_digit c \<and> c \<noteq> 0x2E"
  by (auto simp: stops_def key_char_def token_char_def is_digit_def is_lcalpha_def is_alpha_def)

lemma takeWhile_stop:
  assumes "list_all P k" "\<And>c t. r = c # t \<Longrightarrow> \<not> P c"
  shows "takeWhile P (k @ r) = k" "dropWhile P (k @ r) = r"
proof -
  have "\<And>x. x \<in> set k \<Longrightarrow> P x" using assms(1) by (simp add: list_all_iff)
  then show "takeWhile P (k @ r) = k" "dropWhile P (k @ r) = r"
    using assms(2) by (cases r; simp add: takeWhile_append2 dropWhile_append2)+
qed

lemma take_1_iff: "take 1 s = [c] \<longleftrightarrow> s \<noteq> [] \<and> hd s = c"
  by (cases s) auto

lemma parse_key_start:
  "s \<noteq> [] \<Longrightarrow> key_start (hd s) \<Longrightarrow> parse_key s = Some (takeWhile key_char s, dropWhile key_char s)"
  by (cases s) (simp_all add: parse_key_def)

lemma parse_key_ser:
  assumes "ser_key k = Some t" "stops r"
  shows "parse_key (t @ r) = Some (k, r)"
proof -
  from assms(1) have k: "t = k" "k \<noteq> []" "key_start (hd k)" "list_all key_char k"
    by (auto simp: ser_key_def split: if_splits)
  have "\<not> key_char c" if "r = c # t'" for c t' using stops_not assms(2) that by blast
  with k show ?thesis
    by (simp add: parse_key_start takeWhile_stop)
qed

subsubsection \<open>Numbers\<close>

lemma is_digit_offset: "n < 10 \<Longrightarrow> is_digit (0x30 + n)"
  by (simp add: is_digit_def)

lemma show_nat_digits: "list_all is_digit (show_nat n)"
  by (induction n rule: show_nat.induct) (subst show_nat.simps, auto simp: is_digit_offset)

lemma show_nat_ne [simp]: "show_nat n \<noteq> []"
  by (subst show_nat.simps) auto

lemma digits_value_snoc: "digits_value (ds @ [c]) = digits_value ds * 10 + (c - 0x30)"
  by (simp add: digits_value_def)

lemma digits_value_show [simp]: "digits_value (show_nat n) = n"
proof (induction n rule: show_nat.induct)
  case (1 n)
  then show ?case
    by (subst show_nat.simps) (auto simp: digits_value_snoc, simp add: digits_value_def)
qed

lemma length_show_nat: "n < 10 ^ k \<Longrightarrow> 0 < k \<Longrightarrow> length (show_nat n) \<le> k"
proof (induction k arbitrary: n)
  case 0
  then show ?case by simp
next
  case (Suc k)
  show ?case
  proof (cases "n < 10")
    case True
    then show ?thesis by (subst show_nat.simps) simp
  next
    case False
    with Suc.prems have "n div 10 < 10 ^ k" "0 < k"
      by (auto intro: ccontr simp: less_mult_imp_div_less mult.commute)
    with Suc.IH False show ?thesis by (subst show_nat.simps) simp
  qed
qed

lemma num_loop_digits:
  assumes "list_all is_digit xs" "length ds + length xs \<le> (if d then 16 else 15)"
  shows "num_loop d ds (xs @ r) = num_loop d (ds @ xs) r"
  using assms by (induction xs arbitrary: ds) auto

lemma num_loop_stop: "stops r \<Longrightarrow> num_loop d ds r = Some (d, ds, r)"
  using stops_not by (cases r) auto

lemma parse_number_show_int:
  assumes "ser_integer v = Some t" "stops r"
  shows "parse_number (t @ r) = Some (SFInt v, r)"
proof -
  let ?n = "nat \<bar>v\<bar>"
  have t: "t = (if v < 0 then [0x2D] else []) @ show_nat ?n" "?n < 10 ^ 15"
    using assms(1) by (auto simp: ser_integer_def show_int_def split: if_splits)
  have "num_loop False [] (show_nat ?n @ r) = Some (False, show_nat ?n, r)"
    using show_nat_digits [of ?n] length_show_nat [OF t(2)] assms(2)
    by (simp add: num_loop_digits num_loop_stop)
  then have body: "number_body neg (show_nat ?n @ r)
      = Some (SFInt ((if neg then -1 else 1) * int ?n), r)" for neg
    by (simp add: number_body_def)
  have "is_digit (hd (show_nat ?n))" "hd (show_nat ?n) \<noteq> 0x2D"
    using show_nat_digits [of ?n] by (cases "show_nat ?n"; auto simp: is_digit_def)+
  with body show ?thesis
    unfolding parse_number_def take_1_iff by (auto simp: t(1))
qed

lemma digits_value_less: "list_all is_digit ds \<Longrightarrow> digits_value ds < 10 ^ length ds"
proof (induction ds rule: rev_induct)
  case Nil
  then show ?case by (simp add: digits_value_def)
next
  case (snoc c ds)
  then have "digits_value ds < 10 ^ length ds" "c - 0x30 < 10" by (auto simp: is_digit_def)
  then show ?case by (simp add: digits_value_snoc)
qed

text \<open>The three decimals and what \<^verbatim>\<open>rstrip('0')\<close> leaves of them.\<close>

definition frac3 :: "nat \<Rightarrow> pystr" where
  "frac3 m = [0x30 + m mod 1000 div 100, 0x30 + m mod 100 div 10, 0x30 + m mod 10]"

lemma frac3_digits: "list_all is_digit (frac3 m)"
  using mod_less_divisor [of 1000 m] mod_less_divisor [of 100 m]
  by (simp add: frac3_def is_digit_offset del: mod_less_divisor)

lemma strip_frac3:
  fixes x :: pystr and m :: nat
  defines "t \<equiv> rstrip_zeros (x @ [0x2E] @ frac3 m)"
  shows "\<exists>fr. (if last t = 0x2E then t @ [0x30] else t) = x @ [0x2E] @ fr
      \<and> fr \<noteq> [] \<and> length fr \<le> 3 \<and> list_all is_digit fr \<and> pad3 fr = frac3 m"
proof -
  consider "m mod 10 \<noteq> 0" | "m mod 10 = 0" "m mod 100 div 10 \<noteq> 0"
    | "m mod 10 = 0" "m mod 100 div 10 = 0" "m mod 1000 div 100 \<noteq> 0"
    | "m mod 10 = 0" "m mod 100 div 10 = 0" "m mod 1000 div 100 = 0" by blast
  then show ?thesis
  proof cases
    case 1
    with frac3_digits [of m] show ?thesis
      by (intro exI [of _ "frac3 m"]) (simp add: t_def rstrip_zeros_def frac3_def pad3_def)
  next
    case 2
    with frac3_digits [of m] show ?thesis
      by (intro exI [of _ "take 2 (frac3 m)"]) (simp add: t_def rstrip_zeros_def frac3_def pad3_def)
  next
    case 3
    with frac3_digits [of m] show ?thesis
      by (intro exI [of _ "take 1 (frac3 m)"])
         (simp add: t_def rstrip_zeros_def frac3_def pad3_def numeral_2_eq_2)
  next
    case 4
    with frac3_digits [of m] show ?thesis
      by (intro exI [of _ "[0x30]"])
         (simp add: t_def rstrip_zeros_def frac3_def pad3_def numeral_2_eq_2)
  qed
qed

lemma ser_decimal_shape:
  assumes "ser_decimal neg m = Some t"
  shows "\<exists>fr. t = ((if neg then [0x2D] else []) @ show_nat (m div 1000)) @ [0x2E] @ fr
      \<and> fr \<noteq> [] \<and> length fr \<le> 3 \<and> list_all is_digit fr \<and> pad3 fr = frac3 m"
proof -
  let ?u = "rstrip_zeros (((if neg then [0x2D] else []) @ show_nat (m div 1000)) @ [0x2E] @ frac3 m)"
  have "t = (if last ?u = 0x2E then ?u @ [0x30] else ?u)"
    using assms by (simp add: ser_decimal_def Let_def frac3_def split: if_splits)
  with strip_frac3 [of "(if neg then [0x2D] else []) @ show_nat (m div 1000)" m] show ?thesis
    by (simp only:)
qed

lemma digits_value_frac3: "digits_value (show_nat (m div 1000) @ frac3 m) = m"
proof -
  have "digits_value (show_nat (m div 1000) @ frac3 m)
      = ((m div 1000 * 10 + m mod 1000 div 100) * 10 + m mod 100 div 10) * 10 + m mod 10"
    using digits_value_show [of "m div 1000"] by (simp add: digits_value_def frac3_def)
  also have "\<dots> = m"
  proof -
    have a: "m mod 1000 div 100 = m div 100 mod 10" "m mod 100 div 10 = m div 10 mod 10"
      subgoal using mod_mult2_eq [of m 100 10] by simp
      subgoal using mod_mult2_eq [of m 10 10] by simp
      done
    have "m div 1000 * 10 + m div 100 mod 10 = m div 100"
      using div_mult_mod_eq [of "m div 100" 10] by (simp add: div_mult2_eq [symmetric])
    moreover have "m div 100 * 10 + m div 10 mod 10 = m div 10"
      using div_mult_mod_eq [of "m div 10" 10] by (simp add: div_mult2_eq [symmetric])
    ultimately show ?thesis unfolding a by simp
  qed
  finally show ?thesis .
qed

lemma parse_number_decimal:
  assumes "ser_decimal neg m = Some t" "stops r"
  shows "parse_number (t @ r) = Some (SFDec neg m, r)"
proof -
  let ?q = "show_nat (m div 1000)"
  have len: "length (show_nat m) \<le> 15" using assms(1) by (auto simp: ser_decimal_def split: if_splits)
  have "m < 10 ^ length (show_nat m)"
    using digits_value_less [OF show_nat_digits, of m] by simp
  also have "\<dots> \<le> 10 ^ 15" using len by (intro power_increasing) auto
  finally have "m div 1000 < 10 ^ 12" by simp
  then have q: "length ?q \<le> 12" using length_show_nat [of "m div 1000" 12] by simp
  obtain fr where t: "t = ((if neg then [0x2D] else []) @ ?q) @ [0x2E] @ fr"
    and fr: "fr \<noteq> []" "length fr \<le> 3" "list_all is_digit fr" "pad3 fr = frac3 m"
    using ser_decimal_shape [OF assms(1)] by blast
  have "num_loop False [] (?q @ 0x2E # fr @ r) = Some (True, ?q @ 0x2E # fr, r)"
    using q fr show_nat_digits [of "m div 1000"] assms(2)
    by (simp add: num_loop_digits num_loop_stop is_digit_def [of "0x2E"])
  moreover have "takeWhile (\<lambda>c. c \<noteq> 0x2E) (?q @ 0x2E # fr) = ?q"
    using show_nat_digits [of "m div 1000"]
    by (intro takeWhile_stop) (auto simp: list_all_iff is_digit_def)
  ultimately have body: "number_body n (?q @ 0x2E # fr @ r) = Some (SFDec n m, r)" for n
    using fr digits_value_frac3 [of m] by (simp add: number_body_def Let_def)
  have "is_digit (hd ?q)" "hd ?q \<noteq> 0x2D"
    using show_nat_digits [of "m div 1000"] by (cases ?q; auto simp: is_digit_def)+
  with body show ?thesis
    unfolding parse_number_def take_1_iff by (auto simp: t)
qed

subsubsection \<open>Strings, tokens, byte sequences, display strings\<close>

lemma string_loop_escape:
  "escape_string s = Some t \<Longrightarrow> string_loop out (t @ 0x22 # r) = Some (out @ s, r)"
proof (induction s arbitrary: t out)
  case Nil
  then show ?case by simp
next
  case (Cons c s)
  then obtain t' where t': "escape_string s = Some t'" "0x20 \<le> c" "c \<le> 0x7E"
    "t = (if c = 0x22 \<or> c = 0x5C then [0x5C, c] else [c]) @ t'"
    by (auto split: if_splits)
  with Cons.IH [of t' "out @ [c]"] show ?case by auto
qed

lemma parse_string_ser: "ser_string s = Some t \<Longrightarrow> parse_string (t @ r) = Some (SFStr s, r)"
  by (auto simp: ser_string_def parse_string_def expect_def string_loop_escape)

lemma parse_token_ser:
  assumes "ser_token s = Some t" "stops r"
  shows "parse_token (t @ r) = Some (SFToken s, r)"
proof -
  from assms(1) have s: "t = s" "s \<noteq> []" "token_start (hd s)" "list_all token_char s"
    by (auto simp: ser_token_def split: if_splits)
  have st: "u \<noteq> [] \<Longrightarrow> token_start (hd u) \<Longrightarrow>
      parse_token u = Some (SFToken (takeWhile token_char u), dropWhile token_char u)" for u
    by (cases u) (simp_all add: parse_token_def)
  have "\<not> token_char c" if "r = c # t'" for c t' using stops_not assms(2) that by blast
  with s show ?thesis by (simp add: st takeWhile_stop)
qed

lemma b64_val_alphabet_all: "list_all (\<lambda>i. b64_val (b64_alphabet ! i) = Some i) [0..<64]"
  by code_simp

lemma b64_val_alphabet [simp]: "i < 64 \<Longrightarrow> b64_val (b64_alphabet ! i) = Some i"
  using b64_val_alphabet_all by (simp add: list_all_iff)

lemma b64_val_pad [simp]: "b64_val 0x3D = None"
  by (simp add: b64_val_def)

lemma b64_alphabet_ne_pad [simp]: "i < 64 \<Longrightarrow> b64_alphabet ! i \<noteq> 0x3D"
  by (metis b64_val_alphabet b64_val_pad option.distinct(1))

lemma sextets:
  fixes a b c :: nat
  assumes "a < 256" "b < 256" "c < 256"
  shows "a div 4 < 64" "a mod 4 * 16 < 64" "a mod 4 * 16 + b div 16 < 64"
    "b mod 16 * 4 < 64" "b mod 16 * 4 + c div 64 < 64"
    and "a div 4 * 4 + (a mod 4 * 16 + b div 16) div 16 = a"
    "(a mod 4 * 16 + b div 16) mod 16 * 16 + (b mod 16 * 4 + c div 64) div 4 = b"
    "(b mod 16 * 4 + c div 64) mod 4 * 64 + c mod 64 = c"
    "(a mod 4 * 16 + b div 16) mod 16 * 16 + b mod 16 * 4 div 4 = b"
proof -
  have d: "a div 4 < 64" "b div 16 < 16" "c div 64 < 4" "a mod 4 < 4" "b mod 16 < 16"
    using assms by auto
  then show "a div 4 < 64" "a mod 4 * 16 < 64" "a mod 4 * 16 + b div 16 < 64"
    "b mod 16 * 4 < 64" "b mod 16 * 4 + c div 64 < 64"
    by linarith+
  have "(a mod 4 * 16 + b div 16) div 16 = a mod 4" "(a mod 4 * 16 + b div 16) mod 16 = b div 16"
    "(b mod 16 * 4 + c div 64) div 4 = b mod 16" "(b mod 16 * 4 + c div 64) mod 4 = c div 64"
    using d(2,3) by simp_all
  then show "a div 4 * 4 + (a mod 4 * 16 + b div 16) div 16 = a"
    "(a mod 4 * 16 + b div 16) mod 16 * 16 + (b mod 16 * 4 + c div 64) div 4 = b"
    "(b mod 16 * 4 + c div 64) mod 4 * 64 + c mod 64 = c"
    "(a mod 4 * 16 + b div 16) mod 16 * 16 + b mod 16 * 4 div 4 = b"
    by simp_all
qed

lemmas byte_sextets = sextets [OF unat_byte_less unat_byte_less unat_byte_less]

lemma b64decode_encode: "b64decode (b64encode bs) = Some bs"
proof (induction bs rule: b64encode.induct)
  case (2 a)
  then show ?case using byte_sextets(6) [of a 0]
    by (simp add: b64_vals_def byte_sextets del: of_nat_add of_nat_mult)
next
  case (3 a b)
  then show ?case using byte_sextets(6) [of a b] byte_sextets(9) [of a b]
    by (simp add: b64_vals_def byte_sextets del: of_nat_add of_nat_mult)
next
  case (4 a b c r)
  then show ?case
    using byte_sextets(6) [of a b] byte_sextets(7) [of a b c] byte_sextets(8) [of b c]
    by (simp add: b64_vals_def byte_sextets del: of_nat_add of_nat_mult)
qed simp

lemma b64encode_chars: "list_all base64_char (b64encode bs)"
proof (induction bs rule: b64encode.induct)
  case (4 a b c r)
  then show ?case by (simp add: base64_char_def byte_sextets)
qed (simp_all add: base64_char_def byte_sextets sextets(2) [of _ 0 0, OF unat_byte_less] )

lemma parse_byte_sequence_ser: "parse_byte_sequence (ser_byte_sequence b @ r) = Some (SFBytes b, r)"
proof -
  have "c \<noteq> 0x3A" if "base64_char c" for c
    using that by (auto simp: base64_char_def b64_val_def)
  then have "list_all (\<lambda>c. c \<noteq> 0x3A) (b64encode b)"
    using b64encode_chars [of b] by (auto simp: list_all_iff)
  from takeWhile_stop [OF this, of "0x3A # r"] show ?thesis
    using b64encode_chars [of b]
    by (simp add: parse_byte_sequence_def ser_byte_sequence_def expect_def Let_def b64decode_encode)
qed

lemma hex_digit_roundtrip [simp]: "n < 16 \<Longrightarrow> lc_hexdig (hex_digit n) = Some n"
  by (auto simp: lc_hexdig_def hex_digit_def is_digit_def)

lemma display_loop_byte:
  "display_loop raw (display_byte b @ r) = display_loop (raw @ [b]) r"
proof (cases "b = 0x25 \<or> b = 0x22 \<or> \<not> (0x20 \<le> b \<and> b \<le> 0x7E)")
  case True
  have "unat b div 16 < 16" using unat_byte_less [of b] by (simp del: unat_byte_less)
  moreover have "unat b div 16 * 16 + unat b mod 16 = unat b" by simp
  ultimately show ?thesis using True
    by (simp add: display_byte_def del: of_nat_add of_nat_mult)
next
  case False
  then have "unat b \<noteq> 0x25" "unat b \<noteq> 0x22" "0x20 \<le> unat b" "unat b \<le> 0x7E"
    by (auto simp: word_le_nat_alt word_unat_eq_iff)
  with False show ?thesis by (simp add: display_byte_def)
qed

lemma display_loop_bytes:
  "display_loop raw (concat (map display_byte bs) @ r) = display_loop (raw @ bs) r"
  by (induction bs arbitrary: raw) (simp_all add: display_loop_byte)

lemma parse_display_ser:
  "ser_display_string s = Some t \<Longrightarrow> parse_display_string (t @ r) = Some (SFDisplay s, r)"
  by (auto simp: ser_display_string_def parse_display_string_def expect_def display_loop_bytes
      utf8_decode_encode)

subsubsection \<open>Items, parameters, members\<close>

lemma parse_bare_item_hd:
  "s \<noteq> [] \<Longrightarrow> parse_bare_item s =
     (let c = hd s in
        if c = 0x2D \<or> is_digit c then parse_number s
        else if c = 0x22 then parse_string s
        else if token_start c then parse_token s
        else if c = 0x3A then parse_byte_sequence s
        else if c = 0x3F then parse_boolean s
        else if c = 0x40 then parse_date s
        else if c = 0x25 then parse_display_string s
        else None)"
  by (cases s) (simp_all add: parse_bare_item_def Let_def)

lemma show_nat_hd: "is_digit (hd (show_nat n))"
  using show_nat_digits [of n] by (cases "show_nat n") auto

lemma ser_integer_hd: "ser_integer v = Some t \<Longrightarrow> t \<noteq> [] \<and> (hd t = 0x2D \<or> is_digit (hd t))"
  using show_nat_hd by (auto simp: ser_integer_def show_int_def split: if_splits)

lemma ser_decimal_hd:
  assumes "ser_decimal neg m = Some t"
  shows "t \<noteq> [] \<and> (hd t = 0x2D \<or> is_digit (hd t))"
  using ser_decimal_shape [OF assms] show_nat_hd [of "m div 1000"] by (auto simp: hd_append)

lemma token_start_excl: "token_start c \<Longrightarrow> c \<noteq> 0x2D \<and> \<not> is_digit c \<and> c \<noteq> 0x22"
  by (auto simp: token_start_def is_alpha_def is_lcalpha_def is_digit_def)

lemma not_token_start [simp]:
  "\<not> token_start 0x3A" "\<not> token_start 0x3F" "\<not> token_start 0x40" "\<not> token_start 0x25"
  "\<not> is_digit 0x22" "\<not> is_digit 0x3A" "\<not> is_digit 0x3F" "\<not> is_digit 0x40" "\<not> is_digit 0x25"
  by (simp_all add: token_start_def is_alpha_def is_lcalpha_def is_digit_def)

lemma parse_bare_item_ser:
  assumes "ser_bare_item v = Some t" "stops r"
  shows "t \<noteq> []" "parse_bare_item (t @ r) = Some (v, r)"
proof -
  have "t \<noteq> [] \<and> parse_bare_item (t @ r) = Some (v, r)"
  proof (cases v)
    case (SFBool b)
    with assms show ?thesis
      by (auto simp: ser_bare_item_def parse_bare_item_def parse_boolean_def expect_def split: if_splits)
  next
    case (SFInt n)
    with assms ser_integer_hd [of n t] parse_number_show_int [of n t r] show ?thesis
      by (auto simp: ser_bare_item_def parse_bare_item_hd Let_def)
  next
    case (SFDec neg m)
    with assms ser_decimal_hd [of neg m t] parse_number_decimal [of neg m t r] show ?thesis
      by (auto simp: ser_bare_item_def parse_bare_item_hd Let_def)
  next
    case (SFStr x)
    with assms parse_string_ser [of x t r] show ?thesis
      by (auto simp: ser_bare_item_def parse_bare_item_hd Let_def ser_string_def)
  next
    case (SFToken x)
    with assms have x: "ser_token x = Some t" "t \<noteq> []" "token_start (hd t)"
      by (auto simp: ser_bare_item_def ser_token_def split: if_splits)
    with parse_token_ser [OF x(1) assms(2)] SFToken token_start_excl [OF x(3)] show ?thesis
      by (simp add: parse_bare_item_hd Let_def)
  next
    case (SFBytes x)
    with assms parse_byte_sequence_ser [of x r] show ?thesis
      by (auto simp: ser_bare_item_def parse_bare_item_hd Let_def ser_byte_sequence_def)
  next
    case (SFDate n)
    with assms obtain u where "ser_integer n = Some u" "t = 0x40 # u" by (auto simp: ser_bare_item_def)
    with parse_number_show_int [of n u r] SFDate assms(2) show ?thesis
      by (simp add: parse_bare_item_hd Let_def parse_date_def expect_def)
  next
    case (SFDisplay x)
    with assms parse_display_ser [of x t r] show ?thesis
      by (auto simp: ser_bare_item_def parse_bare_item_hd Let_def ser_display_string_def)
  qed
  then show "t \<noteq> []" "parse_bare_item (t @ r) = Some (v, r)" by auto
qed

lemma parse_bare_item_bad:
  assumes "s \<noteq> []" "hd s \<in> {0x20, 0x09, 0x28, 0x29, 0x2C, 0x3D, 0x3B}"
  shows "parse_bare_item s = None"
proof -
  have "\<not> is_digit (hd s)" "\<not> token_start (hd s)" "hd s \<notin> {0x2D, 0x22, 0x3A, 0x3F, 0x40, 0x25}"
    using assms(2) by (auto simp: is_digit_def token_start_def is_alpha_def is_lcalpha_def)
  then show ?thesis using assms(1) by (simp add: parse_bare_item_hd Let_def)
qed

lemma ser_bare_item_hd:
  assumes "ser_bare_item v = Some t"
  shows "hd t \<notin> {0x20, 0x09, 0x28, 0x29, 0x2C, 0x3D, 0x3B}"
  using parse_bare_item_bad [of t] parse_bare_item_ser [OF assms, of "[]"] by auto

lemma discard_sp_id: "s = [] \<or> hd s \<noteq> 0x20 \<Longrightarrow> discard_sp s = s"
  by (cases s) (auto simp: discard_sp_def)

lemma discard_ows_id: "s = [] \<or> hd s \<notin> {0x20, 0x09} \<Longrightarrow> discard_ows s = s"
  by (cases s) (auto simp: discard_ows_def)

lemma discard_ows_space: "discard_ows (0x20 # s) = discard_ows s"
  by (simp add: discard_ows_def)

lemma ser_key_hd: "ser_key k = Some t \<Longrightarrow> t \<noteq> [] \<and> hd t \<notin> {0x20, 0x09}"
  by (auto simp: ser_key_def key_start_def is_lcalpha_def split: if_splits)

lemma ser_parameters_stops: "ser_parameters ps = Some t \<Longrightarrow> ends r \<Longrightarrow> stops (t @ r)"
  by (cases "(ps)" rule: ser_parameters.cases) (auto intro: ends_stops split: option.splits)

lemma parameters_loop_ser:
  "ser_parameters ps = Some t \<Longrightarrow> ends r \<Longrightarrow> dict_ok (acc @ ps) \<Longrightarrow>
   parameters_loop acc (t @ r) = Some (acc @ ps, r)"
proof (induction ps arbitrary: acc t)
  case Nil
  then show ?case by (subst parameters_loop.simps) (auto simp: ends_def split: list.splits)
next
  case (Cons p ps)
  obtain key v where p: "p = (key, v)" by (cases p)
  from Cons.prems(1) obtain k tv t' where k: "ser_key key = Some k"
    and tv: "(if v = SFBool True then Some [] else map_option (\<lambda>t. [0x3D] @ t) (ser_bare_item v)) = Some tv"
    and t': "ser_parameters ps = Some t'" and t: "t = 0x3B # k @ tv @ t'"
    by (auto simp: p split: option.splits)
  have IH: "parameters_loop (acc @ [(key, v)]) (t' @ r) = Some (acc @ p # ps, r)"
    using Cons.IH [OF t' Cons.prems(2), of "acc @ [(key, v)]"] Cons.prems(3) by (simp add: p)
  have st: "stops (t' @ r)" by (rule ser_parameters_stops [OF t' Cons.prems(2)])
  moreover have "stops (tv @ t' @ r)" using st tv by (auto split: if_splits)
  ultimately have key: "parse_key (discard_sp (k @ tv @ t' @ r)) = Some (key, tv @ t' @ r)"
    using ser_key_hd [OF k] parse_key_ser [OF k] by (simp add: discard_sp_id)
  have set: "dict_set key v acc = acc @ [(key, v)]"
    using Cons.prems(3) by (intro dict_set_fresh) (auto simp: p)
  show ?case
  proof (cases "v = SFBool True")
    case True
    with tv have "tv = []" by simp
    moreover have "take 1 (t' @ r) \<noteq> [0x3D]"
      using t' Cons.prems(2) by (cases ps rule: ser_parameters.cases)
        (auto simp: ends_def split: list.splits option.splits)
    ultimately show ?thesis using key IH set True by (subst parameters_loop.simps) (simp add: t)
  next
    case False
    with tv obtain u where u: "ser_bare_item v = Some u" "tv = 0x3D # u" by auto
    with key IH set parse_bare_item_ser [OF u(1) st] show ?thesis
      by (subst parameters_loop.simps) (simp add: t)
  qed
qed

lemma parse_parameters_ser:
  "ser_parameters ps = Some t \<Longrightarrow> ends r \<Longrightarrow> dict_ok ps \<Longrightarrow> parse_parameters (t @ r) = Some (ps, r)"
  using parameters_loop_ser [of ps t r "[]"] by (simp add: parse_parameters_def)

lemma parse_item_at_ser:
  assumes "ser_item it = Some t" "ends r" "dict_ok (snd it)"
  shows "t \<noteq> []" "hd t \<notin> {0x20, 0x09, 0x28, 0x29, 0x2C, 0x3D, 0x3B}" "parse_item_at (t @ r) = Some (it, r)"
proof -
  from assms(1) obtain b p where b: "ser_bare_item (fst it) = Some b"
    and p: "ser_parameters (snd it) = Some p" and t: "t = b @ p"
    by (auto simp: ser_item_def split: option.splits)
  note bare = parse_bare_item_ser [OF b ser_parameters_stops [OF p assms(2)]]
  show "t \<noteq> []" "hd t \<notin> {0x20, 0x09, 0x28, 0x29, 0x2C, 0x3D, 0x3B}"
    using bare(1) ser_bare_item_hd [OF b] by (simp_all add: t)
  show "parse_item_at (t @ r) = Some (it, r)"
    using bare(2) parse_parameters_ser [OF p assms(2,3)] by (simp add: parse_item_at_def t)
qed


fun member_ok :: "sf_member \<Rightarrow> bool" where
  "member_ok (Item b ps) = dict_ok ps"
| "member_ok (Inner its ps) = (dict_ok ps \<and> list_all (\<lambda>it. dict_ok (snd it)) its)"

lemma inner_loop_space: "s \<noteq> [] \<Longrightarrow> inner_loop acc (0x20 # s) = inner_loop acc s"
  by (subst (1 2) inner_loop.simps) (simp add: discard_sp_def)

lemma inner_loop_close:
  "inner_loop acc (0x29 # s) = map_option (\<lambda>(ps, r). (Inner acc ps, r)) (parse_parameters s)"
  by (subst inner_loop.simps) (simp add: discard_sp_def)

lemma inner_loop_item:
  assumes "ser_item it = Some t" "dict_ok (snd it)" "take 1 s = [0x20] \<or> take 1 s = [0x29]"
  shows "inner_loop acc (t @ s) = inner_loop (acc @ [it]) s"
proof -
  have "ends s" using assms(3) by (cases s) auto
  note it = parse_item_at_ser [OF assms(1) this assms(2)]
  then have "discard_sp (t @ s) = t @ s" "take 1 (t @ s) \<noteq> [0x29]"
    unfolding take_1_iff by (auto intro: discard_sp_id)
  with it assms(3) show ?thesis by (subst inner_loop.simps) (simp add: Let_def)
qed

lemma inner_loop_ser:
  assumes "join_map [0x20] ser_item its = Some t" "list_all (\<lambda>it. dict_ok (snd it)) its"
  shows "inner_loop acc (t @ 0x29 # s)
     = map_option (\<lambda>(ps, r). (Inner (acc @ its) ps, r)) (parse_parameters s)"
  using assms
proof (induction its arbitrary: acc t rule: induct_list012)
  case 1
  then show ?case by (simp add: inner_loop_close)
next
  case (2 x)
  then show ?case by (simp add: inner_loop_item inner_loop_close)
next
  case (3 x y its)
  then obtain a b where a: "ser_item x = Some a" "join_map [0x20] ser_item (y # its) = Some b"
    "t = a @ 0x20 # b" by (auto split: option.splits)
  have "inner_loop acc (t @ 0x29 # s) = inner_loop (acc @ [x]) (b @ 0x29 # s)"
    using a 3(4) by (simp add: inner_loop_item inner_loop_space)
  with 3(2) [OF a(2)] 3(4) show ?case by simp
qed

lemma parse_member_ser:
  assumes "ser_item_or_inner_list m = Some t" "ends r" "member_ok m"
  shows "t \<noteq> []" "hd t \<notin> {0x20, 0x09}" "parse_item_or_inner_list (t @ r) = Some (m, r)"
proof -
  have "t \<noteq> [] \<and> hd t \<notin> {0x20, 0x09} \<and> parse_item_or_inner_list (t @ r) = Some (m, r)"
  proof (cases m)
    case (Item b ps)
    with parse_item_at_ser [of "(b, ps)" t r] assms show ?thesis
      unfolding parse_item_or_inner_list_def take_1_iff by (auto simp: ser_item_or_inner_list_def)
  next
    case (Inner its ps)
    with assms(1) obtain u p where u: "join_map [0x20] ser_item its = Some u"
      and p: "ser_parameters ps = Some p" and t: "t = 0x28 # u @ 0x29 # p"
      by (auto simp: ser_item_or_inner_list_def split: option.splits)
    with parse_parameters_ser [OF p assms(2)] inner_loop_ser [OF u, of "[]" "p @ r"] assms(3) Inner
    show ?thesis
      by (simp add: parse_item_or_inner_list_def parse_inner_list_def expect_def)
  qed
  then show "t \<noteq> []" "hd t \<notin> {0x20, 0x09}" "parse_item_or_inner_list (t @ r) = Some (m, r)" by auto
qed

lemma join_map_start:
  assumes "join_map sep f (x # xs) = Some t"
    "\<And>a. f x = Some a \<Longrightarrow> a \<noteq> [] \<and> hd a \<notin> {0x20, 0x09}"
  shows "t \<noteq> [] \<and> hd t \<notin> {0x20, 0x09}"
  using assms by (cases xs) (auto split: option.splits)

lemma list_loop_ser:
  assumes "serialize_list ms = Some t" "list_all member_ok ms"
  shows "list_loop acc t = Some (acc @ ms, [])"
  using assms unfolding serialize_list_def
proof (induction ms arbitrary: acc t rule: induct_list012)
  case 1
  then show ?case by (simp add: list_loop.simps)
next
  case (2 x)
  with parse_member_ser [of x t "[]"] show ?case
    by (subst list_loop.simps) (simp add: discard_ows_def)
next
  case (3 x y ms)
  then obtain a b where a: "ser_item_or_inner_list x = Some a"
    "join_map [0x2C, 0x20] ser_item_or_inner_list (y # ms) = Some b" "t = a @ 0x2C # 0x20 # b"
    by (auto split: option.splits)
  have b: "b \<noteq> [] \<and> hd b \<notin> {0x20, 0x09}"
    using join_map_start [OF a(2)] parse_member_ser [of y _ "[]"] 3(4) by auto
  then have "discard_ows (0x20 # b) = b" by (simp add: discard_ows_space discard_ows_id)
  with parse_member_ser [OF a(1), of "0x2C # 0x20 # b"] 3(4) b 3(2) [OF a(2), of "acc @ [x]"]
  show ?case
    by (subst list_loop.simps) (simp add: a(3) discard_ows_id expect_def)
qed

lemma dictionary_step:
  assumes "ser_member (k, m) = Some t" "member_ok m" "ends r"
  shows "t \<noteq> []" "hd t \<notin> {0x20, 0x09}"
    and "\<exists>s0. parse_key (t @ r) = Some (k, s0) \<and> parse_member s0 = Some (m, r)"
proof -
  from assms(1) obtain u v where u: "ser_key k = Some u" and t: "t = u @ v"
    and v: "(case m of Item (SFBool True) ps \<Rightarrow> ser_parameters ps
             | m \<Rightarrow> map_option (\<lambda>t. [0x3D] @ t) (ser_item_or_inner_list m)) = Some v"
    by (auto simp: ser_member_def split: option.splits sf_member.splits bare_item.splits bool.splits)
  show "t \<noteq> []" "hd t \<notin> {0x20, 0x09}" using ser_key_hd [OF u] by (simp_all add: t)
  have "stops (v @ r) \<and> parse_member (v @ r) = Some (m, r)"
  proof (cases "\<exists>ps. m = Item (SFBool True) ps")
    case True
    then obtain ps where m: "m = Item (SFBool True) ps" by blast
    with v have p: "ser_parameters ps = Some v" by simp
    have "take 1 (v @ r) \<noteq> [0x3D]"
      using p assms(3) by (cases ps rule: ser_parameters.cases)
        (auto simp: ends_def split: list.splits option.splits)
    with parse_parameters_ser [OF p assms(3)] assms(2) ser_parameters_stops [OF p assms(3)] m
    show ?thesis by (simp add: parse_member_def)
  next
    case False
    with v obtain w where w: "ser_item_or_inner_list m = Some w" "v = 0x3D # w"
      by (auto split: sf_member.splits bare_item.splits bool.splits)
    with parse_member_ser [OF w(1) assms(3,2)] show ?thesis by (simp add: parse_member_def)
  qed
  with parse_key_ser [OF u, of "v @ r"]
  show "\<exists>s0. parse_key (t @ r) = Some (k, s0) \<and> parse_member s0 = Some (m, r)"
    by (simp add: t)
qed

lemma dictionary_loop_ser:
  assumes "serialize_dictionary d = Some t" "list_all (member_ok \<circ> snd) d" "dict_ok (acc @ d)"
  shows "dictionary_loop acc t = Some (acc @ d, [])"
  using assms unfolding serialize_dictionary_def
proof (induction d arbitrary: acc t rule: induct_list012)
  case 1
  then show ?case by (simp add: dictionary_loop.simps)
next
  case (2 x)
  obtain k m where x: "x = (k, m)" by (cases x)
  with dictionary_step [of k m t "[]"] 2 dict_set_fresh [of k acc m] show ?case
    by (subst dictionary_loop.simps) (auto simp: discard_ows_def)
next
  case (3 x y d)
  obtain k m where x: "x = (k, m)" by (cases x)
  from 3(3) obtain a b where a: "ser_member x = Some a"
    "join_map [0x2C, 0x20] ser_member (y # d) = Some b" "t = a @ 0x2C # 0x20 # b"
    by (auto split: option.splits)
  have b: "b \<noteq> [] \<and> hd b \<notin> {0x20, 0x09}"
    using join_map_start [OF a(2)] dictionary_step(1,2) [of "fst y" "snd y" _ "[]"] 3(4) by auto
  then have ows: "discard_ows (0x20 # b) = b" by (simp add: discard_ows_space discard_ows_id)
  have "dict_set k m acc = acc @ [(k, m)]" using 3(5) by (intro dict_set_fresh) (auto simp: x)
  moreover obtain s0 where "parse_key t = Some (k, s0)" "parse_member s0 = Some (m, 0x2C # 0x20 # b)"
    using dictionary_step(3) [of k m a "0x2C # 0x20 # b"] 3(4) a by (auto simp: x)
  moreover have "t \<noteq> []" by (simp add: a(3))
  ultimately have "dictionary_loop acc t = dictionary_loop (acc @ [x]) b"
    using b ows by (subst dictionary_loop.simps) (simp add: discard_ows_id expect_def x)
  with 3(2) [OF a(2), of "acc @ [x]"] 3(4,5) show ?case by simp
qed

subsubsection \<open>Serialised text is ASCII\<close>

abbreviation ascii :: "pystr \<Rightarrow> bool" where
  "ascii s \<equiv> list_all (\<lambda>c. c < 128) s"

lemma list_all_mono: "list_all P xs \<Longrightarrow> (\<And>x. P x \<Longrightarrow> Q x) \<Longrightarrow> list_all Q xs"
  by (auto simp: list_all_iff)

lemma ascii_digits: "list_all is_digit s \<Longrightarrow> ascii s"
  by (erule list_all_mono) (simp add: is_digit_def)

lemma ascii_integer: "ser_integer v = Some t \<Longrightarrow> ascii t"
  using ascii_digits [OF show_nat_digits] by (auto simp: ser_integer_def show_int_def split: if_splits)

lemma ascii_decimal: "ser_decimal neg m = Some t \<Longrightarrow> ascii t"
  using ser_decimal_shape [of neg m t] ascii_digits [OF show_nat_digits] by (auto intro: ascii_digits)

lemma ascii_escape: "escape_string s = Some t \<Longrightarrow> ascii t"
  by (induction s arbitrary: t) (auto split: if_splits)

lemma ascii_key: "ser_key k = Some t \<Longrightarrow> ascii t"
  by (auto simp: ser_key_def key_char_def is_lcalpha_def is_digit_def split: if_splits
      elim!: list_all_mono)

lemma ascii_token: "ser_token k = Some t \<Longrightarrow> ascii t"
  by (auto simp: ser_token_def token_char_def is_alpha_def is_lcalpha_def is_digit_def split: if_splits
      elim!: list_all_mono)

lemma ascii_base64: "ascii (b64encode b)"
  by (rule list_all_mono [OF b64encode_chars]) (auto simp: base64_char_def b64_val_def split: if_splits)

lemma ascii_display_byte: "ascii (display_byte b)"
  using unat_byte_less [of b]
  by (auto simp: display_byte_def hex_digit_def word_le_nat_alt simp del: unat_byte_less)

lemma ascii_display: "ascii (concat (map display_byte bs))"
  by (induction bs) (simp_all add: ascii_display_byte)

lemma ascii_bare_item: "ser_bare_item v = Some t \<Longrightarrow> ascii t"
  by (cases v) (auto simp: ser_bare_item_def ser_string_def ser_byte_sequence_def ascii_base64
      ser_display_string_def ascii_display split: if_splits
      dest!: ascii_integer ascii_decimal ascii_escape ascii_token)

lemma ascii_parameters: "ser_parameters ps = Some t \<Longrightarrow> ascii t"
  by (induction ps arbitrary: t rule: ser_parameters.induct)
     (auto split: option.splits if_splits dest!: ascii_key ascii_bare_item)

lemma ascii_item: "ser_item it = Some t \<Longrightarrow> ascii t"
  by (auto simp: ser_item_def split: option.splits dest!: ascii_bare_item ascii_parameters)

lemma ascii_join:
  "join_map sep f xs = Some t \<Longrightarrow> ascii sep \<Longrightarrow> (\<And>x a. f x = Some a \<Longrightarrow> ascii a) \<Longrightarrow> ascii t"
  by (induction sep f xs arbitrary: t rule: join_map.induct) (auto split: option.splits)

lemma ascii_member: "ser_item_or_inner_list m = Some t \<Longrightarrow> ascii t"
  by (cases m) (auto simp: ser_item_or_inner_list_def split: option.splits
      dest!: ascii_join ascii_parameters intro: ascii_item)

lemma ascii_dict_member: "ser_member km = Some t \<Longrightarrow> ascii t"
  by (auto simp: ser_member_def split: option.splits sf_member.splits bare_item.splits bool.splits
      dest!: ascii_key ascii_parameters ascii_member)

lemma serialized_start:
  "serialize_list ms = Some t \<Longrightarrow> list_all member_ok ms \<Longrightarrow> t = [] \<or> hd t \<noteq> 0x20"
  "serialize_dictionary d = Some t \<Longrightarrow> list_all (member_ok \<circ> snd) d \<Longrightarrow> t = [] \<or> hd t \<noteq> 0x20"
  subgoal
    using join_map_start [of "[0x2C, 0x20]" ser_item_or_inner_list "hd ms" "tl ms" t]
      parse_member_ser [of "hd ms" _ "[]"] by (cases ms) (auto simp: serialize_list_def)
  subgoal
    using join_map_start [of "[0x2C, 0x20]" ser_member "hd d" "tl d" t]
      dictionary_step(1,2) [of "fst (hd d)" "snd (hd d)" _ "[]"]
    by (cases d) (auto simp: serialize_dictionary_def)
  done

lemma parse_serialize_dictionary:
  assumes "serialize_dictionary d = Some t" "dict_ok d" "list_all (member_ok \<circ> snd) d"
  shows "parse_dictionary t = Some d"
proof -
  have "ascii t"
    using assms(1) by (auto simp: serialize_dictionary_def elim!: ascii_join intro: ascii_dict_member)
  moreover have "discard_sp t = t" using serialized_start(2) [OF assms(1,3)] by (rule discard_sp_id)
  ultimately show ?thesis
    using dictionary_loop_ser [OF assms(1,3), of "[]"] assms(2)
    by (simp add: parse_dictionary_def parse_top_def to_text_def discard_sp_id)
qed

lemma parse_serialize_list:
  assumes "serialize_list ms = Some t" "list_all member_ok ms"
  shows "parse_list t = Some ms"
proof -
  have "ascii t" using assms(1) by (auto simp: serialize_list_def elim!: ascii_join intro: ascii_member)
  moreover have "discard_sp t = t" using serialized_start(1) [OF assms] by (rule discard_sp_id)
  ultimately show ?thesis
    using list_loop_ser [OF assms, of "[]"]
    by (simp add: parse_list_def parse_top_def to_text_def discard_sp_id)
qed



text \<open>
  A request's priority is always usable: the urgency is between 0 and 7 whatever the field
  holds, a field that does not parse gives the defaults, and a well-formed field gives exactly
  the urgency and the incremental flag it was written with.
\<close>

lemma priority_field:
  "0 \<le> fst (parse_priority_field s) \<and> fst (parse_priority_field s) \<le> 7
   \<and> (parse_dictionary s = None \<longrightarrow> parse_priority_field s = (3, False))
   \<and> (0 \<le> n \<and> n \<le> 7 \<and> serialize_dictionary [(str ''u'', Item (SFInt n) []), (str ''i'', Item (SFBool b) [])] = Some s
        \<longrightarrow> parse_priority_field s = (n, b))"
proof -
  have "parse_dictionary s = Some [(str ''u'', Item (SFInt n) []), (str ''i'', Item (SFBool b) [])]"
    if "serialize_dictionary [(str ''u'', Item (SFInt n) []), (str ''i'', Item (SFBool b) [])] = Some s"
    by (rule parse_serialize_dictionary [OF that]) simp_all
  then show ?thesis
    by (auto simp: parse_priority_field_def split: option.splits sf_member.splits bare_item.splits)
qed

end
