(* ===== verification/H2_Request.thy ===== *)
theory H2_Request
  imports H2_Frame
begin

text \<open>
  From a decoded HEADERS frame to a request: \<^verbatim>\<open>src/blackbull/server/parser.py\<close>, with the functions
  of Python's \<^verbatim>\<open>urllib.parse\<close> it uses (\<^verbatim>\<open>urlsplit\<close>, \<^verbatim>\<open>unquote\<close>) and the strict \<^verbatim>\<open>int()\<close> and
  \<^verbatim>\<open>bytes.decode(..., 'replace')\<close>. \<^verbatim>\<open>urlsplit\<close> also validates bracketed hosts and the Unicode
  normal form of the network location; these two table-driven checks are the parameter
  \<open>netloc_ok\<close>.
\<close>

subsection \<open>Python's text functions\<close>

text \<open>
  \<^verbatim>\<open>bytes.decode('utf-8', 'replace')\<close>: each maximal ill-formed prefix becomes one U+FFFD;
  \<open>utf8_bad\<close> is the length of that prefix.
\<close>

definition second_ok :: "nat \<Rightarrow> nat \<Rightarrow> bool" where
  "second_ok a b \<longleftrightarrow>
     (if a = 0xE0 then 0xA0 \<le> b \<and> b < 0xC0
      else if a = 0xED then 0x80 \<le> b \<and> b < 0xA0
      else if a = 0xF0 then 0x90 \<le> b \<and> b < 0xC0
      else if a = 0xF4 then 0x80 \<le> b \<and> b < 0x90
      else 0x80 \<le> b \<and> b < 0xC0)"

definition utf8_bad :: "bytes \<Rightarrow> nat" where
  "utf8_bad bs =
     (case bs of
        a # b # r \<Rightarrow>
          if unat a < 0xE0 \<or> unat a \<ge> 0xF5 \<or> \<not> second_ok (unat a) (unat b) then 1
          else if unat a < 0xF0 then 2
          else (case r of c # _ \<Rightarrow> if utf8_cont c then 3 else 2 | [] \<Rightarrow> 2)
      | _ \<Rightarrow> 1)"

function utf8_decode_replace :: "bytes \<Rightarrow> pystr" where
  "utf8_decode_replace bs =
     (if bs = [] then []
      else (case utf8_next bs of
          Some (n, r) \<Rightarrow> n # utf8_decode_replace r
        | None \<Rightarrow> 0xFFFD # utf8_decode_replace (drop (utf8_bad bs) bs)))"
  by pat_completeness auto
termination
proof (relation "measure length", goal_cases)
  case (2 bs)
  have "0 < utf8_bad bs" by (auto simp: utf8_bad_def split: list.splits)
  with 2 show ?case by (cases bs) auto
qed (auto dest: utf8_next_shorter)

declare utf8_decode_replace.simps [simp del]

definition hex_value :: "byte \<Rightarrow> nat option" where
  "hex_value b =
     (let c = unat b in
      if 0x30 \<le> c \<and> c \<le> 0x39 then Some (c - 0x30)
      else if 0x41 \<le> c \<and> c \<le> 0x46 then Some (c - 0x41 + 10)
      else if 0x61 \<le> c \<and> c \<le> 0x66 then Some (c - 0x61 + 10) else None)"

definition unquote_item :: "bytes \<Rightarrow> bytes" where
  "unquote_item item =
     (case item of
        a # b # r \<Rightarrow>
          (case (hex_value a, hex_value b) of
             (Some h, Some l) \<Rightarrow> word_of_nat (h * 16 + l) # r
           | _ \<Rightarrow> 0x25 # item)
      | _ \<Rightarrow> 0x25 # item)"

definition unquote_to_bytes :: "bytes \<Rightarrow> bytes" where
  "unquote_to_bytes bs =
     (case split_on 0x25 bs of
        [] \<Rightarrow> [] | first # bits \<Rightarrow> first @ concat (map unquote_item bits))"

text \<open>\<^verbatim>\<open>unquote\<close>: runs of ASCII are unquoted and decoded, other characters stay.\<close>

function unquote :: "pystr \<Rightarrow> pystr" where
  "unquote s =
     (if s = [] then []
      else if hd s < 128 then
        utf8_decode_replace (unquote_to_bytes (map word_of_nat (takeWhile (\<lambda>c. c < 128) s)))
        @ unquote (dropWhile (\<lambda>c. c < 128) s)
      else hd s # unquote (tl s))"
  by pat_completeness auto
termination
proof (relation "measure length", goal_cases)
  case (2 s)
  then show ?case using length_dropWhile_le [of "\<lambda>c. c < 128" "tl s"] by (cases s) auto
qed auto

declare unquote.simps [simp del]

definition scheme_char :: "nat \<Rightarrow> bool" where
  "scheme_char c \<longleftrightarrow>
     0x61 \<le> c \<and> c \<le> 0x7A \<or> 0x41 \<le> c \<and> c \<le> 0x5A \<or> 0x30 \<le> c \<and> c \<le> 0x39 \<or> c \<in> {0x2B, 0x2D, 0x2E}"

definition ascii_alpha :: "nat \<Rightarrow> bool" where
  "ascii_alpha c \<longleftrightarrow> 0x61 \<le> c \<and> c \<le> 0x7A \<or> 0x41 \<le> c \<and> c \<le> 0x5A"

text \<open>\<^verbatim>\<open>urlsplit\<close>: the path and the query; \<open>None\<close> is a \<^verbatim>\<open>ValueError\<close>.\<close>

definition strip_scheme :: "pystr \<Rightarrow> pystr" where
  "strip_scheme url =
     (let before = takeWhile (\<lambda>c. c \<noteq> 0x3A) url
      in if before \<noteq> url \<and> before \<noteq> [] \<and> ascii_alpha (hd url) \<and> list_all scheme_char before
         then drop (length before + 1) url else url)"

definition split_query :: "pystr \<Rightarrow> pystr \<times> pystr" where
  "split_query url =
     (let url = takeWhile (\<lambda>c. c \<noteq> 0x23) url;
          path = takeWhile (\<lambda>c. c \<noteq> 0x3F) url
      in (path, drop (length path + 1) url))"

definition urlsplit :: "(pystr \<Rightarrow> bool) \<Rightarrow> pystr \<Rightarrow> (pystr \<times> pystr) option" where
  "urlsplit netloc_ok url =
     (let url = dropWhile (\<lambda>c. c \<le> 0x20) url;
          url = filter (\<lambda>c. c \<notin> {0x09, 0x0D, 0x0A}) url;
          url = strip_scheme url
      in if take 2 url = [0x2F, 0x2F] then
           let netloc = takeWhile (\<lambda>c. c \<notin> {0x2F, 0x3F, 0x23}) (drop 2 url)
           in if (0x5B \<in> set netloc) \<noteq> (0x5D \<in> set netloc) then None
              else if netloc \<noteq> [] \<and> \<not> netloc_ok netloc then None
              else Some (split_query (drop (2 + length netloc) url))
         else Some (split_query url))"

text \<open>\<^verbatim>\<open>str.encode('utf-8')\<close> raises on surrogates.\<close>

definition split_h2_path ::
  "(pystr \<Rightarrow> bool) \<Rightarrow> pystr \<Rightarrow> h2_exn + pystr \<times> bytes \<times> bytes" where
  "split_h2_path netloc_ok raw =
     (case urlsplit netloc_ok raw of
        None \<Rightarrow> Inl ValueErr
      | Some (path, query) \<Rightarrow>
          let decoded = (if 0x25 \<in> set path then unquote path else path)
          in case (utf8_encode path, utf8_encode query) of
               (Some p, Some q) \<Rightarrow> Inr (decoded, p, q)
             | _ \<Rightarrow> Inl UnicodeErr)"


subsection \<open>Requests\<close>

datatype conn_type = HttpConn | WebsocketConn

text \<open>
  The fields of a \<^verbatim>\<open>Connection\<close> that \<^verbatim>\<open>parse_headers\<close> fills. \<open>extensions\<close> holds the priority
  (urgency, incremental) and the two window snapshots once the actor has attached them.
\<close>

record connection =
  c_type :: conn_type
  c_method :: pystr
  c_path :: pystr
  c_raw_path :: bytes
  c_query_string :: bytes
  c_headers :: fields
  c_scheme :: pystr
  c_extensions :: "((int \<times> bool) \<times> int \<times> int) option"

definition host_forbidden_bytes :: bytes where
  "host_forbidden_bytes = [0x2F, 0x3F, 0x23, 0x20, 0x09, 0x40]"

definition host_forbidden :: "bytes \<Rightarrow> bool" where
  "host_forbidden v \<longleftrightarrow> list_ex (\<lambda>b. b \<in> set host_forbidden_bytes) v"

definition strip_sp_tab :: "bytes \<Rightarrow> bytes" where
  "strip_sp_tab v =
     (let ws = (\<lambda>b. b = 0x20 \<or> b = 0x09) in rev (dropWhile ws (rev (dropWhile ws v))))"

text \<open>The header list for the request, or \<open>None\<close> with the frame marked malformed.\<close>

definition request_headers_with_host ::
  "bool \<Rightarrow> header_block \<Rightarrow> h2_exn + fields option \<times> header_block" where
  "request_headers_with_host require_present hb =
     (case dict_get (pseudo_headers hb) AUTHORITY of
        Some authority \<Rightarrow>
          (case utf8_encode authority of
             None \<Rightarrow> Inl UnicodeErr
           | Some v \<Rightarrow>
               if v = [] then Inr (None, mark_malformed EmptyAuthority hb)
               else if host_forbidden v then Inr (None, mark_malformed InvalidAuthority hb)
               else Inr (Some (filter (\<lambda>(k, _). k \<noteq> octets ''host'') (regular_headers hb)
                               @ [(octets ''host'', v)]), hb))
      | None \<Rightarrow>
          let hosts = map snd (filter (\<lambda>(k, _). k = octets ''host'') (regular_headers hb))
          in if length hosts > 1 then Inr (None, mark_malformed MultipleHost hb)
             else if hosts = [] then
               (if require_present then Inr (None, mark_malformed MissingHost hb)
                else Inr (Some (regular_headers hb), hb))
             else
               let v = strip_sp_tab (hd hosts)
               in if v = [] then Inr (None, mark_malformed EmptyHost hb)
                  else if host_forbidden v then Inr (None, mark_malformed InvalidHost hb)
                  else Inr (Some (regular_headers hb), hb))"

definition request_path ::
  "(pystr \<Rightarrow> bool) \<Rightarrow> header_block \<Rightarrow> h2_exn + pystr \<times> bytes \<times> bytes" where
  "request_path netloc_ok hb =
     (case dict_get (pseudo_headers hb) PATH of
        None \<Rightarrow> Inr ([], [], [])
      | Some p \<Rightarrow> if p = [] then Inr ([], [], []) else split_h2_path netloc_ok p)"

definition build_h2_connection ::
  "pystr \<Rightarrow> pystr \<times> bytes \<times> bytes \<Rightarrow> fields \<Rightarrow> pystr \<Rightarrow> connection" where
  "build_h2_connection m target hs sch =
     \<lparr>c_type = HttpConn, c_method = m, c_path = fst target, c_raw_path = fst (snd target),
      c_query_string = snd (snd target), c_headers = hs, c_scheme = sch, c_extensions = None\<rparr>"

definition ws_scheme :: "header_block \<Rightarrow> pystr" where
  "ws_scheme hb =
     (if (case dict_get (pseudo_headers hb) SCHEME of None \<Rightarrow> str ''https'' | Some s \<Rightarrow> s) = str ''https''
      then str ''wss'' else str ''ws'')"

definition parse_ws_connect ::
  "(pystr \<Rightarrow> bool) \<Rightarrow> header_block \<Rightarrow> h2_exn + connection option \<times> header_block" where
  "parse_ws_connect netloc_ok hb =
     andThen (request_path netloc_ok hb) (\<lambda>target.
     andThen (request_headers_with_host False hb) (\<lambda>(hs, hb').
       Inr (map_option (\<lambda>raw.
              (build_h2_connection (str ''CONNECT'') target raw (ws_scheme hb))\<lparr>c_type := WebsocketConn\<rparr>) hs,
            hb')))"

definition request_scheme :: "header_block \<Rightarrow> pystr" where
  "request_scheme hb =
     (case dict_get (pseudo_headers hb) SCHEME of
        None \<Rightarrow> str ''https'' | Some s \<Rightarrow> if s = [] then str ''https'' else s)"

definition parse_plain ::
  "(pystr \<Rightarrow> bool) \<Rightarrow> pystr \<Rightarrow> header_block \<Rightarrow> h2_exn + connection option \<times> header_block" where
  "parse_plain netloc_ok meth hb =
     andThen (request_path netloc_ok hb) (\<lambda>target.
     andThen (if meth = str ''CONNECT'' then Inr (Some (regular_headers hb), hb)
              else request_headers_with_host
                     (request_scheme hb = str ''http'' \<or> request_scheme hb = str ''https'') hb)
       (\<lambda>(hs, hb').
       Inr (map_option (\<lambda>raw.
              build_h2_connection (if meth = [] then str ''HEAD'' else meth) target raw
                (request_scheme hb)) hs,
            hb')))"

definition parse_headers ::
  "(pystr \<Rightarrow> bool) \<Rightarrow> header_block \<Rightarrow> h2_exn + connection option \<times> header_block" where
  "parse_headers netloc_ok hb =
     (let get = dict_get (pseudo_headers hb);
          bad = (\<lambda>r. Inr (None, mark_malformed r hb))
      in if malformed hb \<noteq> None then Inr (None, hb)
         else if get STATUS \<noteq> None then bad StatusInRequest
         else (case get METHOD of
             None \<Rightarrow> bad MissingMethod
           | Some meth \<Rightarrow>
               if meth \<noteq> str ''CONNECT'' \<and> get SCHEME = None then bad MissingScheme
               else if meth \<noteq> str ''CONNECT'' \<and> get PATH = None then bad MissingPath
               else if meth \<noteq> str ''CONNECT'' \<and> get PATH = Some [] then bad EmptyPath
               else if meth = str ''CONNECT'' \<and> get PROTOCOL = Some (str ''websocket'')
               then parse_ws_connect netloc_ok hb
               else parse_plain netloc_ok meth hb))"


subsection \<open>\<^verbatim>\<open>content-length\<close>\<close>

text \<open>
  \<^verbatim>\<open>int(b)\<close> on octets: surrounding white space, a sign, digits with single underscores between
  them, at most 4300 digits; \<open>None\<close> is a \<^verbatim>\<open>ValueError\<close>.
\<close>

definition strip_ws :: "bytes \<Rightarrow> bytes" where
  "strip_ws v =
     (let ws = (\<lambda>b. b \<in> {0x20, 0x09, 0x0A, 0x0B, 0x0C, 0x0D})
      in rev (dropWhile ws (rev (dropWhile ws v))))"

definition digit_byte :: "byte \<Rightarrow> bool" where
  "digit_byte b \<longleftrightarrow> 0x30 \<le> b \<and> b \<le> 0x39"

definition py_int :: "bytes \<Rightarrow> int option" where
  "py_int v =
     (let s = strip_ws v;
          neg = (take 1 s = [0x2D]);
          body = (if neg \<or> take 1 s = [0x2B] then drop 1 s else s);
          pieces = split_on 0x5F body;
          n = foldl (\<lambda>a b. a * 10 + (int (unat b) - 0x30)) 0 (concat pieces)
      in if list_all (\<lambda>p. p \<noteq> [] \<and> list_all digit_byte p) pieces \<and> length (concat pieces) \<le> 4300
         then Some (if neg then - n else n) else None)"

definition extract_content_length :: "fields \<Rightarrow> int option" where
  "extract_content_length hs =
     (case dict_get hs (octets ''content-length'') of
        None \<Rightarrow> None
      | Some v \<Rightarrow> (case py_int v of None \<Rightarrow> None | Some n \<Rightarrow> if n \<ge> 0 then Some n else None))"

subsection \<open>What an accepted request looks like\<close>

lemma malformed_host:
  "request_headers_with_host rp hb = Inr (r, hb') \<Longrightarrow> malformed hb = None \<Longrightarrow>
     r = None \<longleftrightarrow> malformed hb' \<noteq> None"
  by (auto simp: request_headers_with_host_def Let_def split: option.splits if_splits)

lemma malformed_plain:
  assumes "parse_plain nok meth hb = Inr (r, hb')" "malformed hb = None"
  shows "r = None \<longleftrightarrow> malformed hb' \<noteq> None"
proof -
  from assms(1) obtain rp hs where
    "(if meth = str ''CONNECT'' then Inr (Some (regular_headers hb), hb)
      else request_headers_with_host rp hb) = Inr (hs, hb')" "r = None \<longleftrightarrow> hs = None"
    by (auto simp: parse_plain_def andThen_eq_Inr_iff simp del: str_Cons)
  with assms(2) malformed_host [of rp hb hs hb'] show ?thesis by (auto split: if_splits simp del: str_Cons)
qed

lemma malformed_ws:
  "parse_ws_connect nok hb = Inr (r, hb') \<Longrightarrow> malformed hb = None \<Longrightarrow>
     r = None \<longleftrightarrow> malformed hb' \<noteq> None"
  by (auto simp: parse_ws_connect_def andThen_eq_Inr_iff split: option.splits dest!: malformed_host)

text \<open>
  The contract stated in the docstring of \<^verbatim>\<open>parse_headers\<close>: whenever it returns, it returns
  \<^verbatim>\<open>None\<close> if and only if the frame is marked malformed.
\<close>

lemma parse_headers_none_iff_malformed:
  assumes "parse_headers netloc_ok hb = Inr (r, hb')"
  shows "r = None \<longleftrightarrow> malformed hb' \<noteq> None"
  using assms malformed_plain malformed_ws
  by (auto simp: parse_headers_def Let_def split: option.splits if_splits simp del: str_Cons)

lemma strip_sp_tab_id: "\<not> host_forbidden v \<Longrightarrow> strip_sp_tab v = v"
proof -
  assume "\<not> host_forbidden v"
  then have "\<forall>b \<in> set v. \<not> (b = 0x20 \<or> b = 0x09)"
    by (auto simp: host_forbidden_def host_forbidden_bytes_def list_ex_iff)
  moreover have "dropWhile (\<lambda>b. b = 0x20 \<or> b = 0x09) w = w" if "set w = set v" for w :: bytes
    using calculation that by (cases w) auto
  ultimately show ?thesis by (simp add: strip_sp_tab_def)
qed

text \<open>The values of the \<^verbatim>\<open>host\<close> fields of a list.\<close>

definition host_values :: "fields \<Rightarrow> bytes list" where
  "host_values hs = map snd (filter (\<lambda>(k, _). k = octets ''host'') hs)"

lemma host_values_append: "host_values (xs @ ys) = host_values xs @ host_values ys"
  by (simp add: host_values_def)

lemma host_values_single: "host_values [(octets ''host'', v)] = [v]"
  by (simp add: host_values_def)

lemma host_values_filter: "host_values (filter (\<lambda>(k, _). k \<noteq> octets ''host'') hs) = []"
  by (auto simp: host_values_def filter_empty_conv)

lemma request_host:
  assumes "request_headers_with_host True hb = Inr (Some hs, hb')"
  shows "\<exists>v. host_values hs = [v] \<and> strip_sp_tab v \<noteq> [] \<and> \<not> host_forbidden (strip_sp_tab v)
      \<and> (\<forall>a. dict_get (pseudo_headers hb) AUTHORITY = Some a \<longrightarrow> utf8_encode a = Some v)"
proof (cases "dict_get (pseudo_headers hb) AUTHORITY")
  case None
  then have "\<not> 1 < length (host_values hs)" "host_values hs \<noteq> []"
    "strip_sp_tab (hd (host_values hs)) \<noteq> []" "\<not> host_forbidden (strip_sp_tab (hd (host_values hs)))"
    using assms
    by (auto simp: request_headers_with_host_def host_values_def Let_def simp del: octets_Cons
        split: if_splits)
  with None show ?thesis by (cases "host_values hs") auto
next
  case (Some a)
  with assms obtain v where "utf8_encode a = Some v" "v \<noteq> []" "\<not> host_forbidden v"
    "hs = filter (\<lambda>(k, _). k \<noteq> octets ''host'') (regular_headers hb) @ [(octets ''host'', v)]"
    by (auto simp: request_headers_with_host_def simp del: octets_Cons split: option.splits if_splits)
  with Some show ?thesis
    by (simp add: host_values_append host_values_filter host_values_single strip_sp_tab_id
        del: octets_Cons)
qed


text \<open>
  C29. One authority per request: an accepted \<^verbatim>\<open>http\<close> or \<^verbatim>\<open>https\<close> request other than CONNECT reaches
  the application with exactly one \<^verbatim>\<open>host\<close> field; its value is not empty, has no delimiter,
  white space or userinfo in it, and is the \<^verbatim>\<open>:authority\<close> whenever the peer sent one.
\<close>

theorem request_has_one_host:
  assumes "parse_headers netloc_ok hb = Inr (Some c, hb')"
    and "c_method c \<noteq> str ''CONNECT''" "c_scheme c = str ''http'' \<or> c_scheme c = str ''https''"
  shows "\<exists>v. host_values (c_headers c) = [v]
      \<and> strip_sp_tab v \<noteq> [] \<and> \<not> host_forbidden (strip_sp_tab v)
      \<and> (\<forall>a. dict_get (pseudo_headers hb) AUTHORITY = Some a \<longrightarrow> utf8_encode a = Some v)"
proof -
  have ws: "c_method c = str ''CONNECT''" if "parse_ws_connect netloc_ok hb = Inr (Some c, hb')"
    using that by (auto simp: parse_ws_connect_def andThen_eq_Inr_iff build_h2_connection_def
        simp del: str_Cons)
  from assms(1,2) ws obtain meth where "parse_plain netloc_ok meth hb = Inr (Some c, hb')"
    by (auto simp: parse_headers_def Let_def simp del: str_Cons split: option.splits if_splits)
  moreover have "str ''CONNECT'' \<noteq> []" by simp
  ultimately have "request_headers_with_host True hb = Inr (Some (c_headers c), hb')"
    using assms(2,3) by (auto simp: parse_plain_def andThen_eq_Inr_iff build_h2_connection_def
        simp del: str_Cons split: if_splits)
  then show ?thesis by (rule request_host)
qed

theorem request_has_one_host_witness:
  "\<exists>c hb'. parse_headers (\<lambda>n. True)
       (empty_block\<lparr>pseudo_headers := [(METHOD, str ''GET''), (SCHEME, str ''http''),
          (PATH, str ''/''), (AUTHORITY, str ''a'')],
        regular_headers := [(octets ''host'', octets ''b''), (octets ''x'', octets ''y'')]\<rparr>)
     = Inr (Some c, hb') \<and> host_values (c_headers c) = [octets ''a'']"
proof -
  let ?hb = "empty_block\<lparr>pseudo_headers := [(METHOD, str ''GET''), (SCHEME, str ''http''),
          (PATH, str ''/''), (AUTHORITY, str ''a'')],
        regular_headers := [(octets ''host'', octets ''b''), (octets ''x'', octets ''y'')]\<rparr>"
  let ?c = "build_h2_connection (str ''GET'') (str ''/'', octets ''/'', [])
      [(octets ''x'', octets ''y''), (octets ''host'', octets ''a'')] (str ''http'')"
  have 1: "parse_headers (\<lambda>n. True) ?hb = Inr (Some ?c, ?hb)"
    by (simp add: parse_headers_def parse_plain_def request_path_def split_h2_path_def urlsplit_def
        split_query_def request_scheme_def strip_scheme_def utf8_char_def request_headers_with_host_def host_forbidden_def
        host_forbidden_bytes_def empty_block_def)
  have "c_method ?c \<noteq> str ''CONNECT''" "c_scheme ?c = str ''http'' \<or> c_scheme ?c = str ''https''"
    by (simp_all add: build_h2_connection_def)
  from request_has_one_host [OF 1 this] 1 show ?thesis
    by (auto simp: empty_block_def utf8_char_def)
qed

subsection \<open>The request target\<close>

definition target_char :: "nat \<Rightarrow> bool" where
  "target_char c \<longleftrightarrow> 0x20 < c \<and> c \<noteq> 0x23 \<and> c \<noteq> 0x25 \<and> c \<noteq> 0x3F"

lemma filter_target: "list_all (\<lambda>c. 0x20 < c) xs \<Longrightarrow> filter (\<lambda>c. c \<notin> {0x09, 0x0D, 0x0A}) xs = xs"
  for xs :: pystr
  by (induction xs) auto

lemma takeWhile_all_stop: "list_all P xs \<Longrightarrow> \<not> P y \<Longrightarrow> takeWhile P (xs @ y # ys) = xs"
  by (induction xs) auto

lemma takeWhile_all: "list_all P xs \<Longrightarrow> takeWhile P xs = xs"
  by (induction xs) auto

lemma split_query_with:
  "list_all target_char p \<Longrightarrow> list_all (\<lambda>c. c \<noteq> 0x23) q \<Longrightarrow> split_query (p @ 0x3F # q) = (p, q)"
proof -
  assume p: "list_all target_char p" and q: "list_all (\<lambda>c. c \<noteq> 0x23) q"
  have "takeWhile (\<lambda>c. c \<noteq> 0x23) (p @ 0x3F # q) = p @ 0x3F # q"
    using p q by (intro takeWhile_all) (auto simp: list_all_iff target_char_def)
  moreover have "takeWhile (\<lambda>c. c \<noteq> 0x3F) (p @ 0x3F # q) = p"
    using p by (intro takeWhile_all_stop) (auto simp: list_all_iff target_char_def)
  ultimately show ?thesis by (simp only: split_query_def Let_def) simp
qed

lemma split_query_without: "list_all target_char p \<Longrightarrow> split_query p = (p, [])"
proof -
  assume p: "list_all target_char p"
  then have "takeWhile (\<lambda>c. c \<noteq> 0x23) p = p" "takeWhile (\<lambda>c. c \<noteq> 0x3F) p = p"
    by (auto simp: list_all_iff target_char_def intro!: takeWhile_all)
  then show ?thesis by (simp only: split_query_def Let_def) simp
qed

text \<open>A visible target that starts with a slash reaches the split as it is.\<close>

lemma urlsplit_visible:
  assumes "list_all (\<lambda>c. 0x20 < c) u" "take 1 u = [0x2F]"
  shows "dropWhile (\<lambda>c. c \<le> 0x20) u = u" "filter (\<lambda>c. c \<notin> {0x09, 0x0D, 0x0A}) u = u"
    "strip_scheme u = u"
  using assms filter_target [of u]
  by (cases u; auto simp: strip_scheme_def Let_def ascii_alpha_def)+

text \<open>
  A \<^verbatim>\<open>:path\<close> in origin form with a query splits where RFC 9113 says: for a path that starts
  with one slash and has no percent escape, the application sees the path, its raw octets and
  the raw octets of the query, each exactly as sent, and no error is possible.
\<close>

lemma h2_path_split:
  assumes "list_all target_char p" "take 1 p \<noteq> [0x2F]"
    and "list_all (\<lambda>c. 0x20 < c \<and> c \<noteq> 0x23) q"
    and "utf8_encode (0x2F # p) = Some pb" "utf8_encode q = Some qb"
  shows "split_h2_path netloc_ok (0x2F # p @ 0x3F # q) = Inr (0x2F # p, pb, qb)"
proof -
  let ?u = "0x2F # p @ 0x3F # q"
  have "list_all (\<lambda>c. 0x20 < c) ?u" "list_all target_char (0x2F # p)"
    using assms(1,3) by (auto simp: list_all_iff target_char_def)
  then have "urlsplit netloc_ok ?u = Some (0x2F # p, q)"
    using assms(2,3) urlsplit_visible [of ?u] split_query_with [of "0x2F # p" q]
    unfolding urlsplit_def by (cases p) (auto simp: list_all_iff)
  moreover have "0x25 \<notin> set (0x2F # p)" using assms(1) by (auto simp: list_all_iff target_char_def)
  ultimately show ?thesis using assms(4,5) by (simp add: split_h2_path_def)
qed

text \<open>
  A \<^verbatim>\<open>:path\<close> that starts with two slashes is taken for a network location, although origin
  form allows an empty first segment: everything up to the next delimiter is dropped and the
  request is routed by what follows.
\<close>

lemma h2_path_double_slash:
  assumes "list_all (\<lambda>c. target_char c \<and> c \<notin> {0x2F, 0x5B, 0x5D}) host" "list_all target_char p"
    and "utf8_encode (0x2F # p) = Some pb" "host = [] \<or> netloc_ok host"
  shows "split_h2_path netloc_ok ([0x2F, 0x2F] @ host @ 0x2F # p) = Inr (0x2F # p, pb, [])"
proof -
  let ?u = "[0x2F, 0x2F] @ host @ 0x2F # p"
  have u: "list_all (\<lambda>c. 0x20 < c) ?u" "list_all target_char (0x2F # p)"
    using assms(1,2) by (auto simp: list_all_iff target_char_def)
  have net: "takeWhile (\<lambda>c. c \<notin> {0x2F, 0x3F, 0x23}) (host @ 0x2F # p) = host"
    using assms(1) by (intro takeWhile_all_stop) (auto simp: list_all_iff target_char_def)
  have br: "0x5B \<notin> set host" "0x5D \<notin> set host" using assms(1) by (auto simp: list_all_iff)
  have "urlsplit netloc_ok ?u = Some (split_query (0x2F # p))"
    using urlsplit_visible [OF u(1)] net br assms(4) unfolding urlsplit_def by auto
  then have "urlsplit netloc_ok ?u = Some (0x2F # p, [])"
    using split_query_without [OF u(2)] by simp
  moreover have "0x25 \<notin> set (0x2F # p)" using assms(2) by (auto simp: list_all_iff target_char_def)
  ultimately show ?thesis using assms(3) by (simp add: split_h2_path_def)
qed

end
