(* ===== verification/H2_Recipient.thy ===== *)
theory H2_Recipient
  imports H2_Frame
begin

text \<open>
  Where the body of an HTTP/2 request waits for its reader: \<^verbatim>\<open>HTTP2Recipient\<close> of
  \<^verbatim>\<open>src/blackbull/server/recipient.py\<close> (request and push streams) and \<^verbatim>\<open>HTTP2WSReader\<close> of
  \<^verbatim>\<open>http2_ws.py\<close> (WebSocket streams). A read that would suspend returns \<open>Blocks\<close>; the credit a
  read hands to its callback is part of the result. The clock is an argument.
\<close>

datatype 'a wait = Blocks | Returns 'a

subsection \<open>\<^verbatim>\<open>HTTP2Recipient\<close>\<close>

definition EVENT_CAP_MULTIPLIER :: nat where
  "EVENT_CAP_MULTIPLIER = 16"

text \<open>A queue entry: a chunk with its end-of-stream flag, or the disconnect marker.\<close>

datatype queue_item = Chunk bytes bool | H2_DISCONNECT

record recipient =
  queue :: "(queue_item \<times> nat) list option"
  queue_depth :: nat
  credit_cb :: bool
  credit_budget :: int
  uncredited :: int
  end_of_stream_on_headers :: bool
  initial_consumed :: bool
  stream_done :: bool
  max_body :: nat
  min_rate :: real
  min_rate_grace :: real
  body_seen :: nat
  rate_window_start :: "real option"
  rate_window_seen :: nat
  was_window_stalled :: bool

definition new_recipient :: "nat \<Rightarrow> bool \<Rightarrow> int \<Rightarrow> nat \<Rightarrow> real \<Rightarrow> real \<Rightarrow> recipient" where
  "new_recipient depth cb budget maxb rate grace =
     \<lparr>queue = None, queue_depth = depth, credit_cb = cb, credit_budget = budget, uncredited = 0,
      end_of_stream_on_headers = False, initial_consumed = False, stream_done = False, max_body = maxb,
      min_rate = rate, min_rate_grace = grace, body_seen = 0, rate_window_start = None,
      rate_window_seen = 0, was_window_stalled = False\<rparr>"

definition the_queue :: "recipient \<Rightarrow> (queue_item \<times> nat) list" where
  "the_queue r = (case queue r of None \<Rightarrow> [] | Some q \<Rightarrow> q)"

text \<open>\<^verbatim>\<open>_ensure_queue().put_nowait(x)\<close>: \<open>None\<close> is \<^verbatim>\<open>QueueFull\<close>; a \<^verbatim>\<open>maxsize\<close> of 0 is no bound.\<close>

definition ensure_queue :: "recipient \<Rightarrow> recipient" where
  "ensure_queue r = r\<lparr>queue := Some (the_queue r)\<rparr>"

definition maxsize :: "recipient \<Rightarrow> nat" where
  "maxsize r = (if credit_cb r then 0 else queue_depth r)"

definition put_nowait :: "queue_item \<times> nat \<Rightarrow> recipient \<Rightarrow> bool \<times> recipient" where
  "put_nowait x r =
     (if 0 < maxsize r \<and> maxsize r \<le> length (the_queue r) then (False, ensure_queue r)
      else (True, r\<lparr>queue := Some (the_queue r @ [x])\<rparr>))"

definition mark_end_of_stream_on_headers :: "recipient \<Rightarrow> recipient" where
  "mark_end_of_stream_on_headers r = r\<lparr>end_of_stream_on_headers := True\<rparr>"

text \<open>\<^verbatim>\<open>make_item\<close> on a DATA frame given by its base and payload.\<close>

definition make_item :: "frame_base \<Rightarrow> bytes \<Rightarrow> queue_item" where
  "make_item base payload = Chunk payload (flag_set F_END_STREAM (fflags base))"

text \<open>The judgement of the body rate once the window is open.\<close>

definition rate_refuse :: "real \<Rightarrow> nat \<Rightarrow> real \<Rightarrow> recipient \<Rightarrow> bool \<times> recipient" where
  "rate_refuse now nbytes start r =
     (let r = r\<lparr>rate_window_seen := rate_window_seen r + nbytes\<rparr>;
          r = (if credit_cb r \<and> uncredited r + int nbytes \<ge> credit_budget r
               then r\<lparr>was_window_stalled := True\<rparr> else r);
          elapsed = now - start
      in if elapsed > min_rate_grace r then
           (if \<not> was_window_stalled r \<and> real (rate_window_seen r) < min_rate r * elapsed
            then (True, r)
            else (False, r\<lparr>rate_window_start := Some now, rate_window_seen := 0\<rparr>))
         else (False, r))"

definition body_limits_refuse :: "real \<Rightarrow> nat \<Rightarrow> recipient \<Rightarrow> bool \<times> recipient" where
  "body_limits_refuse now nbytes r =
     (let r = r\<lparr>body_seen := body_seen r + nbytes\<rparr>
      in if max_body r \<noteq> 0 \<and> body_seen r > max_body r then (True, r)
         else if min_rate r = 0 then (False, r)
         else (case rate_window_start r of
             None \<Rightarrow> (False, r\<lparr>rate_window_start := Some now, rate_window_seen := nbytes\<rparr>)
           | Some start \<Rightarrow> rate_refuse now nbytes start r))"

definition put_DATAFrame :: "real \<Rightarrow> frame_base \<Rightarrow> bytes \<Rightarrow> recipient \<Rightarrow> bool \<times> recipient" where
  "put_DATAFrame now base payload r =
     (let (refused, r) = body_limits_refuse now (length payload) r
      in if refused then (False, r)
         else if credit_cb r then
           let fc_len = flength base
           in if uncredited r + int fc_len > credit_budget r then (False, r)
              else if length (the_queue r) \<ge> queue_depth r * EVENT_CAP_MULTIPLIER
              then (False, ensure_queue r)
              else
                let (_, r) = put_nowait (make_item base payload, fc_len) r
                in (True, r\<lparr>uncredited := uncredited r + int fc_len\<rparr>)
         else put_nowait (make_item base payload, 0) r)"

definition put_end_of_stream :: "recipient \<Rightarrow> bool \<times> recipient" where
  "put_end_of_stream r = put_nowait (Chunk [] True, 0) r"

definition put_disconnect :: "recipient \<Rightarrow> recipient" where
  "put_disconnect r =
     (if queue r = None \<and> end_of_stream_on_headers r \<and> initial_consumed r then r
      else snd (put_nowait (H2_DISCONNECT, 0) r))"

definition take_uncredited :: "recipient \<Rightarrow> int \<times> recipient" where
  "take_uncredited r = (uncredited r, r\<lparr>uncredited := 0\<rparr>)"

text \<open>
  \<^verbatim>\<open>_take\<close>: the popped item and the credit replayed through the callback (0 for none).
\<close>

definition take_item :: "recipient \<Rightarrow> (queue_item \<times> nat) wait \<times> recipient" where
  "take_item r =
     (case the_queue r of
        [] \<Rightarrow> (Blocks, ensure_queue r)
      | (item, credit) # q \<Rightarrow>
          let r = r\<lparr>queue := Some q\<rparr>
          in if credit \<noteq> 0 \<and> credit_cb r then
               let r = r\<lparr>uncredited := uncredited r - int credit\<rparr>;
                   r = (if was_window_stalled r \<and> uncredited r < credit_budget r
                        then r\<lparr>was_window_stalled := False, rate_window_start := None,
                               rate_window_seen := 0\<rparr>
                        else r)
               in (Returns (item, credit), r)
             else (Returns (item, 0), r))"

datatype asgi_event = HttpRequest bytes bool | HttpDisconnect

text \<open>\<^verbatim>\<open>__call__\<close> and \<^verbatim>\<open>next_chunk\<close>; the second component of a result is the credit replayed.\<close>

definition recv_call :: "recipient \<Rightarrow> (asgi_event \<times> nat) wait \<times> recipient" where
  "recv_call r =
     (if end_of_stream_on_headers r \<and> \<not> initial_consumed r
      then (Returns (HttpRequest [] False, 0), r\<lparr>initial_consumed := True, stream_done := True\<rparr>)
      else (case take_item r of
          (Blocks, r) \<Rightarrow> (Blocks, r)
        | (Returns (H2_DISCONNECT, c), r) \<Rightarrow> (Returns (HttpDisconnect, c), r\<lparr>stream_done := True\<rparr>)
        | (Returns (Chunk payload end_stream, c), r) \<Rightarrow>
            (Returns (HttpRequest payload (\<not> end_stream), c),
             if end_stream then r\<lparr>stream_done := True\<rparr> else r)))"

datatype chunk_result = BodyChunk bytes | EndOfBody | ClientDisconnected

definition next_chunk :: "recipient \<Rightarrow> (chunk_result \<times> nat) wait \<times> recipient" where
  "next_chunk r =
     (if end_of_stream_on_headers r \<and> \<not> initial_consumed r
      then (Returns (EndOfBody, 0), r\<lparr>initial_consumed := True, stream_done := True\<rparr>)
      else if stream_done r then (Returns (EndOfBody, 0), r)
      else (case take_item r of
          (Blocks, r) \<Rightarrow> (Blocks, r)
        | (Returns (H2_DISCONNECT, c), r) \<Rightarrow> (Returns (ClientDisconnected, c), r\<lparr>stream_done := True\<rparr>)
        | (Returns (Chunk payload end_stream, c), r) \<Rightarrow>
            (Returns (BodyChunk payload, c), if end_stream then r\<lparr>stream_done := True\<rparr> else r)))"


subsection \<open>\<^verbatim>\<open>HTTP2WSReader\<close>\<close>

definition DEFAULT_MAX_BUFFER :: nat where
  "DEFAULT_MAX_BUFFER = 1024 * 1024"

record ws_reader =
  buffer :: bytes
  eof :: bool
  max_buffer :: nat
  has_credit_cb :: bool
  pending_credit :: nat

definition new_ws_reader :: "nat \<Rightarrow> bool \<Rightarrow> ws_reader" where
  "new_ws_reader maxb cb =
     \<lparr>buffer = [], eof = False, max_buffer = maxb, has_credit_cb = cb, pending_credit = 0\<rparr>"

definition ws_put_DATAFrame :: "frame_base \<Rightarrow> bytes \<Rightarrow> ws_reader \<Rightarrow> bool \<times> ws_reader" where
  "ws_put_DATAFrame base payload w =
     (let w = w\<lparr>buffer := buffer w @ payload\<rparr>;
          w = (if flag_set F_END_STREAM (fflags base) then w\<lparr>eof := True\<rparr> else w)
      in if length (buffer w) > max_buffer w
         then (False, w\<lparr>pending_credit := pending_credit w + length payload\<rparr>)
         else (True, w))"

definition ws_put_disconnect :: "ws_reader \<Rightarrow> ws_reader" where
  "ws_put_disconnect w = w\<lparr>eof := True\<rparr>"

text \<open>
  \<^verbatim>\<open>readexactly\<close>: \<open>Inl\<close> is \<^verbatim>\<open>IncompleteReadError\<close> with the partial bytes; \<open>Inr\<close> has the bytes and
  the credit replayed.
\<close>

definition readexactly :: "nat \<Rightarrow> ws_reader \<Rightarrow> (bytes + bytes \<times> nat) wait \<times> ws_reader" where
  "readexactly n w =
     (if length (buffer w) < n then
        (if eof w then (Returns (Inl (buffer w)), w) else (Blocks, w))
      else
        let res = take n (buffer w); w = w\<lparr>buffer := drop n (buffer w)\<rparr>
        in if pending_credit w > 0 \<and> length (buffer w) \<le> max_buffer w \<and> has_credit_cb w
           then (Returns (Inr (res, pending_credit w)), w\<lparr>pending_credit := 0\<rparr>)
           else (Returns (Inr (res, 0)), w))"


subsection \<open>Flow control never loses or invents credit\<close>

text \<open>
  The operations between the creation and the release of a recipient, with what an observer of
  the connection would record: the octets debited by accepted frames, the octets credited back,
  the chunks accepted and the chunks handed to the application.
\<close>

datatype recipient_op =
    PutData real frame_base bytes
  | PutEnd
  | PutDisconnect
  | Call
  | Next

record rtrace =
  rcp :: recipient
  received :: int
  replayed :: int
  accepted :: "bytes list"
  delivered :: "bytes list"

fun chunk_of :: "asgi_event \<Rightarrow> bytes list" where
  "chunk_of (HttpRequest b _) = [b]"
| "chunk_of HttpDisconnect = []"

fun body_of :: "chunk_result \<Rightarrow> bytes list" where
  "body_of (BodyChunk b) = [b]"
| "body_of _ = []"

definition synthesized :: "recipient \<Rightarrow> bool" where
  "synthesized r \<longleftrightarrow> end_of_stream_on_headers r \<and> \<not> initial_consumed r"

definition rstep :: "rtrace \<Rightarrow> recipient_op \<Rightarrow> rtrace" where
  "rstep t op =
     (case op of
        PutData now base payload \<Rightarrow>
          (let (ok, r) = put_DATAFrame now base payload (rcp t)
           in if ok then t\<lparr>rcp := r, received := received t + int (flength base),
                            accepted := accepted t @ [payload]\<rparr>
              else t\<lparr>rcp := r\<rparr>)
      | PutEnd \<Rightarrow>
          (let (ok, r) = put_end_of_stream (rcp t)
           in if ok then t\<lparr>rcp := r, accepted := accepted t @ [[]]\<rparr> else t\<lparr>rcp := r\<rparr>)
      | PutDisconnect \<Rightarrow> t\<lparr>rcp := put_disconnect (rcp t)\<rparr>
      | Call \<Rightarrow>
          (case recv_call (rcp t) of
             (Blocks, r) \<Rightarrow> t\<lparr>rcp := r\<rparr>
           | (Returns (e, c), r) \<Rightarrow>
               t\<lparr>rcp := r, replayed := replayed t + int c,
                  delivered := delivered t @ (if synthesized (rcp t) then [] else chunk_of e)\<rparr>)
      | Next \<Rightarrow>
          (case next_chunk (rcp t) of
             (Blocks, r) \<Rightarrow> t\<lparr>rcp := r\<rparr>
           | (Returns (e, c), r) \<Rightarrow>
               t\<lparr>rcp := r, replayed := replayed t + int c, delivered := delivered t @ body_of e\<rparr>))"

fun chunks :: "(queue_item \<times> nat) list \<Rightarrow> bytes list" where
  "chunks [] = []"
| "chunks ((Chunk b e, c) # q) = b # chunks q"
| "chunks ((H2_DISCONNECT, c) # q) = chunks q"

lemma chunks_append [simp]: "chunks (p @ q) = chunks p @ chunks q"
  by (induction p rule: chunks.induct) auto

definition credit_sum :: "(queue_item \<times> nat) list \<Rightarrow> int" where
  "credit_sum q = int (sum_list (map snd q))"

lemma credit_sum_simps [simp]:
  "credit_sum [] = 0" "credit_sum (x # q) = int (snd x) + credit_sum q"
  "credit_sum (p @ q) = credit_sum p + credit_sum q" "0 \<le> credit_sum q"
  by (simp_all add: credit_sum_def)

definition rinv :: "rtrace \<Rightarrow> bool" where
  "rinv t \<longleftrightarrow>
     credit_cb (rcp t)
     \<and> uncredited (rcp t) = credit_sum (the_queue (rcp t))
     \<and> uncredited (rcp t) \<le> credit_budget (rcp t)
     \<and> received t = replayed t + uncredited (rcp t)
     \<and> accepted t = delivered t @ chunks (the_queue (rcp t))"

lemma the_queue_Some [simp]: "queue r = Some q \<Longrightarrow> the_queue r = q"
  by (simp add: the_queue_def)

lemma the_queue_upd [simp]: "the_queue (r\<lparr>queue := Some q\<rparr>) = q"
  by (simp add: the_queue_def)

text \<open>Changes of the recipient that leave queue, balance and budget alone.\<close>

definition same_flow :: "recipient \<Rightarrow> recipient \<Rightarrow> bool" where
  "same_flow r r' \<longleftrightarrow> the_queue r' = the_queue r \<and> credit_cb r' = credit_cb r
     \<and> uncredited r' = uncredited r \<and> credit_budget r' = credit_budget r"

lemma same_flow_refl [simp]: "same_flow r r"
  by (simp add: same_flow_def)

lemma rinv_same_flow: "same_flow r r' \<Longrightarrow> rinv (t\<lparr>rcp := r\<rparr>) \<Longrightarrow> rinv (t\<lparr>rcp := r'\<rparr>)"
  by (simp add: same_flow_def rinv_def)

lemma body_limits_same_flow: "body_limits_refuse now n r = (b, r') \<Longrightarrow> same_flow r r'"
  by (auto simp: body_limits_refuse_def rate_refuse_def same_flow_def the_queue_def Let_def
      split: if_splits option.splits)

lemma ensure_queue_same_flow [simp]: "same_flow r (ensure_queue r)"
  by (simp add: same_flow_def ensure_queue_def)

lemma put_data_cases:
  assumes "put_DATAFrame now base payload r = (b, r')" "credit_cb r"
  obtains (refused) "\<not> b" "same_flow r r'"
  | (queued) "b" "the_queue r' = the_queue r @ [(make_item base payload, flength base)]"
    "credit_cb r'" "uncredited r' = uncredited r + int (flength base)"
    "credit_budget r' = credit_budget r" "uncredited r' \<le> credit_budget r'"
proof -
  obtain b0 r0 where 0: "body_limits_refuse now (length payload) r = (b0, r0)" by fastforce
  note sf = body_limits_same_flow [OF 0]
  show thesis
  proof (cases b)
    case False
    then have "same_flow r r'"
      using assms 0 sf
      by (auto simp: put_DATAFrame_def Let_def same_flow_def ensure_queue_def put_nowait_def maxsize_def
          split: if_splits)
    with False refused show thesis by blast
  next
    case True
    with assms 0 sf show thesis
      by (intro queued)
         (auto simp: put_DATAFrame_def Let_def same_flow_def put_nowait_def maxsize_def the_queue_def
          split: if_splits)
  qed
qed

lemma put_nowait_credit [simp]:
  "credit_cb r \<Longrightarrow> put_nowait x r = (True, r\<lparr>queue := Some (the_queue r @ [x])\<rparr>)"
  by (simp add: put_nowait_def maxsize_def)

lemma take_item_cases:
  assumes "take_item r = (w, r')" "credit_cb r"
  obtains (blocks) "w = Blocks" "the_queue r = []" "same_flow r r'"
  | (item) x c q where "w = Returns (x, c)" "the_queue r = (x, c) # q" "the_queue r' = q"
    "credit_cb r'" "uncredited r' = uncredited r - int c" "credit_budget r' = credit_budget r"
proof (cases "the_queue r")
  case Nil
  with assms blocks show thesis by (auto simp: take_item_def)
next
  case (Cons e q)
  obtain x c where e: "e = (x, c)" by fastforce
  have "w = Returns (x, c)" "the_queue r' = q" "credit_cb r'"
    "uncredited r' = uncredited r - int c" "credit_budget r' = credit_budget r"
    using assms Cons e by (auto simp: take_item_def Let_def the_queue_def split: if_splits)
  with item Cons e show thesis by blast
qed

text \<open>
  What both readers have in common: a result is the first queued item with its credit (a disconnect
  has no chunk), or no item at all.
\<close>

definition reads :: "recipient \<Rightarrow> bytes list \<Rightarrow> nat \<Rightarrow> recipient \<Rightarrow> bool" where
  "reads r out c r' \<longleftrightarrow>
     same_flow r r' \<and> out = [] \<and> c = 0
     \<or> (\<exists>x q. the_queue r = (x, c) # q \<and> out = chunks [(x, c)] \<and> the_queue r' = q \<and> credit_cb r'
          \<and> uncredited r' = uncredited r - int c \<and> credit_budget r' = credit_budget r)"

lemma same_flow_stream_done [simp]:
  "the_queue (r\<lparr>stream_done := b\<rparr>) = the_queue r"
  "the_queue (r\<lparr>initial_consumed := a\<rparr>) = the_queue r"
  by (simp_all add: the_queue_def)

lemma wait_result_cases [case_names 1 2]:
  obtains r where "w = (Blocks, r)" | e c r where "w = (Returns (e, c), r)"
  by (cases w) (metis surj_pair wait.exhaust)

lemma recv_call_reads:
  assumes "credit_cb r" "recv_call r = (Returns (e, c), r')"
  shows "reads r (if synthesized r then [] else chunk_of e) c r'"
proof (cases "synthesized r")
  case True
  with assms show ?thesis by (auto simp: recv_call_def synthesized_def reads_def same_flow_def)
next
  case False
  obtain w r0 where t: "take_item r = (w, r0)" by fastforce
  from t assms(1) show ?thesis
    by (cases rule: take_item_cases)
       (use assms(2) False t in \<open>auto simp: recv_call_def synthesized_def reads_def
          split: queue_item.splits if_splits\<close>)
qed

lemma next_chunk_reads:
  assumes "credit_cb r" "next_chunk r = (Returns (e, c), r')"
  shows "reads r (body_of e) c r'"
proof (cases "synthesized r \<or> stream_done r")
  case True
  with assms show ?thesis by (auto simp: next_chunk_def synthesized_def reads_def same_flow_def split: if_splits)
next
  case False
  obtain w r0 where t: "take_item r = (w, r0)" by fastforce
  from t assms(1) show ?thesis
    by (cases rule: take_item_cases)
       (use assms(2) False t in \<open>auto simp: next_chunk_def synthesized_def reads_def
          split: queue_item.splits if_splits\<close>)
qed

lemma blocked_same_flow:
  assumes "credit_cb r"
  shows "recv_call r = (Blocks, r') \<Longrightarrow> same_flow r r'"
    and "next_chunk r = (Blocks, r') \<Longrightarrow> same_flow r r'"
proof -
  obtain w r0 where t: "take_item r = (w, r0)" by fastforce
  from t assms show "recv_call r = (Blocks, r') \<Longrightarrow> same_flow r r'"
    by (cases rule: take_item_cases)
       (use t in \<open>auto simp: recv_call_def split: queue_item.splits if_splits\<close>)
  from t assms show "next_chunk r = (Blocks, r') \<Longrightarrow> same_flow r r'"
    by (cases rule: take_item_cases)
       (use t in \<open>auto simp: next_chunk_def split: queue_item.splits if_splits\<close>)
qed

lemma rinv_reads:
  assumes "rinv t" "reads (rcp t) out c r'"
  shows "rinv (t\<lparr>rcp := r', replayed := replayed t + int c, delivered := delivered t @ out\<rparr>)"
proof -
  have "chunks [(x, c)] @ chunks q = chunks ((x, c) # q)" for x q
    by (cases x) auto
  with assms show ?thesis
    by (auto simp: rinv_def reads_def same_flow_def simp del: chunks.simps)
qed

lemma rstep_rinv:
  assumes "rinv t"
  shows "rinv (rstep t op)"
proof (cases op)
  case (PutData now base payload)
  obtain b r where p: "put_DATAFrame now base payload (rcp t) = (b, r)" by fastforce
  from assms have "credit_cb (rcp t)" by (simp add: rinv_def)
  with p show ?thesis
    by (cases rule: put_data_cases)
       (use assms p in \<open>auto simp: PutData rstep_def rinv_def same_flow_def make_item_def\<close>)
next
  case Call
  from assms have c: "credit_cb (rcp t)" by (simp add: rinv_def)
  show ?thesis
  proof (cases "recv_call (rcp t)" rule: wait_result_cases)
    case (1 r)
    with assms blocked_same_flow(1) [OF c] rinv_same_flow [of "rcp t" r t] show ?thesis
      by (simp add: rstep_def Call)
  next
    case (2 e c' r)
    with assms rinv_reads recv_call_reads [OF c] show ?thesis by (simp add: rstep_def Call)
  qed
next
  case Next
  from assms have c: "credit_cb (rcp t)" by (simp add: rinv_def)
  show ?thesis
  proof (cases "next_chunk (rcp t)" rule: wait_result_cases)
    case (1 r)
    with assms blocked_same_flow(2) [OF c] rinv_same_flow [of "rcp t" r t] show ?thesis
      by (simp add: rstep_def Next)
  next
    case (2 e c' r)
    with assms rinv_reads next_chunk_reads [OF c] show ?thesis by (simp add: rstep_def Next)
  qed
qed (use assms in \<open>auto simp: rstep_def rinv_def put_end_of_stream_def put_disconnect_def\<close>)

interpretation rq: invariant_machine rstep rinv "\<lambda>_. True"
  by unfold_locales (rule rstep_rinv)

definition fresh_trace :: "recipient \<Rightarrow> rtrace" where
  "fresh_trace r = \<lparr>rcp = r, received = 0, replayed = 0, accepted = [], delivered = []\<rparr>"

definition h2_stream_recipient :: "nat \<Rightarrow> nat \<Rightarrow> nat \<Rightarrow> real \<Rightarrow> real \<Rightarrow> recipient" where
  "h2_stream_recipient depth budget body rate grace =
     new_recipient depth True (int budget) body rate grace"

lemma rinv_fresh: "rinv (fresh_trace (h2_stream_recipient d b mb r g))"
  by (simp add: rinv_def fresh_trace_def h2_stream_recipient_def new_recipient_def the_queue_def)

text \<open>
  C24. A stream's \<^verbatim>\<open>HTTP2Recipient\<close> in credit mode keeps exact flow-control books under every
  interleaving of arriving DATA frames, end-of-stream marks, disconnects and reads by the
  application: the octets of accepted frames are those already credited back plus those of the
  queue (what \<^verbatim>\<open>take_uncredited\<close> would release), the outstanding amount is never negative and never exceeds the advertised budget, and
  the application is handed the accepted chunks in order, none lost or repeated.
\<close>

theorem recipient_credit_exact:
  "let t = foldl rstep (fresh_trace (h2_stream_recipient depth budget body rate grace)) ops
   in received t = replayed t + fst (take_uncredited (rcp t))
      \<and> 0 \<le> uncredited (rcp t) \<and> uncredited (rcp t) \<le> credit_budget (rcp t)
      \<and> uncredited (rcp t) = credit_sum (the_queue (rcp t))
      \<and> accepted t = delivered t @ chunks (the_queue (rcp t))"
  using rq.run_inv [OF rinv_fresh [of depth budget body rate grace], of ops] by (simp add: Let_def rinv_def list_all_iff take_uncredited_def)

text \<open>The same operations keep the body below its cap.\<close>

definition body_octets :: "bytes list \<Rightarrow> nat" where
  "body_octets bs = sum_list (map length bs)"

definition binv :: "rtrace \<Rightarrow> bool" where
  "binv t \<longleftrightarrow> body_octets (accepted t) \<le> body_seen (rcp t)
     \<and> (max_body (rcp t) \<noteq> 0 \<longrightarrow> body_octets (accepted t) \<le> max_body (rcp t))"

definition same_body :: "recipient \<Rightarrow> recipient \<Rightarrow> bool" where
  "same_body r r' \<longleftrightarrow> body_seen r' = body_seen r \<and> max_body r' = max_body r"

lemma same_body_simps [simp]:
  "same_body r r" "same_body r (ensure_queue r)" "same_body r (snd (put_nowait x r))"
  "same_body r (put_disconnect r)" "same_body r (snd (put_end_of_stream r))"
  by (simp_all add: same_body_def ensure_queue_def put_nowait_def put_disconnect_def
      put_end_of_stream_def)

lemma take_item_same_body: "take_item r = (w, r') \<Longrightarrow> same_body r r'"
  by (auto simp: take_item_def same_body_def ensure_queue_def Let_def split: list.splits if_splits)

lemma readers_same_body:
  "same_body r (snd (recv_call r))" "same_body r (snd (next_chunk r))"
proof -
  obtain w r' where t: "take_item r = (w, r')" by fastforce
  with take_item_same_body [OF t]
  show "same_body r (snd (recv_call r))" "same_body r (snd (next_chunk r))"
    by (auto simp: recv_call_def next_chunk_def same_body_def split: wait.splits queue_item.splits)
qed

lemma body_limits_seen:
  assumes "body_limits_refuse now n r = (b, r')"
  shows "body_seen r' = body_seen r + n" "max_body r' = max_body r"
    "\<not> b \<Longrightarrow> max_body r \<noteq> 0 \<Longrightarrow> body_seen r + n \<le> max_body r"
  using assms
  by (auto simp: body_limits_refuse_def rate_refuse_def Let_def split: if_splits option.splits)

lemma put_data_body:
  assumes "put_DATAFrame now base payload r = (b, r')"
  shows "body_seen r' = body_seen r + length payload" "max_body r' = max_body r"
    "b \<Longrightarrow> max_body r \<noteq> 0 \<Longrightarrow> body_seen r + length payload \<le> max_body r"
proof -
  obtain b0 r0 where 0: "body_limits_refuse now (length payload) r = (b0, r0)" by fastforce
  note bl = body_limits_seen [OF 0]
  show "body_seen r' = body_seen r + length payload" "max_body r' = max_body r"
    using assms 0 bl(1,2)
    by (auto simp: put_DATAFrame_def put_nowait_def ensure_queue_def Let_def split: if_splits)
  show "b \<Longrightarrow> max_body r \<noteq> 0 \<Longrightarrow> body_seen r + length payload \<le> max_body r"
    using assms 0 bl(3) by (auto simp: put_DATAFrame_def Let_def split: if_splits)
qed

lemma rstep_binv:
  assumes "binv t"
  shows "binv (rstep t op)"
proof (cases op)
  case (PutData now base payload)
  obtain b r where p: "put_DATAFrame now base payload (rcp t) = (b, r)" by fastforce
  with assms put_data_body [OF p] show ?thesis
    by (cases b) (auto simp: PutData rstep_def binv_def body_octets_def)
next
  case Call
  with assms readers_same_body(1) [of "rcp t"] show ?thesis
    by (cases "recv_call (rcp t)" rule: wait_result_cases)
       (auto simp: rstep_def binv_def same_body_def)
next
  case Next
  with assms readers_same_body(2) [of "rcp t"] show ?thesis
    by (cases "next_chunk (rcp t)" rule: wait_result_cases)
       (auto simp: rstep_def binv_def same_body_def)
next
  case PutDisconnect
  with assms same_body_simps(4) [of "rcp t"] show ?thesis
    by (auto simp: rstep_def binv_def same_body_def)
next
  case PutEnd
  with assms same_body_simps(5) [of "rcp t"] show ?thesis
    by (auto simp: rstep_def binv_def same_body_def body_octets_def Let_def split: prod.splits)
qed

interpretation rb: invariant_machine rstep binv "\<lambda>_. True"
  by unfold_locales (rule rstep_binv)

lemma rstep_max_body: "max_body (rcp (rstep t op)) = max_body (rcp t)"
proof (cases op)
  case (PutData now base payload)
  obtain b r where p: "put_DATAFrame now base payload (rcp t) = (b, r)" by fastforce
  with put_data_body(2) [OF p] show ?thesis by (cases b) (auto simp: PutData rstep_def)
next
  case Call
  with readers_same_body(1) [of "rcp t"] show ?thesis
    by (cases "recv_call (rcp t)" rule: wait_result_cases) (auto simp: rstep_def same_body_def)
next
  case Next
  with readers_same_body(2) [of "rcp t"] show ?thesis
    by (cases "next_chunk (rcp t)" rule: wait_result_cases) (auto simp: rstep_def same_body_def)
next
  case PutDisconnect
  with same_body_simps(4) [of "rcp t"] show ?thesis by (auto simp: rstep_def same_body_def)
next
  case PutEnd
  with same_body_simps(5) [of "rcp t"] show ?thesis
    by (auto simp: rstep_def same_body_def Let_def split: prod.splits)
qed

lemma run_max_body: "max_body (rcp (foldl rstep t ops)) = max_body (rcp t)"
  by (induction ops arbitrary: t) (simp_all add: rstep_max_body)

text \<open>
  C25. The body cap holds whatever the peer sends and however the application reads: the DATA
  payload a recipient ever accepts (hence ever hands on) adds up to at most
  \<^verbatim>\<open>h2_max_body_size\<close> octets when that limit is set.
\<close>

theorem recipient_body_capped:
  assumes "0 < body"
  shows "body_octets
      (accepted (foldl rstep (fresh_trace (h2_stream_recipient depth budget body rate grace)) ops))
    \<le> body"
proof -
  let ?t = "fresh_trace (h2_stream_recipient depth budget body rate grace)"
  have "binv ?t" and m: "max_body (rcp ?t) = body"
    by (simp_all add: binv_def fresh_trace_def h2_stream_recipient_def new_recipient_def body_octets_def)
  then have "binv (foldl rstep ?t ops)"
    by (simp add: rb.run_inv list_all_iff)
  with assms m run_max_body [of ?t ops] show ?thesis by (simp add: binv_def)
qed

theorem recipient_body_capped_witness:
  "0 < (3::nat) \<and> body_octets (accepted (foldl rstep
     (fresh_trace (h2_stream_recipient 4 100 3 0 0))
     [PutData 0 \<lparr>flength = 2, ftype = DATA, fflags = 0, fstream = 1\<rparr> [1, 2],
      PutData 0 \<lparr>flength = 2, ftype = DATA, fflags = 0, fstream = 1\<rparr> [3, 4]])) \<le> 3"
  by (rule conjI [OF _ recipient_body_capped]) simp_all

end
