(* ===== verification/H2_Sender.thy ===== *)
theory H2_Sender
  imports H2_Frame
begin

text \<open>
  \<^verbatim>\<open>HTTP2Sender\<close> of \<^verbatim>\<open>src/blackbull/server/sender.py\<close> and the header builders it uses: it turns
  response events into HEADERS and DATA frames, coalesces the first writes of a response, splits
  bodies by the flow-control windows and the frame size, and parks when the windows are empty.

  The connection's share (HPACK encoder, stream-0 window, transport) is \<open>chan\<close>; a sender's own
  attributes are \<open>sender\<close>. \<open>grants\<close> are the changes of the two windows that arrive while a sender
  is parked, one pair per wake-up; when they run out the peer stays silent, and the wait ends in
  \<^verbatim>\<open>FlowControlStalled\<close> when a timeout is configured and never otherwise. An operation that does
  not return is \<open>None\<close>. A write to the transport always succeeds here; the access-log record is
  left out.
\<close>

datatype send_exn = Encode h2_exn | FlowControlStalled | BadStatus

record 'c chan =
  enc_st :: 'c
  conn_win :: int
  written :: "bytes list"
  grants :: "(int \<times> int) list"

record sender =
  s_stream_id :: nat
  stream_window_size :: int
  s_max_frame_size :: nat
  flow_control_timeout :: real
  end_stream_sent :: bool
  buffered_status :: "nat option"
  buffered_headers :: fields
  expect_trailers :: bool
  buffered_body :: "(nat \<times> bytes) option"
  flush_no :: nat

text \<open>
  A buffered body carries the number of the auto-flush task scheduled for it: the identity test
  of \<^verbatim>\<open>_do_auto_flush\<close> compares those.
\<close>

definition new_sender :: "nat \<Rightarrow> int option \<Rightarrow> real \<Rightarrow> sender" where
  "new_sender sid initial_window timeout =
     \<lparr>s_stream_id = sid,
      stream_window_size =
        (case initial_window of None \<Rightarrow> DEFAULT_INITIAL_WINDOW_SIZE | Some w \<Rightarrow> w),
      s_max_frame_size = DEFAULT_MAX_FRAME_SIZE, flow_control_timeout = timeout,
      end_stream_sent = False, buffered_status = None, buffered_headers = [],
      expect_trailers = False, buffered_body = None, flush_no = 0\<rparr>"

definition reset_per_request_state :: "sender \<Rightarrow> sender" where
  "reset_per_request_state s =
     s\<lparr>end_stream_sent := False, buffered_status := None, buffered_headers := [],
       expect_trailers := False, buffered_body := None\<rparr>"

definition window_update :: "int \<Rightarrow> sender \<Rightarrow> sender" where
  "window_update increment s = s\<lparr>stream_window_size := stream_window_size s + increment\<rparr>"

definition apply_settings :: "nat option \<Rightarrow> sender \<Rightarrow> sender" where
  "apply_settings mfs s = (case mfs of None \<Rightarrow> s | Some m \<Rightarrow> s\<lparr>s_max_frame_size := m\<rparr>)"

definition adjust_initial_window :: "int \<Rightarrow> sender \<Rightarrow> sender" where
  "adjust_initial_window delta s = s\<lparr>stream_window_size := stream_window_size s + delta\<rparr>"

subsection \<open>Results\<close>

type_synonym 'c sres = "(send_exn option \<times> 'c chan \<times> sender) option"

definition ret :: "'c chan \<Rightarrow> sender \<Rightarrow> 'c sres" where
  "ret ch s = Some (None, ch, s)"

definition thenS :: "'c sres \<Rightarrow> ('c chan \<Rightarrow> sender \<Rightarrow> 'c sres) \<Rightarrow> 'c sres" where
  "thenS m f =
     (case m of None \<Rightarrow> None
      | Some (Some e, st) \<Rightarrow> Some (Some e, st)
      | Some (None, ch, s) \<Rightarrow> f ch s)"

lemma thenS_simps [simp]:
  "thenS None f = None" "thenS (Some (Some e, st)) f = Some (Some e, st)"
  "thenS (ret ch s) f = f ch s" "thenS (Some (None, ch, s)) f = f ch s"
  by (simp_all add: thenS_def ret_def)

lemma ret_inject [simp]: "ret ch s = ret ch' s' \<longleftrightarrow> ch = ch' \<and> s = s'"
  by (auto simp: ret_def)

definition put_write :: "bytes \<Rightarrow> 'c chan \<Rightarrow> 'c chan" where
  "put_write bs ch = ch\<lparr>written := written ch @ [bs]\<rparr>"

subsection \<open>Header builders\<close>

definition lower_byte :: "byte \<Rightarrow> byte" where
  "lower_byte b = (if 0x41 \<le> b \<and> b \<le> 0x5A then b + 0x20 else b)"

definition has_header :: "fields \<Rightarrow> bytes \<Rightarrow> bool" where
  "has_header items name = list_ex (\<lambda>(k, _). map lower_byte k = map lower_byte name) items"

definition hfields :: "fields \<Rightarrow> (htext \<times> htext) list" where
  "hfields fs = map (\<lambda>(k, v). (HBytes k, HBytes v)) fs"

definition headers_frame :: "nat \<Rightarrow> nat \<Rightarrow> bytes \<Rightarrow> h2_exn + bytes" where
  "headers_frame stream_id flags payload =
     andThen (int_to_bytes OverflowErr 3 (int (length payload))) (\<lambda>l.
     andThen (int_to_bytes OverflowErr 4 (int stream_id)) (\<lambda>i.
       Inr (l @ [ft_value HEADERS] @ to_be 1 flags @ i @ payload)))"

text \<open>\<open>date\<close> is \<^verbatim>\<open>_http_date()\<close>, the cached formatting of the clock.\<close>

definition build_response_headers ::
  "'c hpack_encoder \<Rightarrow> bytes \<Rightarrow> 'c \<Rightarrow> nat \<Rightarrow> nat \<Rightarrow> fields \<Rightarrow> bool \<Rightarrow> h2_exn + bytes \<times> 'c" where
  "build_response_headers enc date c stream_id status headers end_stream =
     (let fs = (if has_header headers (octets ''date'') then headers
                else headers @ [(octets ''date'', date)])
      in andThen (status_fast_bytes (HStr (show_nat status))) (\<lambda>fast.
         let (payload, c') =
               (case fast of
                  Some f \<Rightarrow> (let (b, c') = enc c (hfields fs) in (f @ b, c'))
                | None \<Rightarrow> enc c ((HStr (str '':status''), HStr (show_nat status)) # hfields fs));
             flags = (if end_stream then F_END_HEADERS OR F_END_STREAM else F_END_HEADERS)
         in andThen (headers_frame stream_id flags payload) (\<lambda>bs. Inr (bs, c'))))"

definition build_trailers ::
  "'c hpack_encoder \<Rightarrow> 'c \<Rightarrow> nat \<Rightarrow> fields \<Rightarrow> h2_exn + bytes \<times> 'c" where
  "build_trailers enc c stream_id headers =
     (let (payload, c') = enc c (hfields headers)
      in andThen (headers_frame stream_id (F_END_HEADERS OR F_END_STREAM) payload)
           (\<lambda>bs. Inr (bs, c')))"

subsection \<open>\<^verbatim>\<open>_write_data\<close>\<close>

definition data_frame :: "nat \<Rightarrow> bool \<Rightarrow> bytes \<Rightarrow> bytes" where
  "data_frame stream_id end_stream chunk =
     to_be 3 (length chunk) @ [0x00] @ to_be 1 (if end_stream then F_END_STREAM else 0)
     @ to_be 4 stream_id @ chunk"

definition chunk_size :: "'c chan \<Rightarrow> sender \<Rightarrow> nat \<Rightarrow> nat" where
  "chunk_size ch s remaining =
     nat (min (conn_win ch)
            (min (stream_window_size s) (min (int (s_max_frame_size s)) (int remaining))))"

definition debit :: "nat \<Rightarrow> 'c chan \<times> sender \<Rightarrow> 'c chan \<times> sender" where
  "debit n st =
     ((fst st)\<lparr>conn_win := conn_win (fst st) - int n\<rparr>,
      (snd st)\<lparr>stream_window_size := stream_window_size (snd st) - int n\<rparr>)"

definition windows_open :: "'c chan \<Rightarrow> sender \<Rightarrow> bool" where
  "windows_open ch s \<longleftrightarrow> 0 < conn_win ch \<and> 0 < stream_window_size s"

text \<open>A wait for credit: the next grant is applied, or the peer stays silent.\<close>

definition wait_window :: "'c chan \<Rightarrow> sender \<Rightarrow> 'c sres" where
  "wait_window ch s =
     (case grants ch of
        (dc, ds) # gs \<Rightarrow>
          ret (ch\<lparr>conn_win := conn_win ch + dc, grants := gs\<rparr>)
              (s\<lparr>stream_window_size := stream_window_size s + ds\<rparr>)
      | [] \<Rightarrow>
          if 0 < flow_control_timeout s then Some (Some FlowControlStalled, ch, s) else None)"

text \<open>One DATA frame of as much of the rest as the windows and the frame size allow.\<close>

definition send_chunk :: "bool \<Rightarrow> bytes \<Rightarrow> 'c chan \<Rightarrow> sender \<Rightarrow> 'c chan \<times> sender" where
  "send_chunk e rest ch s =
     (let n = chunk_size ch s (length rest)
      in debit n (put_write
           (data_frame (s_stream_id s) (n \<ge> length rest \<and> e) (take n rest)) ch, s))"

partial_function (option) write_loop ::
  "bool \<Rightarrow> bytes \<Rightarrow> 'c chan \<Rightarrow> sender \<Rightarrow> 'c sres" where
  "write_loop end_stream rest ch s =
     (if rest = [] then ret ch s
      else if \<not> windows_open ch s then
        (case wait_window ch s of
           None \<Rightarrow> None
         | Some (Some e, st) \<Rightarrow> Some (Some e, st)
         | Some (None, ch', s') \<Rightarrow> write_loop end_stream rest ch' s')
      else
        let n = chunk_size ch s (length rest); st = send_chunk end_stream rest ch s
        in write_loop end_stream (drop n rest) (fst st) (snd st))"

definition write_data :: "bytes \<Rightarrow> bool \<Rightarrow> 'c chan \<Rightarrow> sender \<Rightarrow> 'c sres" where
  "write_data body end_stream ch s =
     (if body = [] then ret (put_write (data_frame (s_stream_id s) end_stream []) ch) s
      else write_loop end_stream body ch s)"

subsection \<open>Response events\<close>

text \<open>Encodes a header block; the encoder moves on, nothing is written yet.\<close>

definition encode_start ::
  "'c hpack_encoder \<Rightarrow> bytes \<Rightarrow> nat \<Rightarrow> fields \<Rightarrow> 'c chan \<Rightarrow> sender
   \<Rightarrow> (bytes \<Rightarrow> 'c chan \<Rightarrow> 'c sres) \<Rightarrow> 'c sres" where
  "encode_start enc date status headers ch s k =
     (case build_response_headers enc date (enc_st ch) (s_stream_id s) status headers False of
        Inl e \<Rightarrow> Some (Some (Encode e), ch, s)
      | Inr (bs, c') \<Rightarrow> k bs (ch\<lparr>enc_st := c'\<rparr>))"

definition encode_trailers ::
  "'c hpack_encoder \<Rightarrow> fields \<Rightarrow> 'c chan \<Rightarrow> sender \<Rightarrow> (bytes \<Rightarrow> 'c chan \<Rightarrow> 'c sres) \<Rightarrow> 'c sres" where
  "encode_trailers enc headers ch s k =
     (case build_trailers enc (enc_st ch) (s_stream_id s) headers of
        Inl e \<Rightarrow> Some (Some (Encode e), ch, s)
      | Inr (bs, c') \<Rightarrow> k bs (ch\<lparr>enc_st := c'\<rparr>))"

definition fits_windows :: "nat \<Rightarrow> 'c chan \<Rightarrow> sender \<Rightarrow> bool" where
  "fits_windows n ch s \<longleftrightarrow> int n \<le> conn_win ch \<and> int n \<le> stream_window_size s"

definition write_response_start_and_body ::
  "'c hpack_encoder \<Rightarrow> bytes \<Rightarrow> bytes \<Rightarrow> bool \<Rightarrow> nat \<Rightarrow> fields \<Rightarrow> bool
   \<Rightarrow> 'c chan \<Rightarrow> sender \<Rightarrow> 'c sres" where
  "write_response_start_and_body enc date body end_stream status headers expects ch s =
     encode_start enc date status headers ch s (\<lambda>h_bytes ch.
       let n = length body; set_end_stream = (end_stream \<and> \<not> expects)
       in thenS
            (if fits_windows n ch s \<and> n \<le> s_max_frame_size s then
               let st = debit n
                     (put_write (h_bytes @ data_frame (s_stream_id s) set_end_stream body) ch, s)
               in ret (fst st) (snd st)
             else write_data body set_end_stream (put_write h_bytes ch) s)
            (\<lambda>ch s. ret ch (if set_end_stream then s\<lparr>end_stream_sent := True\<rparr> else s)))"

text \<open>
  \<^verbatim>\<open>_schedule_auto_flush\<close> numbers the task; \<^verbatim>\<open>_do_auto_flush\<close> runs with the snapshot taken then and
  only if the chunk it was scheduled for is still the buffered one.
\<close>

definition schedule_auto_flush :: "bytes \<Rightarrow> sender \<Rightarrow> sender" where
  "schedule_auto_flush body s =
     s\<lparr>buffered_body := Some (Suc (flush_no s), body), flush_no := Suc (flush_no s)\<rparr>"

definition do_auto_flush ::
  "'c hpack_encoder \<Rightarrow> bytes \<Rightarrow> nat \<Rightarrow> bytes \<Rightarrow> nat option \<Rightarrow> fields \<Rightarrow> bool
   \<Rightarrow> 'c chan \<Rightarrow> sender \<Rightarrow> 'c sres" where
  "do_auto_flush enc date task body status headers expects ch s =
     (case (buffered_body s, status) of
        (Some (no, _), Some st) \<Rightarrow>
          if no = task then
            write_response_start_and_body enc date body False st headers expects ch
              (s\<lparr>buffered_body := None, buffered_status := None, buffered_headers := []\<rparr>)
          else ret ch s
      | _ \<Rightarrow> ret ch s)"

definition send_response_headers ::
  "'c hpack_encoder \<Rightarrow> bytes \<Rightarrow> nat \<Rightarrow> fields \<Rightarrow> 'c chan \<Rightarrow> sender \<Rightarrow> 'c sres" where
  "send_response_headers enc date status headers ch s =
     encode_start enc date status headers ch s (\<lambda>h_bytes ch. ret (put_write h_bytes ch) s)"

definition clear_start :: "sender \<Rightarrow> sender" where
  "clear_start s = s\<lparr>buffered_status := None, buffered_headers := []\<rparr>"

text \<open>
  The two halves of the branch that flushes a deferred first chunk: the write, which may suspend,
  and the clearing of the buffers after it.
\<close>

definition flush_deferred ::
  "'c hpack_encoder \<Rightarrow> bytes \<Rightarrow> nat \<Rightarrow> bytes \<Rightarrow> 'c chan \<Rightarrow> sender \<Rightarrow> 'c sres" where
  "flush_deferred enc date status held ch s =
     write_response_start_and_body enc date held False status (buffered_headers s)
       (expect_trailers s) ch s"

definition clear_deferred :: "sender \<Rightarrow> sender" where
  "clear_deferred s = (clear_start s)\<lparr>buffered_body := None\<rparr>"

definition handle_body_content ::
  "'c hpack_encoder \<Rightarrow> bytes \<Rightarrow> bytes \<Rightarrow> bool \<Rightarrow> 'c chan \<Rightarrow> sender \<Rightarrow> 'c sres" where
  "handle_body_content enc date payload end_stream ch s =
     thenS
       (case buffered_status s of
          Some status \<Rightarrow>
            if expect_trailers s \<and> \<not> end_stream \<and> buffered_body s = None \<and> payload \<noteq> []
               \<and> length payload \<le> s_max_frame_size s \<and> fits_windows (length payload) ch s
            then ret ch (schedule_auto_flush payload s)
            else (case buffered_body s of
                Some (_, held) \<Rightarrow>
                  thenS (flush_deferred enc date status held ch s) (\<lambda>ch s.
                    let s = clear_deferred s
                    in write_data payload (end_stream \<and> \<not> expect_trailers s) ch s)
              | None \<Rightarrow>
                  thenS (write_response_start_and_body enc date payload end_stream status
                           (buffered_headers s) (expect_trailers s) ch s)
                    (\<lambda>ch s. ret ch (clear_start s)))
        | None \<Rightarrow> write_data payload (end_stream \<and> \<not> expect_trailers s) ch s)
       (\<lambda>ch s. ret ch (if end_stream \<and> \<not> expect_trailers s then s\<lparr>end_stream_sent := True\<rparr> else s))"

text \<open>The write of a response whose start is still buffered when its trailers arrive.\<close>

definition write_start_and_trailers ::
  "'c hpack_encoder \<Rightarrow> bytes \<Rightarrow> nat \<Rightarrow> fields \<Rightarrow> 'c chan \<Rightarrow> sender \<Rightarrow> 'c sres" where
  "write_start_and_trailers enc date status headers ch s =
     encode_start enc date status (buffered_headers s) ch s (\<lambda>h_bytes ch.
     encode_trailers enc headers ch s (\<lambda>trailer_bytes ch.
       case buffered_body s of
         None \<Rightarrow> ret (put_write (h_bytes @ trailer_bytes) ch) s
       | Some (_, held) \<Rightarrow>
           if fits_windows (length held) ch s then
             let st = debit (length held)
                   (put_write (h_bytes @ data_frame (s_stream_id s) False held @ trailer_bytes) ch, s)
             in ret (fst st) (snd st)
           else
             thenS (write_data held False (put_write h_bytes ch) s)
               (\<lambda>ch s. ret (put_write trailer_bytes ch) s)))"

definition handle_trailers ::
  "'c hpack_encoder \<Rightarrow> bytes \<Rightarrow> fields \<Rightarrow> 'c chan \<Rightarrow> sender \<Rightarrow> 'c sres" where
  "handle_trailers enc date headers ch s =
     thenS
       (case buffered_status s of
          Some status \<Rightarrow>
            thenS (write_start_and_trailers enc date status headers ch s)
              (\<lambda>ch s. ret ch (clear_deferred s))
        | None \<Rightarrow>
            encode_trailers enc headers ch s (\<lambda>trailer_bytes ch. ret (put_write trailer_bytes ch) s))
       (\<lambda>ch s. ret ch (s\<lparr>end_stream_sent := True\<rparr>))"

subsection \<open>\<^verbatim>\<open>__call__\<close>\<close>

definition http_statuses :: "nat list" where
  "http_statuses =
     [100..<104] @ [200..<209] @ [226] @ [300..<306] @ [307, 308] @ [400..<419] @ [421..<427]
     @ [428, 429, 431, 451] @ [500..<509] @ [510, 511]"

datatype send_event =
    RawFrame bytes
  | BytesBody bytes nat fields
  | Native "(nat \<times> fields \<times> bool) option" "(bytes \<times> bool) option" "fields option"
  | Start nat fields bool
  | Body bytes bool
  | Trailers fields
  | OtherEvent

text \<open>
  A raw frame comes as the octets of its \<^verbatim>\<open>save\<close>. \<open>Body\<close> has \<^verbatim>\<open>more_body\<close>. A push event goes to the
  actor's callback and is an \<open>OtherEvent\<close> here.
\<close>

definition buffer_start :: "nat \<Rightarrow> fields \<Rightarrow> bool \<Rightarrow> 'c chan \<Rightarrow> sender \<Rightarrow> 'c sres" where
  "buffer_start status headers trailers ch s =
     (if status \<in> set http_statuses
      then ret ch (s\<lparr>buffered_status := Some status, buffered_headers := headers,
                     expect_trailers := trailers\<rparr>)
      else Some (Some BadStatus, ch, s))"

definition send_bytes ::
  "'c hpack_encoder \<Rightarrow> bytes \<Rightarrow> bytes \<Rightarrow> nat \<Rightarrow> fields \<Rightarrow> 'c chan \<Rightarrow> sender \<Rightarrow> 'c sres" where
  "send_bytes enc date body status headers ch s =
     encode_start enc date status headers ch s (\<lambda>h_bytes ch.
       thenS
         (if fits_windows (length body) ch s \<and> length body \<le> s_max_frame_size s then
            let st = debit (length body)
                  (put_write (h_bytes @ data_frame (s_stream_id s) True body) ch, s)
            in ret (fst st) (snd st)
          else write_data body True (put_write h_bytes ch) s)
         (\<lambda>ch s. ret ch (s\<lparr>end_stream_sent := True\<rparr>)))"

definition call ::
  "'c hpack_encoder \<Rightarrow> bytes \<Rightarrow> send_event \<Rightarrow> 'c chan \<Rightarrow> sender \<Rightarrow> 'c sres" where
  "call enc date ev ch s =
     (case ev of
        RawFrame bs \<Rightarrow> ret (put_write bs ch) s
      | _ \<Rightarrow>
        if end_stream_sent s then ret ch s
        else (case ev of
            BytesBody body status headers \<Rightarrow> send_bytes enc date body status headers ch s
          | Native header body trailers \<Rightarrow>
              thenS (case header of None \<Rightarrow> ret ch s
                     | Some (status, headers, expects) \<Rightarrow> buffer_start status headers expects ch s)
              (\<lambda>ch s.
              thenS (case body of None \<Rightarrow> ret ch s
                     | Some (payload, more_body) \<Rightarrow> handle_body_content enc date payload (\<not> more_body) ch s)
              (\<lambda>ch s.
                case trailers of
                  Some hs \<Rightarrow> if end_stream_sent s then ret ch s else handle_trailers enc date hs ch s
                | None \<Rightarrow> ret ch s))
          | Start status headers trailers \<Rightarrow> buffer_start status headers trailers ch s
          | Body payload more_body \<Rightarrow> handle_body_content enc date payload (\<not> more_body) ch s
          | Trailers headers \<Rightarrow> handle_trailers enc date headers ch s
          | _ \<Rightarrow> ret ch s))"

subsection \<open>What \<^verbatim>\<open>_write_data\<close> puts on the wire\<close>

fun data_frames :: "nat \<Rightarrow> bool \<Rightarrow> bytes list \<Rightarrow> bytes list" where
  "data_frames sid e [] = []"
| "data_frames sid e [c] = [data_frame sid e c]"
| "data_frames sid e (c # c' # cs) = data_frame sid False c # data_frames sid e (c' # cs)"

lemma data_frames_Cons:
  "data_frames sid e (c # cs) =
     (if cs = [] then [data_frame sid e c] else data_frame sid False c # data_frames sid e cs)"
  by (cases cs) auto

text \<open>
  How a run of the loop relates its two end points: \<open>cs\<close> are the chunks sent, \<open>used\<close> the grants
  consumed, \<open>left\<close> what was not sent because the peer fell silent.
\<close>

definition sent_as ::
  "bool \<Rightarrow> bytes \<Rightarrow> 'c chan \<Rightarrow> sender \<Rightarrow> bytes list \<Rightarrow> (int \<times> int) list \<Rightarrow> bytes \<Rightarrow> 'c chan \<Rightarrow> sender \<Rightarrow> bool"
  where
  "sent_as e rest ch s cs used left ch' s' \<longleftrightarrow>
     rest = concat cs @ left
     \<and> list_all (\<lambda>c. c \<noteq> [] \<and> length c \<le> s_max_frame_size s) cs
     \<and> grants ch = used @ grants ch'
     \<and> enc_st ch' = enc_st ch
     \<and> conn_win ch' = conn_win ch + sum_list (map fst used) - int (length (concat cs))
     \<and> written ch' = written ch @ data_frames (s_stream_id s) (e \<and> left = []) cs
     \<and> s' = s\<lparr>stream_window_size :=
                stream_window_size s + sum_list (map snd used) - int (length (concat cs))\<rparr>"

text \<open>Sending never drives a window below zero by itself.\<close>

definition within_credit ::
  "'c chan \<Rightarrow> sender \<Rightarrow> (int \<times> int) list \<Rightarrow> 'c chan \<Rightarrow> sender \<Rightarrow> bool" where
  "within_credit ch s used ch' s' \<longleftrightarrow>
     (list_all (\<lambda>(a, b). 0 \<le> a \<and> 0 \<le> b) used \<longrightarrow>
        min 0 (conn_win ch) \<le> conn_win ch' \<and> min 0 (stream_window_size s) \<le> stream_window_size s')"

lemma sent_as_refl: "sent_as e rest ch s [] [] rest ch s" "within_credit ch s [] ch s"
  by (simp_all add: sent_as_def within_credit_def)

lemma chunk_size_bounds:
  assumes "windows_open ch s" "0 < s_max_frame_size s" "0 < m"
  shows "0 < chunk_size ch s m" "chunk_size ch s m \<le> m" "chunk_size ch s m \<le> s_max_frame_size s"
    "int (chunk_size ch s m) \<le> conn_win ch" "int (chunk_size ch s m) \<le> stream_window_size s"
  using assms by (auto simp: chunk_size_def windows_open_def)

abbreviation granted_chan :: "int \<Rightarrow> (int \<times> int) list \<Rightarrow> 'c chan \<Rightarrow> 'c chan" where
  "granted_chan dc gs ch \<equiv> ch\<lparr>conn_win := conn_win ch + dc, grants := gs\<rparr>"

lemma sent_as_wait:
  assumes "grants ch = (dc, ds) # gs"
    and "sent_as e rest (granted_chan dc gs ch) (window_update ds s) cs used left ch' s'"
  shows "sent_as e rest ch s cs ((dc, ds) # used) left ch' s'"
  using assms by (simp add: sent_as_def window_update_def)

lemma within_credit_wait:
  assumes "within_credit (granted_chan dc gs ch) (window_update ds s) used ch' s'"
  shows "within_credit ch s ((dc, ds) # used) ch' s'"
  using assms unfolding within_credit_def window_update_def by (auto simp: min_def split: if_splits)

lemma sent_as_chunk:
  assumes "windows_open ch s" "0 < s_max_frame_size s" "rest \<noteq> []"
    and "n = chunk_size ch s (length rest)"
    and "send_chunk e rest ch s = (ch1, s1)"
    and "sent_as e (drop n rest) ch1 s1 cs used left ch' s'"
  shows "sent_as e rest ch s (take n rest # cs) used left ch' s'"
proof -
  note b = chunk_size_bounds [OF assms(1,2), of "length rest", folded assms(4)]
  have d: "drop n rest = concat cs @ left" using assms(6) by (simp add: sent_as_def)
  have ne: "cs \<noteq> [] \<Longrightarrow> concat cs \<noteq> []"
    using assms(6) by (cases cs) (auto simp: sent_as_def)
  have last: "n \<ge> length rest \<longleftrightarrow> cs = [] \<and> left = []"
    using d ne by (metis append_is_Nil_conv concat.simps(1) drop_eq_Nil)
  have len: "length (take n rest) = n" using assms(3) b(2) by simp
  have "rest = take n rest @ concat cs @ left" using d by (metis append_take_drop_id)
  moreover have "ch1 = put_write (data_frame (s_stream_id s) (n \<ge> length rest \<and> e) (take n rest)) ch
        \<lparr>conn_win := conn_win ch - int n\<rparr>"
    and "s1 = s\<lparr>stream_window_size := stream_window_size s - int n\<rparr>"
    using assms(5) by (auto simp: send_chunk_def assms(4) debit_def put_write_def Let_def)
  ultimately show ?thesis
    using assms(6) b(1,3) assms(3) len last
    unfolding sent_as_def by (auto simp: put_write_def data_frames_Cons)
qed

lemma within_credit_chunk:
  assumes "windows_open ch s" "0 < s_max_frame_size s" "rest \<noteq> []"
    and "send_chunk e rest ch s = (ch1, s1)" "within_credit ch1 s1 used ch' s'"
  shows "within_credit ch s used ch' s'"
proof -
  note b = chunk_size_bounds [OF assms(1,2), of "length rest"]
  have "conn_win ch1 \<ge> 0" "stream_window_size s1 \<ge> 0"
    using b(4,5) assms(3,4) by (auto simp: send_chunk_def debit_def put_write_def Let_def)
  with assms(1,5) show ?thesis by (auto simp: within_credit_def windows_open_def)
qed

lemma write_loop_eq:
  "write_loop e rest ch s =
     (if rest = [] then ret ch s
      else if windows_open ch s
      then write_loop e (drop (chunk_size ch s (length rest)) rest) (fst (send_chunk e rest ch s))
             (snd (send_chunk e rest ch s))
      else (case grants ch of
          (dc, ds) # gs \<Rightarrow> write_loop e rest (granted_chan dc gs ch) (window_update ds s)
        | [] \<Rightarrow> if 0 < flow_control_timeout s then Some (Some FlowControlStalled, ch, s) else None))"
  by (subst write_loop.simps)
     (simp add: wait_window_def window_update_def ret_def Let_def split: list.split)


lemma send_chunk_keeps [simp]:
  "grants (fst (send_chunk e rest ch s)) = grants ch"
  "s_max_frame_size (snd (send_chunk e rest ch s)) = s_max_frame_size s"
  "flow_control_timeout (snd (send_chunk e rest ch s)) = flow_control_timeout s"
  by (simp_all add: send_chunk_def debit_def put_write_def Let_def)

text \<open>
  The loop always comes to an end, in one of three ways: everything sent; the peer silent and the
  timeout fired; the peer silent and no timeout, where it waits for ever.
\<close>

lemma write_loop_cases:
  assumes "0 < s_max_frame_size s"
  shows "(\<exists>cs used left ch' s'. sent_as e rest ch s cs used left ch' s' \<and> within_credit ch s used ch' s'
      \<and> (left = [] \<and> write_loop e rest ch s = ret ch' s'
         \<or> left \<noteq> [] \<and> grants ch' = [] \<and> \<not> windows_open ch' s'
           \<and> write_loop e rest ch s
             = (if 0 < flow_control_timeout s then Some (Some FlowControlStalled, ch', s') else None)))"
  using assms
proof (induction "length rest + length (grants ch)" arbitrary: rest ch s rule: less_induct)
  case less
  consider (sent) "rest = []" | (send) "rest \<noteq> []" "windows_open ch s"
    | (silent) "rest \<noteq> []" "\<not> windows_open ch s" "grants ch = []"
    | (wait) dc ds gs where "rest \<noteq> []" "\<not> windows_open ch s" "grants ch = (dc, ds) # gs"
    by (cases "grants ch") auto
  then show ?case
  proof cases
    case sent
    then have "write_loop e rest ch s = ret ch s" by (subst write_loop_eq) simp
    then show ?thesis using sent sent_as_refl(1) [of e rest ch s] sent_as_refl(2) [of ch s] by metis
  next
    case silent
    then have "write_loop e rest ch s
      = (if 0 < flow_control_timeout s then Some (Some FlowControlStalled, ch, s) else None)"
      by (subst write_loop_eq) simp
    then show ?thesis using silent sent_as_refl(1) [of e rest ch s] sent_as_refl(2) [of ch s] by metis
  next
    case (wait dc ds gs)
    have eq: "write_loop e rest ch s = write_loop e rest (granted_chan dc gs ch) (window_update ds s)"
      using wait by (subst write_loop_eq) simp
    have t: "flow_control_timeout (window_update ds s) = flow_control_timeout s"
      and "0 < s_max_frame_size (window_update ds s)"
      using less.prems by (simp_all add: window_update_def)
    moreover have "length rest + length (grants (granted_chan dc gs ch)) < length rest + length (grants ch)"
      using wait by simp
    ultimately show ?thesis
      using less.hyps [of rest "granted_chan dc gs ch" "window_update ds s"]
        sent_as_wait [OF wait(3)] within_credit_wait [where dc = dc and gs = gs and ch = ch and ds = ds and s = s]
      unfolding eq t by meson
  next
    case send
    define n where "n = chunk_size ch s (length rest)"
    obtain ch1 s1 where sc: "send_chunk e rest ch s = (ch1, s1)" by fastforce
    have "0 < n" unfolding n_def using send less.prems by (intro chunk_size_bounds) auto
    then have "length (drop n rest) + length (grants ch1) < length rest + length (grants ch)"
      using send(1) send_chunk_keeps(1) [of e rest ch s] sc by simp
    moreover have "0 < s_max_frame_size s1" "flow_control_timeout s1 = flow_control_timeout s"
      using less.prems send_chunk_keeps(2,3) [of e rest ch s] sc by simp_all
    ultimately obtain cs used left ch' s' where
      *: "sent_as e (drop n rest) ch1 s1 cs used left ch' s'" "within_credit ch1 s1 used ch' s'"
      and **: "left = [] \<and> write_loop e (drop n rest) ch1 s1 = ret ch' s'
         \<or> left \<noteq> [] \<and> grants ch' = [] \<and> \<not> windows_open ch' s'
           \<and> write_loop e (drop n rest) ch1 s1
             = (if 0 < flow_control_timeout s then Some (Some FlowControlStalled, ch', s') else None)"
      using less.hyps [of "drop n rest" ch1 s1] by auto
    have "write_loop e rest ch s = write_loop e (drop n rest) ch1 s1"
      using send sc by (subst write_loop_eq) (simp add: n_def)
    moreover have "sent_as e rest ch s (take n rest # cs) used left ch' s'"
      using sent_as_chunk [OF send(2) less.prems send(1) n_def sc *(1)] .
    moreover have "within_credit ch s used ch' s'"
      using within_credit_chunk [OF send(2) less.prems send(1) sc *(2)] .
    ultimately show ?thesis using ** by metis
  qed
qed

lemma write_data_cases:
  assumes "0 < s_max_frame_size s" "body \<noteq> []"
  obtains (sent) cs used ch' s' where "write_data body e ch s = ret ch' s'"
      "sent_as e body ch s cs used [] ch' s'" "within_credit ch s used ch' s'"
  | (stuck) cs used left ch' s' where "left \<noteq> []" "grants ch' = []" "\<not> windows_open ch' s'"
      "write_data body e ch s
       = (if 0 < flow_control_timeout s then Some (Some FlowControlStalled, ch', s') else None)"
      "sent_as e body ch s cs used left ch' s'" "within_credit ch s used ch' s'"
  using write_loop_cases [OF assms(1), of e body ch] assms(2) unfolding write_data_def by auto

text \<open>
  C4. A body reaches the peer whole once the peer grants enough credit: if the two windows plus
  the grants that arrive while the sender waits cover the body, \<^verbatim>\<open>_write_data\<close> returns, and what it
  wrote is a sequence of DATA frames of at most the maximum frame size whose payloads are the
  body in order, with END_STREAM on the last frame and nowhere else.
\<close>

theorem write_data_delivers:
  assumes "0 < s_max_frame_size s"
    and "int (length body) \<le> conn_win ch + sum_list (map fst (grants ch))"
    and "int (length body) \<le> stream_window_size s + sum_list (map snd (grants ch))"
  shows "\<exists>ch' s' cs. write_data body e ch s = ret ch' s' \<and> concat cs = body \<and> cs \<noteq> []
      \<and> list_all (\<lambda>c. length c \<le> s_max_frame_size s) cs
      \<and> written ch' = written ch @ data_frames (s_stream_id s) e cs"
proof (cases "body = []")
  case True
  then show ?thesis by (intro exI [of _ "[[]]"] exI) (auto simp: write_data_def put_write_def)
next
  case False
  from assms(1) this show ?thesis
  proof (cases rule: write_data_cases [where ch = ch and e = e])
    case (sent cs used ch' s')
    then have "cs \<noteq> []" "concat cs = body" using False by (auto simp: sent_as_def)
    moreover have "list_all (\<lambda>c. length c \<le> s_max_frame_size s) cs"
      using sent(2) by (auto simp: sent_as_def list_all_iff)
    ultimately show ?thesis using sent by (auto simp: sent_as_def)
  next
    case (stuck cs used left ch' s')
    then have "used = grants ch" by (simp add: sent_as_def)
    then have "int (length left) \<le> conn_win ch'" "int (length left) \<le> stream_window_size s'"
      using stuck(5) assms(2,3) by (auto simp: sent_as_def)
    then have "windows_open ch' s'" using stuck(1) by (cases left) (auto simp: windows_open_def)
    with stuck(3) show ?thesis by simp
  qed
qed

theorem write_data_delivers_witness:
  "\<exists>ch' s' cs. write_data [1, 2, 3] True
       \<lparr>enc_st = (), conn_win = 1, written = [], grants = [(5, 1), (0, 7)]\<rparr> (new_sender 1 (Some 0) 0)
     = ret ch' s' \<and> concat cs = [1, 2, 3] \<and> cs \<noteq> []
      \<and> list_all (\<lambda>c. length c \<le> s_max_frame_size (new_sender 1 (Some 0) 0)) cs
      \<and> written ch' = [] @ data_frames (s_stream_id (new_sender 1 (Some 0) 0)) True cs"
  using write_data_delivers [of "new_sender 1 (Some 0) 0" "[1, 2, 3]"
      "\<lparr>enc_st = (), conn_win = 1, written = [], grants = [(5, 1), (0, 7)]\<rparr>" True]
  by (simp add: new_sender_def DEFAULT_MAX_FRAME_SIZE_def)


lemma write_stalls_example:
  "write_data [1, 2, 3] True \<lparr>enc_st = (), conn_win = 1, written = [], grants = [(0, 1)]\<rparr>
     (new_sender 1 (Some 0) 5)
   = Some (Some FlowControlStalled,
       \<lparr>enc_st = (), conn_win = 0, written = [data_frame 1 False [1]], grants = []\<rparr>,
       new_sender 1 (Some 0) 5)"
  by (simp add: write_data_def write_loop_eq [of _ _ _ s for s] windows_open_def new_sender_def
      send_chunk_def chunk_size_def debit_def put_write_def window_update_def
      DEFAULT_MAX_FRAME_SIZE_def Let_def)


subsection \<open>Deferral and coalescing do not change the octets\<close>

text \<open>
  A response as the application and the event loop produce it: chunks with more to come, and
  runs of the deferred flush task in between.
\<close>

datatype resp_step = More bytes | Flush

definition resp_step ::
  "'c hpack_encoder \<Rightarrow> bytes \<Rightarrow> resp_step \<Rightarrow> 'c chan \<Rightarrow> sender \<Rightarrow> 'c sres" where
  "resp_step enc date st ch s =
     (case st of
        More b \<Rightarrow> call enc date (Body b True) ch s
      | Flush \<Rightarrow>
          (case buffered_body s of
             None \<Rightarrow> ret ch s
           | Some (no, b) \<Rightarrow>
               do_auto_flush enc date no b (buffered_status s) (buffered_headers s)
                 (expect_trailers s) ch s))"

fun resp_steps ::
  "'c hpack_encoder \<Rightarrow> bytes \<Rightarrow> resp_step list \<Rightarrow> 'c chan \<Rightarrow> sender \<Rightarrow> 'c sres" where
  "resp_steps enc date [] ch s = ret ch s"
| "resp_steps enc date (x # xs) ch s =
     thenS (resp_step enc date x ch s) (\<lambda>ch s. resp_steps enc date xs ch s)"

fun step_bodies :: "resp_step list \<Rightarrow> bytes list" where
  "step_bodies [] = []"
| "step_bodies (More b # xs) = b # step_bodies xs"
| "step_bodies (Flush # xs) = step_bodies xs"

definition octets_of :: "bytes list \<Rightarrow> nat" where
  "octets_of bs = sum_list (map length bs)"

lemma octets_of_simps [simp]:
  "octets_of [] = 0" "octets_of (b # bs) = length b + octets_of bs"
  "octets_of (bs @ cs) = octets_of bs + octets_of cs"
  by (simp_all add: octets_of_def)

definition plain_frames :: "nat \<Rightarrow> bytes list \<Rightarrow> bytes" where
  "plain_frames sid bs = concat (map (data_frame sid False) bs)"

lemma plain_frames_simps [simp]:
  "plain_frames sid [] = []" "plain_frames sid (b # bs) = data_frame sid False b @ plain_frames sid bs"
  "plain_frames sid (bs @ cs) = plain_frames sid bs @ plain_frames sid cs"
  by (simp_all add: plain_frames_def)

text \<open>Windows large enough for everything still to come.\<close>

definition ample :: "nat \<Rightarrow> 'c chan \<Rightarrow> sender \<Rightarrow> bool" where
  "ample n ch s \<longleftrightarrow> int n \<le> conn_win ch \<and> int n \<le> stream_window_size s"

text \<open>Nothing of the response is on the wire yet, or its first part is.\<close>

definition deferred :: "nat \<Rightarrow> fields \<Rightarrow> bool \<Rightarrow> bytes list \<Rightarrow> sender \<Rightarrow> bool" where
  "deferred st hs tr bs s \<longleftrightarrow>
     buffered_status s = Some st \<and> buffered_headers s = hs \<and> expect_trailers s = tr
     \<and> \<not> end_stream_sent s
     \<and> (case bs of [] \<Rightarrow> buffered_body s = None
        | [b] \<Rightarrow> tr \<and> (\<exists>no. buffered_body s = Some (no, b)) | _ \<Rightarrow> False)"

definition flowing :: "bool \<Rightarrow> sender \<Rightarrow> bool" where
  "flowing tr s \<longleftrightarrow> buffered_status s = None \<and> buffered_body s = None \<and> expect_trailers s = tr
     \<and> \<not> end_stream_sent s"

definition wrote :: "nat \<Rightarrow> bytes \<Rightarrow> 'c chan \<Rightarrow> 'c chan" where
  "wrote n bs ch = ch\<lparr>written := written ch @ [bs], conn_win := conn_win ch - int n\<rparr>"

definition spent :: "nat \<Rightarrow> sender \<Rightarrow> sender" where
  "spent n s = s\<lparr>stream_window_size := stream_window_size s - int n\<rparr>"

lemma debit_put_write: "debit n (put_write bs ch, s) = (wrote n bs ch, spent n s)"
  by (simp add: debit_def put_write_def wrote_def spent_def)

lemma wrote_sel [simp]:
  "written (wrote n bs ch) = written ch @ [bs]" "conn_win (wrote n bs ch) = conn_win ch - int n"
  "enc_st (wrote n bs ch) = enc_st ch" "grants (wrote n bs ch) = grants ch"
  by (simp_all add: wrote_def)

lemma spent_sel [simp]:
  "stream_window_size (spent n s) = stream_window_size s - int n"
  "s_stream_id (spent n s) = s_stream_id s" "s_max_frame_size (spent n s) = s_max_frame_size s"
  "end_stream_sent (spent n s) = end_stream_sent s" "buffered_status (spent n s) = buffered_status s"
  "buffered_headers (spent n s) = buffered_headers s" "expect_trailers (spent n s) = expect_trailers s"
  "buffered_body (spent n s) = buffered_body s"
  by (simp_all add: spent_def)

lemma write_data_ample:
  assumes "ample (length b) ch s" "length b \<le> s_max_frame_size s"
  shows "write_data b e ch s = ret (wrote (length b) (data_frame (s_stream_id s) e b) ch) (spent (length b) s)"
proof (cases "b = []")
  case True
  then show ?thesis by (simp add: write_data_def put_write_def wrote_def spent_def)
next
  case False
  then have "windows_open ch s" using assms by (cases b) (auto simp: ample_def windows_open_def)
  moreover have "chunk_size ch s (length b) = length b"
    using assms by (auto simp: chunk_size_def ample_def)
  ultimately show ?thesis
    using False
    by (simp add: write_data_def write_loop_eq [of e b] send_chunk_def write_loop_eq [of e "[]"]
        debit_put_write Let_def)
qed

lemma start_and_body_ample:
  assumes "ample (length b) ch s" "length b \<le> s_max_frame_size s"
    and "build_response_headers enc date (enc_st ch) (s_stream_id s) st hs False = Inr (h, c')"
  shows "write_response_start_and_body enc date b e st hs tr ch s =
    ret (wrote (length b) (h @ data_frame (s_stream_id s) (e \<and> \<not> tr) b) (ch\<lparr>enc_st := c'\<rparr>))
      (if e \<and> \<not> tr then (spent (length b) s)\<lparr>end_stream_sent := True\<rparr> else spent (length b) s)"
  using assms
  by (simp add: write_response_start_and_body_def encode_start_def fits_windows_def ample_def
      debit_put_write Let_def)

text \<open>
  The state in the middle of a response with the chunks \<open>bs\<close> so far: \<open>w\<close> are the octets written
  before it, \<open>h\<close> its header frame, \<open>c0\<close> and \<open>c1\<close> the encoder before and after.
\<close>

record 'c resp =
  r_before :: bytes
  r_head :: bytes
  r_enc0 :: 'c
  r_enc1 :: 'c
  r_conn :: int
  r_win :: int
  r_status :: nat
  r_fields :: fields
  r_trailers :: bool
  r_sid :: nat
  r_mfs :: nat

definition resp_inv :: "'c resp \<Rightarrow> bytes list \<Rightarrow> 'c chan \<Rightarrow> sender \<Rightarrow> bool" where
  "resp_inv r bs ch s \<longleftrightarrow>
     s_stream_id s = r_sid r \<and> s_max_frame_size s = r_mfs r
     \<and> (deferred (r_status r) (r_fields r) (r_trailers r) bs s
          \<and> concat (written ch) = r_before r \<and> enc_st ch = r_enc0 r
          \<and> conn_win ch = r_conn r \<and> stream_window_size s = r_win r
        \<or> flowing (r_trailers r) s
          \<and> concat (written ch) = r_before r @ r_head r @ plain_frames (r_sid r) bs
          \<and> enc_st ch = r_enc1 r
          \<and> conn_win ch = r_conn r - int (octets_of bs)
          \<and> stream_window_size s = r_win r - int (octets_of bs))"

definition head_built :: "'c hpack_encoder \<Rightarrow> bytes \<Rightarrow> 'c resp \<Rightarrow> bool" where
  "head_built enc date r \<longleftrightarrow>
     build_response_headers enc date (r_enc0 r) (r_sid r) (r_status r) (r_fields r) False
     = Inr (r_head r, r_enc1 r)"

definition covers :: "'c resp \<Rightarrow> bytes list \<Rightarrow> bool" where
  "covers r bs \<longleftrightarrow> int (octets_of bs) \<le> r_conn r \<and> int (octets_of bs) \<le> r_win r
     \<and> list_all (\<lambda>b. length b \<le> r_mfs r) bs"

lemma resp_inv_cases:
  assumes "resp_inv r bs ch s"
  obtains (empty) "bs = []" "deferred (r_status r) (r_fields r) (r_trailers r) [] s"
  | (held) b no where "bs = [b]" "r_trailers r" "buffered_body s = Some (no, b)"
      "deferred (r_status r) (r_fields r) (r_trailers r) bs s"
  | (flow) "flowing (r_trailers r) s"
  using assms by (auto simp: resp_inv_def deferred_def split: list.splits)

lemma resp_flush:
  assumes "head_built enc date r" "covers r bs" "resp_inv r bs ch s"
  shows "\<exists>ch' s'. resp_step enc date Flush ch s = ret ch' s' \<and> resp_inv r bs ch' s'"
  using assms(3)
proof (cases rule: resp_inv_cases)
  case (held b no)
  then have "\<not> flowing (r_trailers r) s" by (auto simp: flowing_def)
  with assms(3) have i: "concat (written ch) = r_before r" "enc_st ch = r_enc0 r"
    "conn_win ch = r_conn r" "stream_window_size s = r_win r" "s_stream_id s = r_sid r"
    "s_max_frame_size s = r_mfs r"
    by (auto simp: resp_inv_def)
  let ?s = "s\<lparr>buffered_body := None, buffered_status := None, buffered_headers := []\<rparr>"
  have "ample (length b) ch ?s" "length b \<le> s_max_frame_size ?s"
    using assms(2) i held(1) by (simp_all add: ample_def covers_def)
  from start_and_body_ample [OF this, of enc date "r_status r" "r_fields r" "r_head r" "r_enc1 r" False "r_trailers r"]
  show ?thesis
    using held i assms(1)
    by (auto simp: resp_step_def do_auto_flush_def resp_inv_def flowing_def deferred_def head_built_def)
qed (use assms in \<open>auto simp: resp_step_def deferred_def flowing_def\<close>)

lemma deferred_inv:
  assumes "resp_inv r bs ch s" "deferred (r_status r) (r_fields r) (r_trailers r) bs s"
  shows "concat (written ch) = r_before r" "enc_st ch = r_enc0 r" "conn_win ch = r_conn r"
    "stream_window_size s = r_win r" "s_stream_id s = r_sid r" "s_max_frame_size s = r_mfs r"
  using assms by (auto simp: resp_inv_def flowing_def deferred_def)

lemma flowing_inv:
  assumes "resp_inv r bs ch s" "flowing (r_trailers r) s"
  shows "concat (written ch) = r_before r @ r_head r @ plain_frames (r_sid r) bs"
    "enc_st ch = r_enc1 r" "conn_win ch = r_conn r - int (octets_of bs)"
    "stream_window_size s = r_win r - int (octets_of bs)" "s_stream_id s = r_sid r"
    "s_max_frame_size s = r_mfs r"
  using assms by (auto simp: resp_inv_def flowing_def deferred_def)

text \<open>One more chunk, from each of the three states; \<open>e\<close> says whether it is the last one.\<close>

definition chunk_done :: "'c resp \<Rightarrow> bytes list \<Rightarrow> bytes \<Rightarrow> bool \<Rightarrow> 'c chan \<Rightarrow> sender \<Rightarrow> bool" where
  "chunk_done r bs b e ch s \<longleftrightarrow>
     s_stream_id s = r_sid r \<and> s_max_frame_size s = r_mfs r
     \<and> buffered_status s = None \<and> buffered_body s = None \<and> expect_trailers s = r_trailers r
     \<and> end_stream_sent s = (e \<and> \<not> r_trailers r)
     \<and> concat (written ch) = r_before r @ r_head r @ plain_frames (r_sid r) bs
         @ data_frame (r_sid r) (e \<and> \<not> r_trailers r) b
     \<and> enc_st ch = r_enc1 r
     \<and> conn_win ch = r_conn r - int (octets_of (bs @ [b]))
     \<and> stream_window_size s = r_win r - int (octets_of (bs @ [b]))"

lemma chunk_done_inv: "chunk_done r bs b False ch s \<Longrightarrow> resp_inv r (bs @ [b]) ch s"
  by (simp add: chunk_done_def resp_inv_def flowing_def)

lemma body_flowing:
  assumes "covers r (bs @ [b])" "resp_inv r bs ch s" "flowing (r_trailers r) s"
  shows "\<exists>ch' s'. handle_body_content enc date b e ch s = ret ch' s' \<and> chunk_done r bs b e ch' s'"
proof -
  note i = flowing_inv [OF assms(2,3)]
  have "ample (length b) ch s" "length b \<le> s_max_frame_size s"
    using assms(1) i by (simp_all add: ample_def covers_def)
  from write_data_ample [OF this] show ?thesis
    using assms(3) i by (auto simp: handle_body_content_def flowing_def chunk_done_def)
qed

lemma body_first:
  assumes "head_built enc date r" "covers r [b]" "resp_inv r [] ch s"
    and "deferred (r_status r) (r_fields r) (r_trailers r) [] s"
  shows "\<exists>ch' s'. handle_body_content enc date b e ch s = ret ch' s'
    \<and> (chunk_done r [] b e ch' s' \<or> \<not> e \<and> resp_inv r [b] ch' s')"
proof (cases "r_trailers r \<and> \<not> e \<and> b \<noteq> []")
  case True
  note i = deferred_inv [OF assms(3,4)]
  have "fits_windows (length b) ch s" "length b \<le> s_max_frame_size s"
    using assms(2) i by (simp_all add: fits_windows_def covers_def)
  then show ?thesis
    using True assms(4) i
    by (auto simp: handle_body_content_def deferred_def schedule_auto_flush_def resp_inv_def)
next
  case False
  note i = deferred_inv [OF assms(3,4)]
  have "ample (length b) ch s" "length b \<le> s_max_frame_size s"
    using assms(2) i by (simp_all add: ample_def covers_def)
  from start_and_body_ample [OF this, of enc date "r_status r" "r_fields r" "r_head r" "r_enc1 r" e "r_trailers r"]
  show ?thesis
    using False assms(1,4) i
    by (auto simp: handle_body_content_def deferred_def chunk_done_def head_built_def clear_start_def)
qed

lemma body_held:
  assumes "head_built enc date r" "covers r (bs @ [b])" "resp_inv r bs ch s"
    and "deferred (r_status r) (r_fields r) (r_trailers r) bs s" "bs = [a]" "buffered_body s = Some (no, a)"
  shows "\<exists>ch' s'. handle_body_content enc date b e ch s = ret ch' s' \<and> chunk_done r bs b e ch' s'"
proof -
  note i = deferred_inv [OF assms(3,4)]
  have am: "ample (length a) ch s" "length a \<le> s_max_frame_size s"
    using assms(2,5) i by (simp_all add: ample_def covers_def)
  let ?ch = "wrote (length a) (r_head r @ data_frame (s_stream_id s) False a) (ch\<lparr>enc_st := r_enc1 r\<rparr>)"
  let ?s = "clear_deferred (spent (length a) s)"
  have "flush_deferred enc date (r_status r) a ch s = ret ?ch (spent (length a) s)"
    using start_and_body_ample [OF am, of enc date "r_status r" "r_fields r" "r_head r" "r_enc1 r" False "r_trailers r"]
      assms(1,4) i by (auto simp: flush_deferred_def head_built_def deferred_def)
  moreover have "ample (length b) ?ch ?s" "length b \<le> s_max_frame_size ?s"
    using assms(2,5) i by (simp_all add: ample_def covers_def clear_deferred_def clear_start_def)
  note write_data_ample [OF this]
  ultimately show ?thesis
    using assms(4,5,6) i
    by (auto simp: handle_body_content_def deferred_def chunk_done_def clear_deferred_def clear_start_def)
qed

lemma resp_body:
  assumes "head_built enc date r" "covers r (bs @ [b])" "resp_inv r bs ch s"
  shows "\<exists>ch' s'. handle_body_content enc date b e ch s = ret ch' s'
    \<and> (chunk_done r bs b e ch' s' \<or> \<not> e \<and> resp_inv r (bs @ [b]) ch' s')"
  using assms(3)
proof (cases rule: resp_inv_cases)
  case empty
  with body_first [OF assms(1) _ _ empty(2), of b ch e] assms(2,3) show ?thesis by auto
next
  case (held a no)
  from body_held [OF assms(1,2,3) held(4,1,3), of e] show ?thesis by blast
next
  case flow
  from body_flowing [OF assms(2,3) flow] show ?thesis by blast
qed

lemma resp_more:
  assumes "head_built enc date r" "covers r (bs @ [b])" "resp_inv r bs ch s"
  shows "\<exists>ch' s'. resp_step enc date (More b) ch s = ret ch' s' \<and> resp_inv r (bs @ [b]) ch' s'"
proof -
  have "\<not> end_stream_sent s" using assms(3) by (auto simp: resp_inv_def deferred_def flowing_def)
  then show ?thesis
    using resp_body [OF assms, of False] chunk_done_inv by (fastforce simp: resp_step_def call_def)
qed

lemma covers_prefix: "covers r (bs @ cs) \<Longrightarrow> covers r bs"
  by (auto simp: covers_def)

lemma resp_run:
  assumes "head_built enc date r" "covers r (bs @ step_bodies xs)" "resp_inv r bs ch s"
  shows "\<exists>ch' s'. resp_steps enc date xs ch s = ret ch' s' \<and> resp_inv r (bs @ step_bodies xs) ch' s'"
  using assms(2,3)
proof (induction xs arbitrary: bs ch s rule: step_bodies.induct)
  case (2 b xs)
  then have "covers r (bs @ [b])" using covers_prefix [of r "bs @ [b]" "step_bodies xs"] by simp
  from resp_more [OF assms(1) this 2(3)] 2(1) [of "bs @ [b]"] 2(2) show ?case by fastforce
next
  case (3 xs)
  then have "covers r bs" using covers_prefix by auto
  from resp_flush [OF assms(1) this 3(3)] 3(1) [of bs] 3(2) show ?case by fastforce
qed simp

text \<open>The trailers end the response from each state.\<close>

lemma resp_trailers:
  assumes "head_built enc date r" "covers r bs" "resp_inv r bs ch s" "r_trailers r"
    and "build_trailers enc (r_enc1 r) (r_sid r) ts = Inr (t, c2)"
  shows "\<exists>ch' s'. handle_trailers enc date ts ch s = ret ch' s' \<and> end_stream_sent s'
    \<and> concat (written ch') = r_before r @ r_head r @ plain_frames (r_sid r) bs @ t"
  using assms(3)
proof (cases rule: resp_inv_cases)
  case empty
  with deferred_inv [OF assms(3)] assms(1,5) show ?thesis
    by (auto simp: handle_trailers_def write_start_and_trailers_def encode_start_def
        encode_trailers_def head_built_def deferred_def put_write_def)
next
  case (held b no)
  note i = deferred_inv [OF assms(3) held(4)]
  have "fits_windows (length b) (ch\<lparr>enc_st := c\<rparr>) s" for c
    using assms(2) held(1) i by (simp add: fits_windows_def covers_def)
  with held i assms(1,5) show ?thesis
    by (auto simp: handle_trailers_def write_start_and_trailers_def encode_start_def
        encode_trailers_def head_built_def deferred_def debit_put_write)
next
  case flow
  with flowing_inv [OF assms(3) flow] assms(5) show ?thesis
    by (auto simp: handle_trailers_def encode_trailers_def flowing_def put_write_def)
qed

text \<open>A whole response: start, chunks, and a last chunk or trailers.\<close>

definition respond ::
  "'c hpack_encoder \<Rightarrow> bytes \<Rightarrow> nat \<Rightarrow> fields \<Rightarrow> resp_step list \<Rightarrow> bytes + fields
   \<Rightarrow> 'c chan \<Rightarrow> sender \<Rightarrow> 'c sres" where
  "respond enc date st hs xs fin ch s =
     thenS (call enc date (Start st hs (case fin of Inl _ \<Rightarrow> False | Inr _ \<Rightarrow> True)) ch s) (\<lambda>ch s.
     thenS (resp_steps enc date xs ch s) (\<lambda>ch s.
       call enc date (case fin of Inl b \<Rightarrow> Body b False | Inr ts \<Rightarrow> Trailers ts) ch s))"

definition fresh :: "sender \<Rightarrow> bool" where
  "fresh s \<longleftrightarrow> \<not> end_stream_sent s \<and> buffered_status s = None \<and> buffered_body s = None"


text \<open>Without grants a sender only lowers the connection window.\<close>

lemma write_loop_conn_win:
  assumes "write_loop e rest ch s = Some y"
  shows "grants ch = [] \<longrightarrow> conn_win (fst (snd y)) \<le> conn_win ch"
proof (rule write_loop.raw_induct [OF _ assms, 
      where P = "\<lambda>e rest ch s y. grants ch = [] \<longrightarrow> conn_win (fst (snd y)) \<le> conn_win ch"])
  fix wl :: "bool \<Rightarrow> bytes \<Rightarrow> 'a chan \<Rightarrow> sender \<Rightarrow> 'a sres"
    and e rest and ch :: "'a chan" and s r
  assume IH: "\<And>e rest (ch :: 'a chan) s y. wl e rest ch s = Some y \<Longrightarrow>
    grants ch = [] \<longrightarrow> conn_win (fst (snd y)) \<le> conn_win ch"
  let ?st = "send_chunk e rest ch s"
  have st: "conn_win (fst ?st) \<le> conn_win ch" "grants (fst ?st) = grants ch"
    by (simp_all add: send_chunk_def debit_def put_write_def Let_def)
  assume "(if rest = [] then ret ch s
      else if \<not> windows_open ch s then
        (case wait_window ch s of
           None \<Rightarrow> None
         | Some (Some e, st) \<Rightarrow> Some (Some e, st)
         | Some (None, ch', s') \<Rightarrow> wl e rest ch' s')
      else
        let n = chunk_size ch s (length rest); st = send_chunk e rest ch s
        in wl e (drop n rest) (fst st) (snd st)) = Some r"
  then show "grants ch = [] \<longrightarrow> conn_win (fst (snd r)) \<le> conn_win ch"
    using IH [of e _ "fst ?st" "snd ?st" r] st
    by (fastforce simp: ret_def wait_window_def Let_def split: if_splits list.splits)
qed
lemma write_data_conn_win:
  "write_data body e ch s = Some (x, ch', s') \<Longrightarrow> grants ch = [] \<Longrightarrow> conn_win ch' \<le> conn_win ch"
  using write_loop_conn_win by (fastforce simp: write_data_def ret_def put_write_def split: if_splits)

lemma thenS_Some:
  "thenS m f = Some y \<longleftrightarrow>
     (\<exists>e st. m = Some (Some e, st) \<and> y = (Some e, st)) \<or> (\<exists>ch s. m = Some (None, ch, s) \<and> f ch s = Some y)"
  by (auto simp: thenS_def split: option.splits prod.splits)

lemma send_bytes_conn_win:
  assumes "send_bytes enc date body st hs ch s = Some (x, ch', s')" "grants ch = []"
  shows "conn_win ch' \<le> conn_win ch"
proof -
  from assms(1) obtain h c' where
    b: "build_response_headers enc date (enc_st ch) (s_stream_id s) st hs False = Inr (h, c') \<or> ch' = ch"
    by (auto simp: send_bytes_def encode_start_def split: sum.splits)
  show ?thesis
  proof (cases "ch' = ch")
    case False
    with b have b: "build_response_headers enc date (enc_st ch) (s_stream_id s) st hs False = Inr (h, c')"
      by blast
    let ?ch = "ch\<lparr>enc_st := c'\<rparr>"
    have "conn_win ch1 \<le> conn_win ch" if "write_data body True (put_write h ?ch) s = Some (y, ch1, s1)" for y ch1 s1
      using write_data_conn_win [OF that] assms(2) by (simp add: put_write_def)
    with assms b show ?thesis
      by (auto simp: send_bytes_def encode_start_def debit_put_write thenS_Some ret_def Let_def
          split: if_splits)
  qed simp
qed

text \<open>An encoder without compression, to evaluate concrete responses.\<close>

definition toy_encoder :: "unit hpack_encoder" where
  "toy_encoder c fs =
     (concat (map (\<lambda>(k, v). case (k, v) of (HBytes a, HBytes b) \<Rightarrow> a @ b | _ \<Rightarrow> []) fs), ())"


subsection \<open>Suspension inside a write\<close>



text \<open>
  Several activations of the loop of \<^verbatim>\<open>_write_data\<close> on one connection. The write may suspend, so
  choosing and writing a chunk (\<open>Pick\<close>) and debiting the windows (\<open>Debited\<close>) are separate steps
  between which other senders and the frame loop run. \<open>f_granted\<close> and \<open>f_sent\<close> count what the peer
  allowed on the connection and what it was sent.
\<close>

record activation =
  a_snd :: sender
  a_rest :: bytes
  a_end :: bool
  a_flight :: "nat option"

record 'c flow =
  f_ch :: "'c chan"
  f_acts :: "(nat, activation) dict"
  f_granted :: int
  f_sent :: int

datatype flow_event = Pick nat | Debited nat | Credit nat

definition pick :: "nat \<Rightarrow> activation \<Rightarrow> 'c flow \<Rightarrow> 'c flow" where
  "pick i a f =
     (if a_flight a = None \<and> a_rest a \<noteq> [] \<and> windows_open (f_ch f) (a_snd a) then
        let n = chunk_size (f_ch f) (a_snd a) (length (a_rest a));
            bs = data_frame (s_stream_id (a_snd a)) (n \<ge> length (a_rest a) \<and> a_end a)
                   (take n (a_rest a))
        in f\<lparr>f_ch := put_write bs (f_ch f), f_sent := f_sent f + int n,
             f_acts := dict_set i (a\<lparr>a_rest := drop n (a_rest a), a_flight := Some n\<rparr>) (f_acts f)\<rparr>
      else f)"

definition debited :: "nat \<Rightarrow> activation \<Rightarrow> 'c flow \<Rightarrow> 'c flow" where
  "debited i a f =
     (case a_flight a of
        None \<Rightarrow> f
      | Some n \<Rightarrow>
          let st = debit n (f_ch f, a_snd a)
          in f\<lparr>f_ch := fst st, f_acts := dict_set i (a\<lparr>a_snd := snd st, a_flight := None\<rparr>) (f_acts f)\<rparr>)"

definition flow_step :: "'c flow \<Rightarrow> flow_event \<Rightarrow> 'c flow" where
  "flow_step f ev =
     (case ev of
        Pick i \<Rightarrow> (case dict_get (f_acts f) i of None \<Rightarrow> f | Some a \<Rightarrow> pick i a f)
      | Debited i \<Rightarrow> (case dict_get (f_acts f) i of None \<Rightarrow> f | Some a \<Rightarrow> debited i a f)
      | Credit n \<Rightarrow>
          f\<lparr>f_ch := (f_ch f)\<lparr>conn_win := conn_win (f_ch f) + int n\<rparr>, f_granted := f_granted f + int n\<rparr>)"

text \<open>A write that does not suspend.\<close>

datatype atomic_event = Whole nat | Grant nat

definition atomic_step :: "'c flow \<Rightarrow> atomic_event \<Rightarrow> 'c flow" where
  "atomic_step f ev =
     (case ev of Whole i \<Rightarrow> flow_step (flow_step f (Pick i)) (Debited i) | Grant n \<Rightarrow> flow_step f (Credit n))"

definition idle_flow :: "'c flow \<Rightarrow> bool" where
  "idle_flow f \<longleftrightarrow> list_all (\<lambda>(i, a). a_flight a = None \<and> 0 < s_max_frame_size (a_snd a)) (f_acts f)"

definition balanced :: "'c flow \<Rightarrow> bool" where
  "balanced f \<longleftrightarrow> idle_flow f \<and> dict_ok (f_acts f) \<and> conn_win (f_ch f) = f_granted f - f_sent f
     \<and> 0 \<le> conn_win (f_ch f)"

lemma idle_get: "idle_flow f \<Longrightarrow> dict_get (f_acts f) i = Some a \<Longrightarrow> a_flight a = None \<and> 0 < s_max_frame_size (a_snd a)"
  by (auto simp: idle_flow_def list_all_iff dest: map_of_SomeD)

lemma idle_set:
  assumes "idle_flow f" "a_flight a = None" "0 < s_max_frame_size (a_snd a)"
  shows "idle_flow (f\<lparr>f_ch := ch, f_sent := n, f_acts := dict_set i a (f_acts f)\<rparr>)"
proof -
  have "set (dict_set i a (f_acts f)) \<subseteq> insert (i, a) (set (f_acts f))"
    by (rule set_dict_set_subset)
  with assms show ?thesis unfolding idle_flow_def list_all_iff by auto
qed

lemma whole_step:
  assumes "dict_get (f_acts f) i = Some a" "a_flight a = None" "a_rest a \<noteq> []"
    and "windows_open (f_ch f) (a_snd a)" "n = chunk_size (f_ch f) (a_snd a) (length (a_rest a))"
    and "bs = data_frame (s_stream_id (a_snd a)) (n \<ge> length (a_rest a) \<and> a_end a) (take n (a_rest a))"
  shows "atomic_step f (Whole i) =
    f\<lparr>f_ch := wrote n bs (f_ch f), f_sent := f_sent f + int n,
      f_acts := dict_set i (a\<lparr>a_rest := drop n (a_rest a), a_flight := None, a_snd := spent n (a_snd a)\<rparr>)
        (f_acts f)\<rparr>"
  using assms
  by (cases f; cases a) (auto simp: atomic_step_def flow_step_def pick_def debited_def debit_put_write Let_def)

lemma atomic_balanced:
  assumes "balanced f"
  shows "balanced (atomic_step f ev)"
proof (cases ev)
  case (Grant n)
  with assms show ?thesis by (simp add: atomic_step_def flow_step_def balanced_def idle_flow_def)
next
  case (Whole i)
  show ?thesis
  proof (cases "dict_get (f_acts f) i")
    case None
    with assms Whole show ?thesis by (simp add: atomic_step_def flow_step_def)
  next
    case (Some a)
    have idle: "a_flight a = None" "0 < s_max_frame_size (a_snd a)"
      using assms idle_get [OF _ Some] by (auto simp: balanced_def)
    show ?thesis
    proof (cases "a_rest a \<noteq> [] \<and> windows_open (f_ch f) (a_snd a)")
      case False
      with assms Whole Some idle show ?thesis
        by (auto simp: atomic_step_def flow_step_def pick_def debited_def)
    next
      case True
      define n where "n = chunk_size (f_ch f) (a_snd a) (length (a_rest a))"
      have "int n \<le> conn_win (f_ch f)"
        unfolding n_def using True idle by (intro chunk_size_bounds) auto
      with whole_step [OF Some idle(1) _ _ n_def refl] True Whole assms idle show ?thesis
        by (auto simp: balanced_def intro!: idle_set)
    qed
  qed
qed

interpretation af: invariant_machine atomic_step balanced "\<lambda>_. True"
  by unfold_locales (rule atomic_balanced)

text \<open>
  As long as writes do not suspend, the streams of a connection share its flow-control window
  correctly: whatever the interleaving of their chunks with the peer's grants, the octets sent
  never exceed the octets granted, and the shared window is exactly the difference.
\<close>

lemma connection_window_shared:
  assumes "balanced f"
  shows "f_sent (foldl atomic_step f evs) \<le> f_granted (foldl atomic_step f evs)
    \<and> conn_win (f_ch (foldl atomic_step f evs))
      = f_granted (foldl atomic_step f evs) - f_sent (foldl atomic_step f evs)"
  using af.run_inv [OF assms, of evs] by (simp add: balanced_def list_all_iff)

definition two_streams :: "unit flow" where
  "two_streams =
     \<lparr>f_ch = \<lparr>enc_st = (), conn_win = 3, written = [], grants = []\<rparr>,
      f_acts = [(1, \<lparr>a_snd = new_sender 1 None 0, a_rest = [1, 2, 3], a_end = True, a_flight = None\<rparr>),
                (3, \<lparr>a_snd = new_sender 3 None 0, a_rest = [4, 5, 6], a_end = True, a_flight = None\<rparr>)],
      f_granted = 3, f_sent = 0\<rparr>"

lemma two_streams_balanced: "balanced two_streams"
  by (simp add: balanced_def two_streams_def idle_flow_def new_sender_def DEFAULT_MAX_FRAME_SIZE_def)

text \<open>
  When a write suspends, the window is debited too late: with three octets of credit left and
  two streams that want to send, both pick their chunk before either debits, and six octets go
  out against a connection window of three.
\<close>

lemma connection_window_overspent:
  "balanced two_streams
   \<and> f_sent (foldl flow_step two_streams [Pick 1, Pick 3, Debited 1, Debited 3]) = 6
   \<and> f_granted (foldl flow_step two_streams [Pick 1, Pick 3, Debited 1, Debited 3]) = 3
   \<and> conn_win (f_ch (foldl flow_step two_streams [Pick 1, Pick 3, Debited 1, Debited 3])) = -3"
  using two_streams_balanced
  by (simp add: two_streams_def flow_step_def pick_def debited_def windows_open_def chunk_size_def
      new_sender_def debit_def put_write_def DEFAULT_INITIAL_WINDOW_SIZE_def
      DEFAULT_MAX_FRAME_SIZE_def)

end
