(* ===== verification/H2_Conn.thy ===== *)
theory H2_Conn
  imports H2_Request H2_Recipient H2_Stream H2_Sender Structured_Fields Rate_Window
begin

text \<open>
  The connection state machine \<^verbatim>\<open>HTTP2Actor\<close> of \<^verbatim>\<open>src/blackbull/server/http2_actor.py\<close> with the
  responders of \<^verbatim>\<open>src/blackbull/server/response.py\<close>. One step is one turn of \<^verbatim>\<open>_frame_loop\<close>, one
  finished stream task, one read of an application, or one wake-up of the liveness watchdog; the
  time is an argument. \<open>out\<close> collects what the actor does to the outside: frames by the factory
  call that makes them, closing the writer, spawning and cancelling tasks. \<open>live\<close> are the tasks
  that have been spawned and whose done-callback has not run; it is not read by the code.

  The stream tree is the dictionary of its root's children (the trees of the server are flat).
  \<open>dec\<close>, \<open>enc\<close> are the HPACK library, \<open>netloc_ok\<close> the host check of \<^verbatim>\<open>urlsplit\<close>, \<open>date\<close> the
  formatted clock.
\<close>

subsection \<open>State\<close>

record h2_cfg =
  cf_max_concurrent_streams :: nat
  cf_header_max_total :: nat
  cf_max_body_size :: nat
  cf_min_body_rate :: real
  cf_min_body_rate_grace :: real
  cf_write_timeout :: real
  cf_stream_queue_depth :: nat
  cf_initial_window_size :: nat
  cf_connection_window_size :: nat
  cf_enable_websocket :: bool
  cf_ws_max_streams :: nat
  cf_idle_timeout :: real
  cf_ping_timeout :: real
  cf_header_timeout :: real
  cf_frame_rate_limit :: int
  cf_frame_rate_window :: real

datatype inbound = HttpIn recipient | WsIn ws_reader

datatype effect =
    OSettings bool nat nat
  | OSettingsAck
  | OPing
  | OPingAck bytes
  | OGoaway nat error_codes
  | ORst nat error_codes
  | OWindowUpdate nat nat
  | OWrite bytes
  | OClose
  | OSpawn nat bool
  | OCancel nat

record ('d, 'c) actor =
  cfg :: h2_cfg
  dec_st :: 'd
  enc_state :: 'c
  streams :: "(nat, connection stream) dict"
  senders :: "(nat, sender) dict"
  recipients :: "(nat, inbound) dict"
  conn_window :: int
  peer_initial_window_size :: int
  active_stream_count :: nat
  ws_stream_count :: nat
  stream_tasks :: "nat list"
  closed_streams :: "(nat, bool) dict"
  closed_high_water :: nat
  last_peer_stream_id :: nat
  goaway_sent :: bool
  rst_meter :: rate_window
  ping_meter :: rate_window
  settings_meter :: rate_window
  empty_frame_meter :: rate_window
  waiting_continuation :: bool
  header_frame :: "(frame_base \<times> header_block) option"
  header_block_since :: "real option"
  last_frame_at :: real
  probe_sent_at :: "real option"
  oversize_frame_len :: nat
  next_push_stream_id :: nat
  out :: "effect list"
  live :: "(nat \<times> bool) list"

datatype actor_exn = H2 h2_exn | Send send_exn | UnsupportedFrame | NoAttribute

datatype outcome = Continue | Return | Raise actor_exn | Hang

definition CLOSED_STREAMS_CAP :: nat where
  "CLOSED_STREAMS_CAP = 1024"

definition MAX_FLOW_WINDOW :: int where
  "MAX_FLOW_WINDOW = 2 ^ 31 - 1"

definition new_actor :: "h2_cfg \<Rightarrow> 'd \<Rightarrow> 'c \<Rightarrow> ('d, 'c) actor" where
  "new_actor c d e =
     (let m = new_rate_window (cf_frame_rate_limit c) (cf_frame_rate_window c) in
      \<lparr>cfg = c, dec_st = d, enc_state = e, streams = [], senders = [], recipients = [],
       conn_window = DEFAULT_INITIAL_WINDOW_SIZE,
       peer_initial_window_size = DEFAULT_INITIAL_WINDOW_SIZE,
       active_stream_count = 0, ws_stream_count = 0, stream_tasks = [], closed_streams = [],
       closed_high_water = 0, last_peer_stream_id = 0, goaway_sent = False, rst_meter = m,
       ping_meter = m, settings_meter = m, empty_frame_meter = m, waiting_continuation = False,
       header_frame = None, header_block_since = None, last_frame_at = 0, probe_sent_at = None,
       oversize_frame_len = 0, next_push_stream_id = 2, out = [], live = []\<rparr>)"

subsection \<open>Sending, closing, counting\<close>

definition emit :: "effect \<Rightarrow> ('d, 'c) actor \<Rightarrow> ('d, 'c) actor" where
  "emit x a = a\<lparr>out := out a @ [x]\<rparr>"

definition close_connection :: "error_codes \<Rightarrow> ('d, 'c) actor \<Rightarrow> ('d, 'c) actor" where
  "close_connection code a =
     emit OClose ((emit (OGoaway (last_peer_stream_id a) code) a)\<lparr>goaway_sent := True\<rparr>)"

definition connection_error :: "error_codes \<Rightarrow> ('d, 'c) actor \<Rightarrow> ('d, 'c) actor" where
  "connection_error code a =
     (if goaway_sent a then a
      else emit OClose ((emit (OGoaway (last_peer_stream_id a) code) a)\<lparr>goaway_sent := True\<rparr>))"

definition count_emitted_rst :: "real \<Rightarrow> ('d, 'c) actor \<Rightarrow> ('d, 'c) actor" where
  "count_emitted_rst now a =
     (let (over, m) = hit now (rst_meter a); a = a\<lparr>rst_meter := m\<rparr>
      in if over then close_connection ENHANCE_YOUR_CALM a else a)"

text \<open>\<^verbatim>\<open>send_frame\<close> of a RST_STREAM, which is counted, and of every other frame, which is not.\<close>

definition send_rst :: "real \<Rightarrow> nat \<Rightarrow> error_codes \<Rightarrow> ('d, 'c) actor \<Rightarrow> ('d, 'c) actor" where
  "send_rst now sid code a =
     (let a = emit (ORst sid code) a
      in if goaway_sent a then a else count_emitted_rst now a)"

text \<open>The meters by the frame they count; the result says whether the frame is to be dropped.\<close>

definition meter_result ::
  "bool \<Rightarrow> ('d, 'c) actor \<Rightarrow> bool \<times> ('d, 'c) actor" where
  "meter_result over a = (over, if over then connection_error ENHANCE_YOUR_CALM a else a)"

definition meter_type :: "real \<Rightarrow> frame_types \<Rightarrow> ('d, 'c) actor \<Rightarrow> bool \<times> ('d, 'c) actor" where
  "meter_type now t a =
     (if t = RST_STREAM then
        let (over, m) = hit now (rst_meter a) in meter_result over (a\<lparr>rst_meter := m\<rparr>)
      else if t = PING then
        let (over, m) = hit now (ping_meter a) in meter_result over (a\<lparr>ping_meter := m\<rparr>)
      else if t = SETTINGS then
        let (over, m) = hit now (settings_meter a) in meter_result over (a\<lparr>settings_meter := m\<rparr>)
      else (False, a))"

definition meter_empty :: "real \<Rightarrow> frame_base \<Rightarrow> ('d, 'c) actor \<Rightarrow> bool \<times> ('d, 'c) actor" where
  "meter_empty now b a =
     (if flength b = 0 \<and> (ftype b = CONTINUATION \<or> ftype b = DATA) then
        let (over, m) = hit now (empty_frame_meter a) in meter_result over (a\<lparr>empty_frame_meter := m\<rparr>)
      else (False, a))"

subsection \<open>Streams, senders, recipients\<close>

definition mark_closed :: "nat \<Rightarrow> bool \<Rightarrow> ('d, 'c) actor \<Rightarrow> ('d, 'c) actor" where
  "mark_closed sid via_rst a =
     (let cl = dict_set sid via_rst (closed_streams a);
          cl = (if length cl > CLOSED_STREAMS_CAP then tl cl else cl)
      in a\<lparr>closed_streams := cl, closed_high_water := max sid (closed_high_water a)\<rparr>)"

definition make_sender :: "nat \<Rightarrow> ('d, 'c) actor \<Rightarrow> sender \<times> ('d, 'c) actor" where
  "make_sender sid a =
     (case dict_get (senders a) sid of
        Some s \<Rightarrow> (s, a)
      | None \<Rightarrow>
          let s = new_sender sid (Some (peer_initial_window_size a)) (cf_write_timeout (cfg a))
          in (s, a\<lparr>senders := dict_set sid s (senders a)\<rparr>))"

definition make_stream_recipient :: "('d, 'c) actor \<Rightarrow> recipient" where
  "make_stream_recipient a =
     new_recipient (cf_stream_queue_depth (cfg a)) True (int (cf_initial_window_size (cfg a)))
       (cf_max_body_size (cfg a)) (cf_min_body_rate (cfg a)) (cf_min_body_rate_grace (cfg a))"

fun inbound_disconnect :: "inbound \<Rightarrow> inbound" where
  "inbound_disconnect (HttpIn r) = HttpIn (put_disconnect r)"
| "inbound_disconnect (WsIn w) = WsIn (ws_put_disconnect w)"

definition signal_recipients :: "('d, 'c) actor \<Rightarrow> ('d, 'c) actor" where
  "signal_recipients a =
     a\<lparr>recipients := map (\<lambda>(k, r). (k, inbound_disconnect r)) (recipients a)\<rparr>"

text \<open>\<^verbatim>\<open>take_uncredited\<close> exists on \<^verbatim>\<open>HTTP2Recipient\<close> only.\<close>

definition release_recipient_credit :: "inbound \<Rightarrow> ('d, 'c) actor \<Rightarrow> ('d, 'c) actor" where
  "release_recipient_credit r a =
     (let balance = (case r of HttpIn r \<Rightarrow> fst (take_uncredited r) | WsIn _ \<Rightarrow> 0)
      in if balance \<le> 0 \<or> goaway_sent a then a else emit (OWindowUpdate 0 (nat balance)) a)"

definition pop_recipient :: "nat \<Rightarrow> ('d, 'c) actor \<Rightarrow> ('d, 'c) actor" where
  "pop_recipient sid a =
     (case dict_get (recipients a) sid of
        None \<Rightarrow> a
      | Some r \<Rightarrow>
          release_recipient_credit r (a\<lparr>recipients := dict_pop sid (recipients a)\<rparr>))"

text \<open>The done-callback of a stream task.\<close>

definition task_done :: "nat \<Rightarrow> bool \<Rightarrow> ('d, 'c) actor \<Rightarrow> ('d, 'c) actor" where
  "task_done sid is_ws a =
     (let a = a\<lparr>active_stream_count := active_stream_count a - 1,
                ws_stream_count := (if is_ws then ws_stream_count a - 1 else ws_stream_count a),
                stream_tasks := removeAll sid (stream_tasks a),
                senders := dict_pop sid (senders a),
                live := remove1 (sid, is_ws) (live a)\<rparr>;
          a = pop_recipient sid a
      in if dict_get (streams a) sid \<noteq> None
         then mark_closed sid False (a\<lparr>streams := dict_pop sid (streams a)\<rparr>)
         else a)"

definition set_stream :: "connection stream \<Rightarrow> ('d, 'c) actor \<Rightarrow> ('d, 'c) actor" where
  "set_stream s a = a\<lparr>streams := dict_set (stream_id s) s (streams a)\<rparr>"

datatype level = ConnectionLevel | StreamLevel

definition validate_stream_state ::
  "stream_state \<Rightarrow> frame_types \<Rightarrow> (error_codes \<times> level) option" where
  "validate_stream_state st t =
     (case st of
        IDLE \<Rightarrow>
          if t \<in> {HEADERS, PRIORITY, CONTINUATION, PUSH_PROMISE} then None
          else Some (PROTOCOL_ERROR, ConnectionLevel)
      | HALF_CLOSED_REMOTE \<Rightarrow>
          if t \<in> {PRIORITY, WINDOW_UPDATE, RST_STREAM} then None
          else Some (STREAM_CLOSED, StreamLevel)
      | CLOSED \<Rightarrow>
          if t = PRIORITY then None
          else if t \<in> {HEADERS, CONTINUATION} then Some (STREAM_CLOSED, ConnectionLevel)
          else Some (STREAM_CLOSED, StreamLevel)
      | _ \<Rightarrow> None)"

subsection \<open>Requests\<close>

definition DEFAULT_PRIORITY :: "int \<times> bool" where
  "DEFAULT_PRIORITY = (3, False)"

definition resolve_priority :: "connection stream \<Rightarrow> connection \<Rightarrow> int \<times> bool" where
  "resolve_priority s c =
     (case priority_hint s of
        Some h \<Rightarrow> h
      | None \<Rightarrow>
          let raw = (case dict_get (c_headers c) (octets ''priority'') of None \<Rightarrow> [] | Some v \<Rightarrow> v)
          in if raw \<noteq> [] then parse_priority_field (ascii_replace raw) else DEFAULT_PRIORITY)"

definition apply_priority_and_extensions ::
  "connection stream \<Rightarrow> connection \<Rightarrow> ('d, 'c) actor \<Rightarrow> connection" where
  "apply_priority_and_extensions s c a =
     c\<lparr>c_extensions := Some (resolve_priority s c, peer_initial_window_size a, conn_window a)\<rparr>"

definition spawn_stream_task :: "nat \<Rightarrow> ('d, 'c) actor \<Rightarrow> ('d, 'c) actor" where
  "spawn_stream_task sid a =
     emit (OSpawn sid False)
       (a\<lparr>active_stream_count := active_stream_count a + 1,
          stream_tasks := List.insert sid (stream_tasks a),
          live := live a @ [(sid, False)]\<rparr>)"

definition handle_h2_websocket ::
  "real \<Rightarrow> nat \<Rightarrow> ('d, 'c) actor \<Rightarrow> ('d, 'c) actor" where
  "handle_h2_websocket now sid a =
     (if cf_ws_max_streams (cfg a) > 0 \<and> ws_stream_count a \<ge> cf_ws_max_streams (cfg a)
      then send_rst now sid REFUSED_STREAM a
      else
        let a = snd (make_sender sid a)
        in emit (OSpawn sid True)
             (a\<lparr>recipients := dict_set sid (WsIn (new_ws_reader DEFAULT_MAX_BUFFER True)) (recipients a),
                ws_stream_count := ws_stream_count a + 1,
                active_stream_count := active_stream_count a + 1,
                live := live a @ [(sid, True)]\<rparr>))"

text \<open>
  What a header handler did: the block is dealt with (a task was spawned or the stream refused),
  CONTINUATION is awaited, or the handler did not return normally.
\<close>

datatype handled = Spawned | Awaiting | Escapes outcome

definition put_sender :: "nat \<Rightarrow> 'c chan \<Rightarrow> sender \<Rightarrow> ('d, 'c) actor \<Rightarrow> ('d, 'c) actor" where
  "put_sender sid ch s a =
     a\<lparr>enc_state := enc_st ch, conn_window := conn_win ch, senders := dict_set sid s (senders a),
       out := out a @ map OWrite (written ch)\<rparr>"

text \<open>
  The 413 answer is sent from the frame loop itself, so while it waits for credit no WINDOW_UPDATE
  can be processed: there are no grants.
\<close>

definition refuse_oversized_declared_body ::
  "'c hpack_encoder \<Rightarrow> bytes \<Rightarrow> real \<Rightarrow> nat \<Rightarrow> ('d, 'c) actor \<Rightarrow> handled \<times> ('d, 'c) actor" where
  "refuse_oversized_declared_body enc date now sid a =
     (let (snd, a) = make_sender sid a;
          ch = \<lparr>enc_st = enc_state a, conn_win = conn_window a, written = [], grants = []\<rparr>
      in case call enc date
                (BytesBody (octets ''413 Content Too Large'') 413
                   [(octets ''content-type'', octets ''text/plain'')]) ch snd of
           None \<Rightarrow> (Escapes Hang, a)
         | Some (Some e, ch, snd) \<Rightarrow> (Escapes (Raise (Send e)), put_sender sid ch snd a)
         | Some (None, ch, snd) \<Rightarrow> (Spawned, send_rst now sid NO_ERROR (put_sender sid ch snd a)))"

definition declared_too_large :: "connection stream \<Rightarrow> ('d, 'c) actor \<Rightarrow> bool" where
  "declared_too_large s a =
     (case expected_content_length s of
        None \<Rightarrow> False
      | Some n \<Rightarrow> n > int (cf_max_body_size (cfg a)) \<and> cf_max_body_size (cfg a) > 0)"

text \<open>
  The end both paths share. On the HEADERS path the stream changes state and the recipient learns
  of an END_STREAM; on the CONTINUATION path (\<open>None\<close>) neither happens.
\<close>

definition dispatch_request ::
  "bool option \<Rightarrow> connection stream \<Rightarrow> connection \<Rightarrow> ('d, 'c) actor \<Rightarrow> ('d, 'c) actor" where
  "dispatch_request end_stream s c a =
     (let c = apply_priority_and_extensions s c a;
          r = make_stream_recipient a;
          r = (if end_stream = Some True then mark_end_of_stream_on_headers r else r);
          s = s\<lparr>conn := Some c\<rparr>;
          s = (case end_stream of None \<Rightarrow> s | Some e \<Rightarrow> on_headers_received e s)
      in spawn_stream_task (stream_id s)
           ((set_stream s a)\<lparr>recipients := dict_set (stream_id s) (HttpIn r) (recipients a)\<rparr>))"

definition on_headers_frame ::
  "'c hpack_encoder \<Rightarrow> bytes \<Rightarrow> (pystr \<Rightarrow> bool) \<Rightarrow> real \<Rightarrow> frame_base \<Rightarrow> header_block
   \<Rightarrow> connection stream \<Rightarrow> ('d, 'c) actor \<Rightarrow> handled \<times> ('d, 'c) actor" where
  "on_headers_frame enc date netloc_ok now b hb s a =
     (let sid = stream_id s; end_headers = flag_set F_END_HEADERS (fflags b);
          end_stream = flag_set F_END_STREAM (fflags b)
      in if active_stream_count a \<ge> cf_max_concurrent_streams (cfg a) then
           (if \<not> end_headers then (Awaiting, a) else (Spawned, send_rst now sid REFUSED_STREAM a))
         else if \<not> end_headers then (Awaiting, a)
         else (case parse_headers netloc_ok hb of
             Inl e \<Rightarrow> (Escapes (Raise (H2 e)), a)
           | Inr (None, hb') \<Rightarrow> (Spawned, send_rst now sid PROTOCOL_ERROR a)
           | Inr (Some c, hb') \<Rightarrow>
               let s = s\<lparr>expected_content_length := extract_content_length (c_headers c), conn := Some c\<rparr>
               in if c_type c = WebsocketConn then
                    (if \<not> cf_enable_websocket (cfg a)
                     then (Spawned, send_rst now sid PROTOCOL_ERROR (set_stream s a))
                     else (Spawned, handle_h2_websocket now sid
                                      (set_stream (on_headers_received False s) a)))
                  else if declared_too_large s a
                  then refuse_oversized_declared_body enc date now sid (set_stream s a)
                  else (Spawned, dispatch_request (Some end_stream) s c a)))"

text \<open>The decoded block of a request that came in several frames.\<close>

definition finish_block ::
  "'c hpack_encoder \<Rightarrow> bytes \<Rightarrow> (pystr \<Rightarrow> bool) \<Rightarrow> real \<Rightarrow> header_block
   \<Rightarrow> connection stream \<Rightarrow> ('d, 'c) actor \<Rightarrow> handled \<times> ('d, 'c) actor" where
  "finish_block enc date netloc_ok now hb s a =
     (case parse_headers netloc_ok hb of
        Inl e \<Rightarrow> (Escapes (Raise (H2 e)), a)
      | Inr (None, hb') \<Rightarrow> (Spawned, send_rst now (stream_id s) PROTOCOL_ERROR a)
      | Inr (Some c, hb') \<Rightarrow>
          let s = s\<lparr>expected_content_length := extract_content_length (c_headers c)\<rparr>
          in if active_stream_count a \<ge> cf_max_concurrent_streams (cfg a)
             then (Spawned, send_rst now (stream_id s) REFUSED_STREAM (set_stream s a))
             else
               let s = s\<lparr>conn := Some c\<rparr>
               in if declared_too_large s a
                  then refuse_oversized_declared_body enc date now (stream_id s) (set_stream s a)
                  else (Spawned, dispatch_request None s c a))"

definition on_continuation_frame ::
  "'d hpack_decoder \<Rightarrow> 'c hpack_encoder \<Rightarrow> bytes \<Rightarrow> (pystr \<Rightarrow> bool) \<Rightarrow> real \<Rightarrow> frame_base \<Rightarrow> bytes
   \<Rightarrow> connection stream \<Rightarrow> ('d, 'c) actor \<Rightarrow> handled \<times> ('d, 'c) actor" where
  "on_continuation_frame dec enc date netloc_ok now b payload s a =
     (case header_frame a of
        None \<Rightarrow> (Spawned, connection_error PROTOCOL_ERROR a)
      | Some (hbase, hb) \<Rightarrow>
          let hb = hb\<lparr>raw_block := raw_block hb @ payload\<rparr>;
              a = a\<lparr>header_frame := Some (hbase, hb)\<rparr>
          in if length (raw_block hb) > cf_header_max_total (cfg a)
             then (Spawned, send_rst now (stream_id s) ENHANCE_YOUR_CALM a)
             else if \<not> flag_set F_END_HEADERS (fflags b) then (Awaiting, a)
             else (case parse_payload dec (dec_st a) hbase hb of
                 Inl e \<Rightarrow> (Escapes (Raise (H2 e)), a)
               | Inr (hb, d') \<Rightarrow>
                   finish_block enc date netloc_ok now hb s
                     (a\<lparr>header_frame := Some (hbase, hb), dec_st := d'\<rparr>)))"

subsection \<open>DATA\<close>

definition content_length_violated :: "connection stream \<Rightarrow> bool \<Rightarrow> bool" where
  "content_length_violated s end_stream =
     (case expected_content_length s of
        None \<Rightarrow> False
      | Some n \<Rightarrow> int (received_data_bytes s) > n
          \<or> end_stream \<and> int (received_data_bytes s) \<noteq> n)"

definition credit_both :: "nat \<Rightarrow> nat \<Rightarrow> ('d, 'c) actor \<Rightarrow> ('d, 'c) actor" where
  "credit_both sid n a = emit (OWindowUpdate 0 n) (emit (OWindowUpdate sid n) a)"

definition deliver_data ::
  "real \<Rightarrow> frame_base \<Rightarrow> bytes \<Rightarrow> nat \<Rightarrow> inbound \<Rightarrow> ('d, 'c) actor \<Rightarrow> ('d, 'c) actor" where
  "deliver_data now b payload sid rc a =
     (case rc of
        HttpIn r \<Rightarrow>
          let (delivered, r) = put_DATAFrame now b payload r;
              a = a\<lparr>recipients := dict_set sid (HttpIn r) (recipients a)\<rparr>
          in if delivered \<and> flength b \<noteq> 0 \<and> \<not> credit_cb r then credit_both sid (flength b) a
             else if delivered then a
             else (let a = send_rst now sid ENHANCE_YOUR_CALM a
                   in a\<lparr>recipients := dict_set sid (HttpIn (put_disconnect r)) (recipients a)\<rparr>)
      | WsIn w \<Rightarrow>
          let (delivered, w) = ws_put_DATAFrame b payload w;
              a = a\<lparr>recipients := dict_set sid (WsIn w) (recipients a)\<rparr>
          in if delivered \<and> flength b \<noteq> 0 then credit_both sid (flength b) a else a)"

definition on_data_frame ::
  "real \<Rightarrow> frame_base \<Rightarrow> bytes \<Rightarrow> connection stream \<Rightarrow> ('d, 'c) actor \<Rightarrow> ('d, 'c) actor" where
  "on_data_frame now b payload s a =
     (let sid = stream_id s; end_stream = flag_set F_END_STREAM (fflags b)
      in if state s = HALF_CLOSED_REMOTE \<or> state s = CLOSED then send_rst now sid STREAM_CLOSED a
         else
           let s = s\<lparr>received_data_bytes := received_data_bytes s + length payload\<rparr>
           in if content_length_violated s end_stream
              then send_rst now sid PROTOCOL_ERROR (set_stream s a)
              else
                let a = set_stream (on_data_received end_stream s) a
                in (case dict_get (recipients a) sid of
                      None \<Rightarrow> a
                    | Some rc \<Rightarrow> deliver_data now b payload sid rc a))"

subsection \<open>The responders\<close>

definition respond_ping :: "frame_base \<Rightarrow> bytes \<Rightarrow> ('d, 'c) actor \<Rightarrow> ('d, 'c) actor" where
  "respond_ping b payload a =
     (if fstream b \<noteq> 0 then connection_error PROTOCOL_ERROR a
      else if flag_set F_ACK (fflags b) then a
      else emit (OPingAck payload) a)"

definition respond_window_update ::
  "real \<Rightarrow> frame_base \<Rightarrow> nat \<Rightarrow> ('d, 'c) actor \<Rightarrow> ('d, 'c) actor" where
  "respond_window_update now b increment a =
     (if flength b \<noteq> 4 then connection_error FRAME_SIZE_ERROR a
      else if increment = 0 then
        (if fstream b = 0 then connection_error PROTOCOL_ERROR a
         else send_rst now (fstream b) PROTOCOL_ERROR a)
      else if fstream b = 0 then
        (if conn_window a + int increment > MAX_FLOW_WINDOW then connection_error FLOW_CONTROL_ERROR a
         else a\<lparr>conn_window := conn_window a + int increment\<rparr>)
      else
        let (s, a) = make_sender (fstream b) a
        in if stream_window_size s + int increment > MAX_FLOW_WINDOW
           then send_rst now (fstream b) FLOW_CONTROL_ERROR a
           else a\<lparr>senders := dict_set (fstream b) (H2_Sender.window_update (int increment) s) (senders a)\<rparr>)"

definition settings_valid ::
  "(setting_attr, nat) dict \<Rightarrow> error_codes option" where
  "settings_valid attrs =
     (if (case dict_get attrs enable_push of None \<Rightarrow> False | Some ep \<Rightarrow> ep \<noteq> 0 \<and> ep \<noteq> 1)
      then Some PROTOCOL_ERROR
      else if (case dict_get attrs initial_window_size of
          None \<Rightarrow> False | Some w \<Rightarrow> int w > MAX_FLOW_WINDOW)
      then Some FLOW_CONTROL_ERROR
      else if (case dict_get attrs max_frame_size of
          None \<Rightarrow> False | Some m \<Rightarrow> m < 16384 \<or> m > 16777215)
      then Some PROTOCOL_ERROR
      else None)"

definition map_senders :: "(sender \<Rightarrow> sender) \<Rightarrow> ('d, 'c) actor \<Rightarrow> ('d, 'c) actor" where
  "map_senders f a = a\<lparr>senders := map (\<lambda>(k, s). (k, f s)) (senders a)\<rparr>"

definition apply_peer_settings ::
  "(setting_attr, nat) dict \<Rightarrow> ('d, 'c) actor \<Rightarrow> ('d, 'c) actor" where
  "apply_peer_settings attrs a =
     (let a = (case dict_get attrs initial_window_size of
            None \<Rightarrow> a
          | Some w \<Rightarrow>
              let delta = int w - peer_initial_window_size a;
                  a = a\<lparr>peer_initial_window_size := int w\<rparr>
              in if delta \<noteq> 0 then map_senders (adjust_initial_window delta) a else a)
      in case dict_get attrs max_frame_size of
           None \<Rightarrow> a
         | Some m \<Rightarrow> map_senders (apply_settings (Some m)) a)"

definition respond_settings ::
  "frame_base \<Rightarrow> (setting_attr, nat) dict \<Rightarrow> ('d, 'c) actor \<Rightarrow> ('d, 'c) actor" where
  "respond_settings b attrs a =
     (if fstream b \<noteq> 0 then connection_error PROTOCOL_ERROR a
      else if flag_set F_ACK (fflags b) then
        (if flength b \<noteq> 0 then connection_error FRAME_SIZE_ERROR a else a)
      else if flength b mod 6 \<noteq> 0 then connection_error FRAME_SIZE_ERROR a
      else (case settings_valid attrs of
          Some code \<Rightarrow> connection_error code a
        | None \<Rightarrow> emit OSettingsAck (apply_peer_settings attrs a)))"

definition respond_priority ::
  "real \<Rightarrow> frame_base \<Rightarrow> nat \<Rightarrow> ('d, 'c) actor \<Rightarrow> ('d, 'c) actor" where
  "respond_priority now b dependent_stream a =
     (if dependent_stream = fstream b then send_rst now (fstream b) PROTOCOL_ERROR a else a)"

text \<open>
  \<^verbatim>\<open>find_stream(0)\<close> is the root, whose hint nobody reads. A hint for a dispatched request is written
  into the extensions of its connection as well.
\<close>

definition set_hint :: "int \<times> bool \<Rightarrow> connection stream \<Rightarrow> connection stream" where
  "set_hint h s =
     s\<lparr>priority_hint := Some h,
       conn := map_option (\<lambda>c. c\<lparr>c_extensions :=
                 map_option (\<lambda>(_, w). (h, w)) (c_extensions c)\<rparr>) (conn s)\<rparr>"

definition respond_priority_update ::
  "nat \<Rightarrow> pystr \<Rightarrow> ('d, 'c) actor \<Rightarrow> ('d, 'c) actor" where
  "respond_priority_update prioritized field a =
     (let hint = parse_priority_field field
      in if prioritized = 0 then a
         else (case dict_get (streams a) prioritized of
             Some s \<Rightarrow> a\<lparr>streams := dict_set prioritized (set_hint hint s) (streams a)\<rparr>
           | None \<Rightarrow>
               if length (streams a) \<ge> cf_max_concurrent_streams (cfg a) then a
               else a\<lparr>streams := dict_set prioritized (set_hint hint (new_stream prioritized)) (streams a)\<rparr>))"

definition respond_rst_stream :: "frame_base \<Rightarrow> ('d, 'c) actor \<Rightarrow> ('d, 'c) actor" where
  "respond_rst_stream b a =
     (let sid = fstream b
      in if sid = 0 then connection_error PROTOCOL_ERROR a
         else (case dict_get (streams a) sid of
             None \<Rightarrow> connection_error PROTOCOL_ERROR a
           | Some s \<Rightarrow>
               if state s = IDLE then connection_error PROTOCOL_ERROR a
               else
                 let a = (if sid \<in> set (stream_tasks a) then emit (OCancel sid) a else a);
                     a = a\<lparr>streams := dict_pop sid (streams a)\<rparr>;
                     a = mark_closed sid True a;
                     a = a\<lparr>senders := dict_pop sid (senders a)\<rparr>
                 in pop_recipient sid a))"

subsection \<open>The frame loop\<close>

definition FRAME_SIZE_CONNECTION_ERROR_TYPES :: "frame_types list" where
  "FRAME_SIZE_CONNECTION_ERROR_TYPES = [HEADERS, CONTINUATION, PUSH_PROMISE, SETTINGS]"

definition STREAM_ONLY_FRAME_TYPES :: "frame_types list" where
  "STREAM_ONLY_FRAME_TYPES = [DATA, HEADERS, PRIORITY, RST_STREAM, PUSH_PROMISE, CONTINUATION]"

fun base_of :: "frame \<Rightarrow> frame_base option" where
  "base_of (SettingFrame b _ _) = Some b"
| "base_of (WindowUpdate b _ _) = Some b"
| "base_of (Headers b _) = Some b"
| "base_of (PushPromise b _ _ _) = Some b"
| "base_of (GoAway b _ _ _) = Some b"
| "base_of (RstStream b _) = Some b"
| "base_of (Data b _) = Some b"
| "base_of (Priority b _ _ _) = Some b"
| "base_of (Ping b _) = Some b"
| "base_of (Continuation b _) = Some b"
| "base_of (PriorityUpdate b _ _) = Some b"
| "base_of (UnknownFrame _ _ _ _ _) = None"

definition on_trailers ::
  "real \<Rightarrow> bool \<Rightarrow> connection stream \<Rightarrow> ('d, 'c) actor \<Rightarrow> outcome \<times> ('d, 'c) actor" where
  "on_trailers now end_stream s a =
     (if \<not> end_stream then (Continue, send_rst now (stream_id s) PROTOCOL_ERROR a)
      else
        let a = set_stream (on_data_received True s) a
        in (case dict_get (recipients a) (stream_id s) of
              None \<Rightarrow> (Continue, a)
            | Some (HttpIn r) \<Rightarrow>
                (Continue, a\<lparr>recipients :=
                   dict_set (stream_id s) (HttpIn (snd (put_end_of_stream r))) (recipients a)\<rparr>)
            | Some (WsIn _) \<Rightarrow> (Raise NoAttribute, a)))"

definition dispatch_headers ::
  "'c hpack_encoder \<Rightarrow> bytes \<Rightarrow> (pystr \<Rightarrow> bool) \<Rightarrow> real \<Rightarrow> frame_base \<Rightarrow> header_block
   \<Rightarrow> connection stream \<Rightarrow> ('d, 'c) actor \<Rightarrow> outcome \<times> ('d, 'c) actor" where
  "dispatch_headers enc date netloc_ok now b hb s a =
     (if conn s \<noteq> None \<and> flag_set F_END_HEADERS (fflags b)
      then on_trailers now (flag_set F_END_STREAM (fflags b)) s a
      else
        (case on_headers_frame enc date netloc_ok now b hb s (snd (make_sender (stream_id s) a)) of
           (Spawned, a) \<Rightarrow> (Continue, a)
         | (Awaiting, a) \<Rightarrow>
             (Continue, a\<lparr>waiting_continuation := True, header_frame := Some (b, hb),
                          header_block_since := Some now\<rparr>)
         | (Escapes oc, a) \<Rightarrow> (oc, a)))"

definition dispatch_continuation ::
  "'d hpack_decoder \<Rightarrow> 'c hpack_encoder \<Rightarrow> bytes \<Rightarrow> (pystr \<Rightarrow> bool) \<Rightarrow> real \<Rightarrow> frame_base \<Rightarrow> bytes
   \<Rightarrow> connection stream \<Rightarrow> ('d, 'c) actor \<Rightarrow> outcome \<times> ('d, 'c) actor" where
  "dispatch_continuation dec enc date netloc_ok now b payload s a =
     (case on_continuation_frame dec enc date netloc_ok now b payload s
             (snd (make_sender (stream_id s) a)) of
        (Spawned, a) \<Rightarrow> (Continue, a\<lparr>waiting_continuation := False, header_block_since := None\<rparr>)
      | (Awaiting, a) \<Rightarrow> (Continue, a)
      | (Escapes oc, a) \<Rightarrow> (oc, a))"

text \<open>
  The \<^verbatim>\<open>match\<close> at the end of a turn. \<open>st\<close> is the stream, \<open>None\<close> on stream 0 and for PRIORITY on a
  stream that does not exist; the frames that need one never get here without it.
\<close>

definition dispatch ::
  "'d hpack_decoder \<Rightarrow> 'c hpack_encoder \<Rightarrow> bytes \<Rightarrow> (pystr \<Rightarrow> bool) \<Rightarrow> real \<Rightarrow> frame
   \<Rightarrow> connection stream option \<Rightarrow> ('d, 'c) actor \<Rightarrow> outcome \<times> ('d, 'c) actor" where
  "dispatch dec enc date netloc_ok now f st a =
     (case f of
        Headers b hb \<Rightarrow>
          (case st of None \<Rightarrow> (Raise NoAttribute, a)
           | Some s \<Rightarrow> dispatch_headers enc date netloc_ok now b hb s a)
      | Continuation b payload \<Rightarrow>
          (case st of None \<Rightarrow> (Raise NoAttribute, a)
           | Some s \<Rightarrow> dispatch_continuation dec enc date netloc_ok now b payload s a)
      | Data b payload \<Rightarrow>
          (case st of None \<Rightarrow> (Raise NoAttribute, a)
           | Some s \<Rightarrow> (Continue, on_data_frame now b payload s a))
      | GoAway _ _ _ _ \<Rightarrow>
          (Return, signal_recipients (emit (OGoaway (last_peer_stream_id a) NO_ERROR) a))
      | Ping b payload \<Rightarrow> (Continue, respond_ping b payload a)
      | WindowUpdate b _ increment \<Rightarrow> (Continue, respond_window_update now b increment a)
      | SettingFrame b _ attrs \<Rightarrow> (Continue, respond_settings b attrs a)
      | Priority b _ dep _ \<Rightarrow> (Continue, respond_priority now b dep a)
      | PriorityUpdate _ sid field \<Rightarrow> (Continue, respond_priority_update sid field a)
      | RstStream b _ \<Rightarrow> (Continue, respond_rst_stream b a)
      | PushPromise _ _ _ _ \<Rightarrow> (Raise UnsupportedFrame, a)
      | UnknownFrame _ _ _ _ _ \<Rightarrow> (Continue, a))"

definition check_state ::
  "'d hpack_decoder \<Rightarrow> 'c hpack_encoder \<Rightarrow> bytes \<Rightarrow> (pystr \<Rightarrow> bool) \<Rightarrow> real \<Rightarrow> frame \<Rightarrow> frame_base
   \<Rightarrow> connection stream option \<Rightarrow> ('d, 'c) actor \<Rightarrow> outcome \<times> ('d, 'c) actor" where
  "check_state dec enc date netloc_ok now f b st a =
     (case (case st of None \<Rightarrow> None | Some s \<Rightarrow> validate_stream_state (state s) (ftype b)) of
        Some (code, ConnectionLevel) \<Rightarrow> (Continue, connection_error code a)
      | Some (code, StreamLevel) \<Rightarrow> (Continue, send_rst now (fstream b) code a)
      | None \<Rightarrow> dispatch dec enc date netloc_ok now f st a)"

text \<open>Whether a stream without a node counts as closed, and if so whether by a reset.\<close>

definition closed_via :: "nat \<Rightarrow> ('d, 'c) actor \<Rightarrow> bool option" where
  "closed_via sid a =
     (case dict_get (closed_streams a) sid of
        Some via_rst \<Rightarrow> Some via_rst
      | None \<Rightarrow> if 0 < sid \<and> sid \<le> closed_high_water a then Some False else None)"

definition find_or_create ::
  "'d hpack_decoder \<Rightarrow> 'c hpack_encoder \<Rightarrow> bytes \<Rightarrow> (pystr \<Rightarrow> bool) \<Rightarrow> real \<Rightarrow> frame \<Rightarrow> frame_base
   \<Rightarrow> ('d, 'c) actor \<Rightarrow> outcome \<times> ('d, 'c) actor" where
  "find_or_create dec enc date netloc_ok now f b a =
     (let sid = fstream b; st = dict_get (streams a) sid; go = check_state dec enc date netloc_ok now f b
      in if sid = 0 \<or> st \<noteq> None then go st a
         else (case closed_via sid a of
             Some via_rst \<Rightarrow>
               if ftype b = PRIORITY then go None a
               else if ftype b = HEADERS \<or> ftype b = CONTINUATION
               then (Continue, connection_error STREAM_CLOSED a)
               else if \<not> via_rst \<and> (ftype b = WINDOW_UPDATE \<or> ftype b = RST_STREAM) then (Continue, a)
               else (Continue, send_rst now sid STREAM_CLOSED a)
           | None \<Rightarrow>
               if ftype b = HEADERS then
                 (if even sid then (Continue, connection_error PROTOCOL_ERROR a)
                  else if sid \<le> last_peer_stream_id a then (Continue, connection_error PROTOCOL_ERROR a)
                  else
                    let s = new_stream sid
                    in go (Some s) (a\<lparr>last_peer_stream_id := sid, streams := dict_set sid s (streams a)\<rparr>))
               else if ftype b = PRIORITY then go None a
               else (Continue, connection_error PROTOCOL_ERROR a)))"

definition process ::
  "'d hpack_decoder \<Rightarrow> 'c hpack_encoder \<Rightarrow> bytes \<Rightarrow> (pystr \<Rightarrow> bool) \<Rightarrow> real \<Rightarrow> frame \<Rightarrow> frame_base
   \<Rightarrow> ('d, 'c) actor \<Rightarrow> outcome \<times> ('d, 'c) actor" where
  "process dec enc date netloc_ok now f b a =
     (if flength b > DEFAULT_MAX_FRAME_SIZE then
        (Continue, if ftype b \<in> set FRAME_SIZE_CONNECTION_ERROR_TYPES \<or> fstream b = 0
                   then connection_error FRAME_SIZE_ERROR a
                   else send_rst now (fstream b) FRAME_SIZE_ERROR a)
      else if fstream b = 0 \<and> ftype b \<in> set STREAM_ONLY_FRAME_TYPES
      then (Continue, connection_error PROTOCOL_ERROR a)
      else if ftype b = CONTINUATION \<and> \<not> waiting_continuation a
      then (Continue, connection_error PROTOCOL_ERROR a)
      else if ftype b = PRIORITY \<and> flength b \<noteq> 5
      then (Continue, send_rst now (fstream b) FRAME_SIZE_ERROR a)
      else find_or_create dec enc date netloc_ok now f b a)"

definition metered ::
  "'d hpack_decoder \<Rightarrow> 'c hpack_encoder \<Rightarrow> bytes \<Rightarrow> (pystr \<Rightarrow> bool) \<Rightarrow> real \<Rightarrow> frame
   \<Rightarrow> ('d, 'c) actor \<Rightarrow> outcome \<times> ('d, 'c) actor" where
  "metered dec enc date netloc_ok now f a =
     (case base_of f of
        None \<Rightarrow> (Continue, if waiting_continuation a then connection_error PROTOCOL_ERROR a else a)
      | Some b \<Rightarrow>
          if waiting_continuation a \<and> ftype b \<noteq> CONTINUATION
          then (Continue, connection_error PROTOCOL_ERROR a)
          else
            let (stop, a) = meter_type now (ftype b) a
            in if stop then (Continue, a)
               else
                 let (stop, a) = meter_empty now b a
                 in if stop then (Continue, a) else process dec enc date netloc_ok now f b a)"

text \<open>One turn of \<^verbatim>\<open>_frame_loop\<close> on what \<^verbatim>\<open>receive\<close> returned.\<close>

definition frame_turn ::
  "'d hpack_decoder \<Rightarrow> 'c hpack_encoder \<Rightarrow> bytes \<Rightarrow> (pystr \<Rightarrow> bool) \<Rightarrow> real \<Rightarrow> bytes
   \<Rightarrow> ('d, 'c) actor \<Rightarrow> outcome \<times> ('d, 'c) actor" where
  "frame_turn dec enc date netloc_ok now data a =
     (if data = [] then (Return, signal_recipients a)
      else
        let a = a\<lparr>last_frame_at := now, probe_sent_at := None\<rparr>
        in if goaway_sent a then (Return, signal_recipients a)
           else if oversize_frame_len a \<noteq> 0 then
             (Return, signal_recipients
                        (connection_error FRAME_SIZE_ERROR (a\<lparr>oversize_frame_len := 0\<rparr>)))
           else (case load dec (dec_st a) data of
               Inl e \<Rightarrow> (Raise (H2 e), a)
             | Inr (f, d) \<Rightarrow> metered dec enc date netloc_ok now f (a\<lparr>dec_st := d\<rparr>)))"

text \<open>\<^verbatim>\<open>receive\<close> on the octets that arrive before the end of the stream; \<open>[]\<close> is the end.\<close>

definition receive :: "bytes \<Rightarrow> bytes \<times> nat \<times> bytes" where
  "receive input =
     (if length input < 9 then ([], 0, [])
      else
        let size = from_be (take 3 input)
        in if size > DEFAULT_MAX_FRAME_SIZE then (take 9 input, size, drop 9 input)
           else if length input < 9 + size then ([], 0, [])
           else (take (9 + size) input, 0, drop (9 + size) input))"

subsection \<open>Start and liveness\<close>

definition run_start :: "real \<Rightarrow> ('d, 'c) actor \<Rightarrow> ('d, 'c) actor" where
  "run_start now a =
     (let c = cfg a;
          a = emit (OSettings (cf_enable_websocket c) (cf_initial_window_size c)
                      (cf_max_concurrent_streams c)) a;
          a = (if int (cf_connection_window_size c) > DEFAULT_INITIAL_WINDOW_SIZE
               then emit (OWindowUpdate 0
                      (nat (int (cf_connection_window_size c) - DEFAULT_INITIAL_WINDOW_SIZE))) a
               else a)
      in a\<lparr>recipients := [], last_frame_at := now, probe_sent_at := None, header_block_since := None\<rparr>)"

datatype expiry = ProbeExpiry | HeaderExpiry | IdleExpiry

definition watchdog_target :: "('d, 'c) actor \<Rightarrow> (real \<times> expiry) option" where
  "watchdog_target a =
     (case probe_sent_at a of
        Some t \<Rightarrow> Some (t + cf_ping_timeout (cfg a), ProbeExpiry)
      | None \<Rightarrow>
          (case (header_block_since a, cf_header_timeout (cfg a) > 0) of
             (Some t, True) \<Rightarrow> Some (t + cf_header_timeout (cfg a), HeaderExpiry)
           | _ \<Rightarrow>
               if cf_idle_timeout (cfg a) > 0
               then Some (last_frame_at a + cf_idle_timeout (cfg a), IdleExpiry) else None))"

text \<open>One pass of \<^verbatim>\<open>_liveness_watchdog\<close>; the flag says whether it goes on.\<close>

definition watchdog_turn :: "real \<Rightarrow> ('d, 'c) actor \<Rightarrow> bool \<times> ('d, 'c) actor" where
  "watchdog_turn now a =
     (if cf_idle_timeout (cfg a) \<le> 0 \<and> cf_header_timeout (cfg a) \<le> 0 then (False, a)
      else (case watchdog_target a of
          None \<Rightarrow> (True, a)
        | Some (wake_at, expired) \<Rightarrow>
            if wake_at > now then (True, a)
            else (case expired of
                HeaderExpiry \<Rightarrow> (False, close_connection ENHANCE_YOUR_CALM a)
              | ProbeExpiry \<Rightarrow> (False, close_connection NO_ERROR a)
              | IdleExpiry \<Rightarrow> (True, emit OPing (a\<lparr>probe_sent_at := Some now\<rparr>)))))"

subsection \<open>The connection as a machine\<close>

text \<open>Reads by the application; the callback credits the stream while it still has a recipient.\<close>

definition app_read :: "nat \<Rightarrow> ('d, 'c) actor \<Rightarrow> ('d, 'c) actor" where
  "app_read sid a =
     (case dict_get (recipients a) sid of
        Some (HttpIn r) \<Rightarrow>
          (case recv_call r of
             (Blocks, r') \<Rightarrow> a\<lparr>recipients := dict_set sid (HttpIn r') (recipients a)\<rparr>
           | (Returns (_, c), r') \<Rightarrow>
               let a = a\<lparr>recipients := dict_set sid (HttpIn r') (recipients a)\<rparr>
               in if c > 0 then credit_both sid c a else a)
      | _ \<Rightarrow> a)"

definition ws_read :: "nat \<Rightarrow> nat \<Rightarrow> ('d, 'c) actor \<Rightarrow> ('d, 'c) actor" where
  "ws_read sid n a =
     (case dict_get (recipients a) sid of
        Some (WsIn w) \<Rightarrow>
          (case readexactly n w of
             (Returns (Inr (_, c)), w') \<Rightarrow>
               let a = a\<lparr>recipients := dict_set sid (WsIn w') (recipients a)\<rparr>
               in if c > 0 then credit_both sid c a else a
           | (_, w') \<Rightarrow> a\<lparr>recipients := dict_set sid (WsIn w') (recipients a)\<rparr>)
      | _ \<Rightarrow> a)"

text \<open>
  \<open>StreamReset\<close> is the RST_STREAM a stream's own task sends when it fails, times out or stalls.
  A task finishes at most once.
\<close>

datatype conn_event =
    Inbound real bytes nat
  | TaskDone nat bool
  | AppRead nat
  | WsRead nat nat
  | StreamReset real nat error_codes
  | Watchdog real

definition conn_step ::
  "'d hpack_decoder \<Rightarrow> 'c hpack_encoder \<Rightarrow> bytes \<Rightarrow> (pystr \<Rightarrow> bool)
   \<Rightarrow> outcome \<times> ('d, 'c) actor \<Rightarrow> conn_event \<Rightarrow> outcome \<times> ('d, 'c) actor" where
  "conn_step dec enc date netloc_ok st ev =
     (case ev of
        Inbound now data oversize \<Rightarrow>
          if fst st = Continue
          then frame_turn dec enc date netloc_ok now data ((snd st)\<lparr>oversize_frame_len := oversize\<rparr>)
          else st
      | TaskDone sid is_ws \<Rightarrow>
          if (sid, is_ws) \<in> set (live (snd st)) then (fst st, task_done sid is_ws (snd st)) else st
      | AppRead sid \<Rightarrow> (fst st, app_read sid (snd st))
      | WsRead sid n \<Rightarrow> (fst st, ws_read sid n (snd st))
      | StreamReset now sid code \<Rightarrow> (fst st, send_rst now sid code (snd st))
      | Watchdog now \<Rightarrow> (fst st, snd (watchdog_turn now (snd st))))"

end
