(* ===== verification/H2_Conn_Props.thy ===== *)
theory H2_Conn_Props
  imports H2_Conn
begin

text \<open>
  What the HTTP/2 connection machine guarantees: stream accounting and the caps, bounds on what a
  peer can make the connection keep, what ends a connection, and the defects found while
  modelling it, each as a theorem about a concrete or general run.
\<close>

subsection \<open>The part of the state the invariants are about\<close>

definition view ::
  "('d, 'c) actor \<Rightarrow> (h2_cfg \<times> nat \<times> nat \<times> (nat \<times> bool) list)
     \<times> (bool \<times> (frame_base \<times> header_block) option) \<times> (nat, bool) dict \<times> int" where
  "view a =
     ((cfg a, active_stream_count a, ws_stream_count a, live a),
      (waiting_continuation a, header_frame a), closed_streams a, conn_window a)"

named_theorems view_simps \<open>operations that the invariants do not see\<close>

lemma view_upd [view_simps]:
  "view (a\<lparr>out := x1\<rparr>) = view a" "view (a\<lparr>goaway_sent := x2\<rparr>) = view a"
  "view (a\<lparr>rst_meter := x3\<rparr>) = view a" "view (a\<lparr>ping_meter := x3\<rparr>) = view a"
  "view (a\<lparr>settings_meter := x3\<rparr>) = view a" "view (a\<lparr>empty_frame_meter := x3\<rparr>) = view a"
  "view (a\<lparr>streams := x4\<rparr>) = view a" "view (a\<lparr>senders := x5\<rparr>) = view a"
  "view (a\<lparr>recipients := x6\<rparr>) = view a" "view (a\<lparr>closed_high_water := x8\<rparr>) = view a"
  "view (a\<lparr>peer_initial_window_size := x9\<rparr>) = view a" "view (a\<lparr>enc_state := x10\<rparr>) = view a"
  "view (a\<lparr>dec_st := x11\<rparr>) = view a" "view (a\<lparr>header_block_since := x14\<rparr>) = view a"
  "view (a\<lparr>last_peer_stream_id := x8\<rparr>) = view a" "view (a\<lparr>last_frame_at := x15\<rparr>) = view a"
  "view (a\<lparr>probe_sent_at := x14\<rparr>) = view a" "view (a\<lparr>oversize_frame_len := x8\<rparr>) = view a"
  "view (a\<lparr>stream_tasks := x16\<rparr>) = view a"
  by (simp_all add: view_def)

lemma view_emit [view_simps]: "view (emit x a) = view a"
  by (simp add: emit_def view_simps)

lemma view_close [view_simps]: "view (close_connection code a) = view a"
  by (simp add: close_connection_def view_simps)

lemma view_error [view_simps]: "view (connection_error code a) = view a"
  by (simp add: connection_error_def view_simps)

lemma view_send_rst [view_simps]: "view (send_rst now sid code a) = view a"
  by (simp add: send_rst_def count_emitted_rst_def view_simps Let_def split: prod.split)

lemma view_meter [view_simps]:
  "view (snd (meter_type now t a)) = view a" "view (snd (meter_empty now b a)) = view a"
  by (simp_all add: meter_type_def meter_empty_def meter_result_def view_simps split: prod.split)

lemma view_make_sender [view_simps]: "view (snd (make_sender sid a)) = view a"
  by (simp add: make_sender_def view_simps Let_def split: option.split)

lemma view_signal [view_simps]: "view (signal_recipients a) = view a"
  by (simp add: signal_recipients_def view_simps)

lemma view_pop_recipient [view_simps]: "view (pop_recipient sid a) = view a"
  by (simp add: pop_recipient_def release_recipient_credit_def view_simps Let_def split: option.split)

lemma view_set_stream [view_simps]: "view (set_stream s a) = view a"
  by (simp add: set_stream_def view_simps)

lemma view_credit [view_simps]: "view (credit_both sid n a) = view a"
  by (simp add: credit_both_def view_simps)

lemma view_deliver [view_simps]: "view (deliver_data now b payload sid rc a) = view a"
  by (simp add: deliver_data_def view_simps Let_def split: inbound.split prod.split)

lemma view_data [view_simps]: "view (on_data_frame now b payload s a) = view a"
  by (simp add: on_data_frame_def view_simps Let_def split: option.split)

lemma view_responders [view_simps]:
  "view (respond_ping b p a) = view a"
  "view (respond_settings b attrs a) = view a"
  "view (respond_priority now b dep a) = view a"
  "view (respond_priority_update sid fld a) = view a"
  by (simp_all add: respond_ping_def respond_settings_def respond_priority_def
      respond_priority_update_def apply_peer_settings_def map_senders_def
      view_simps Let_def split: option.split)

lemma view_reads [view_simps]: "view (app_read sid a) = view a" "view (ws_read sid n a) = view a"
  by (simp_all add: app_read_def ws_read_def view_simps Let_def
      split: option.split inbound.split prod.split wait.split sum.split)

lemma view_watchdog [view_simps]: "view (snd (watchdog_turn now a)) = view a"
  by (simp add: watchdog_turn_def view_simps split: option.split prod.split expiry.split)

lemma view_trailers [view_simps]: "view (snd (on_trailers now e s a)) = view a"
  by (simp add: on_trailers_def view_simps Let_def split: option.split inbound.split)

subsection \<open>The invariant\<close>

definition MAX_HEADER :: "h2_cfg \<Rightarrow> nat" where
  "MAX_HEADER c = max DEFAULT_MAX_FRAME_SIZE (cf_header_max_total c)"

text \<open>The bound on the header block holds whenever CONTINUATION is awaited.\<close>

definition counts_ok :: "('d, 'c) actor \<Rightarrow> bool" where
  "counts_ok a \<longleftrightarrow>
     active_stream_count a = length (live a)
     \<and> ws_stream_count a = length (filter snd (live a))
     \<and> active_stream_count a \<le> cf_max_concurrent_streams (cfg a)
     \<and> (cf_ws_max_streams (cfg a) = 0 \<or> ws_stream_count a \<le> cf_ws_max_streams (cfg a))
     \<and> length (closed_streams a) \<le> CLOSED_STREAMS_CAP
     \<and> conn_window a \<le> MAX_FLOW_WINDOW"

definition header_ok :: "('d, 'c) actor \<Rightarrow> bool" where
  "header_ok a \<longleftrightarrow>
     \<not> waiting_continuation a
     \<or> (\<exists>b hb. header_frame a = Some (b, hb) \<and> length (raw_block hb) \<le> MAX_HEADER (cfg a))"

definition conn_ok :: "('d, 'c) actor \<Rightarrow> bool" where
  "conn_ok a \<longleftrightarrow> counts_ok a \<and> header_ok a"

lemma conn_ok_view:
  "view b = view a \<Longrightarrow> conn_ok b = conn_ok a" "view b = view a \<Longrightarrow> counts_ok b = counts_ok a"
  by (auto simp: view_def conn_ok_def counts_ok_def header_ok_def)

lemma counts_ok_header [simp]:
  "counts_ok (a\<lparr>header_frame := x\<rparr>) = counts_ok a"
  "counts_ok (a\<lparr>waiting_continuation := w\<rparr>) = counts_ok a"
  by (simp_all add: counts_ok_def)

definition room :: "('d, 'c) actor \<Rightarrow> bool" where
  "room a \<longleftrightarrow> active_stream_count a < cf_max_concurrent_streams (cfg a)"

lemma room_view: "view b = view a \<Longrightarrow> room b = room a"
  by (simp add: view_def room_def)

text \<open>What stays of the header state in operations that do touch the rest of the view.\<close>

definition hdr :: "('d, 'c) actor \<Rightarrow> h2_cfg \<times> bool \<times> (frame_base \<times> header_block) option" where
  "hdr a = (cfg a, waiting_continuation a, header_frame a)"

lemma header_ok_hdr: "hdr b = hdr a \<Longrightarrow> header_ok b = header_ok a"
  by (simp add: hdr_def header_ok_def)

lemma view_hdr: "view b = view a \<Longrightarrow> hdr b = hdr a"
  by (simp add: view_def hdr_def)

definition keeps :: "('d, 'c) actor \<Rightarrow> ('d, 'c) actor \<Rightarrow> bool" where
  "keeps a b \<longleftrightarrow> (counts_ok a \<longrightarrow> counts_ok b) \<and> hdr b = hdr a"

lemma keeps_view: "view b = view a \<Longrightarrow> keeps a b"
  using conn_ok_view(2) [of b a] view_hdr [of b a] by (simp add: keeps_def)

lemma keeps_trans: "keeps a b \<Longrightarrow> keeps b c \<Longrightarrow> keeps a c"
  by (simp add: keeps_def)

lemma keeps_before: "view b = view a \<Longrightarrow> keeps b c \<Longrightarrow> keeps a c"
  using conn_ok_view(2) [of b a] view_hdr [of b a] by (simp add: keeps_def)

lemma keeps_ok: "keeps a b \<Longrightarrow> conn_ok a \<Longrightarrow> conn_ok b"
  using header_ok_hdr [of b a] by (simp add: keeps_def conn_ok_def)

subsection \<open>The operations that change it\<close>

lemma keeps_mark_closed: "keeps a (mark_closed sid v a)"
proof -
  have "length (dict_set sid v (closed_streams a)) \<le> Suc (length (closed_streams a))"
    by (simp add: length_dict_set)
  then show ?thesis by (auto simp: keeps_def counts_ok_def hdr_def mark_closed_def Let_def)
qed

lemma keeps_rst_stream: "keeps a (respond_rst_stream b a)"
proof -
  have "keeps a (pop_recipient sid ((mark_closed sid v a')\<lparr>senders := x\<rparr>))" if "view a' = view a" for sid v a' x
    using that keeps_mark_closed [of a' sid v]
    by (intro keeps_before [OF that] keeps_trans [OF _ keeps_view [of "pop_recipient _ _"]])
       (simp_all add: view_simps)
  then show ?thesis
    by (simp add: respond_rst_stream_def keeps_view view_simps Let_def split: option.split)
qed

lemma keeps_window_update: "keeps a (respond_window_update now b n a)"
proof -
  obtain s a' where m: "make_sender (fstream b) a = (s, a')" by fastforce
  with view_make_sender [of "fstream b" a] have "view a' = view a" by simp
  with m show ?thesis
    by (simp add: respond_window_update_def keeps_view view_simps)
       (auto simp: keeps_def counts_ok_def hdr_def)
qed

lemma keeps_put_sender:
  "conn_win ch \<le> conn_window a \<Longrightarrow> keeps a (put_sender sid ch s a)"
  by (auto simp: keeps_def counts_ok_def hdr_def put_sender_def)

lemma keeps_refuse: "keeps a (snd (refuse_oversized_declared_body enc date now sid a))"
proof -
  obtain s a' where m: "make_sender sid a = (s, a')" by fastforce
  with view_make_sender [of sid a] have v: "view a' = view a" by simp
  let ?ch = "\<lparr>enc_st = enc_state a', conn_win = conn_window a', written = [], grants = []\<rparr>"
  have "keeps a' (put_sender sid ch s' a')"
    if "call enc date (BytesBody body st hs) ?ch s = Some (x, ch, s')" for body st hs x ch s'
    using that send_bytes_conn_win [of enc date body st hs ?ch s x ch s']
    by (intro keeps_put_sender) (auto simp: call_def ret_def split: if_splits)
  then have "keeps a (put_sender sid ch s' a')" "keeps a (send_rst now sid code (put_sender sid ch s' a'))"
    if "call enc date (BytesBody body st hs) ?ch s = Some (x, ch, s')" for body st hs x ch s' code
    using that keeps_before [OF v] keeps_trans [OF _ keeps_view [OF view_send_rst]] by blast+
  then show ?thesis
    using m v
    by (auto simp: refuse_oversized_declared_body_def keeps_view split: option.splits)
qed

lemma keeps_dispatch_request: "room a \<Longrightarrow> keeps a (dispatch_request e s c a)"
  by (auto simp: keeps_def counts_ok_def hdr_def room_def dispatch_request_def spawn_stream_task_def
      set_stream_def emit_def Let_def split: option.split)

lemma keeps_websocket:
  assumes "room a"
  shows "keeps a (handle_h2_websocket now sid a)"
proof (cases "cf_ws_max_streams (cfg a) > 0 \<and> ws_stream_count a \<ge> cf_ws_max_streams (cfg a)")
  case True
  then show ?thesis by (simp add: handle_h2_websocket_def keeps_view view_simps)
next
  case False
  have "view (snd (make_sender sid a)) = view a" by (simp add: view_simps)
  with False assms show ?thesis
    by (auto simp: handle_h2_websocket_def keeps_def counts_ok_def hdr_def room_def emit_def view_def Let_def)
qed

lemma keeps_on_headers: "keeps a (snd (on_headers_frame enc date nok now b hb s a))"
proof (cases "room a \<and> flag_set F_END_HEADERS (fflags b)")
  case False
  then show ?thesis by (auto simp: on_headers_frame_def room_def keeps_view view_simps Let_def)
next
  case free: True
  show ?thesis
  proof (cases "\<exists>c hb'. parse_headers nok hb = Inr (Some c, hb')")
    case False
    with free show ?thesis
      by (auto simp: on_headers_frame_def room_def keeps_view view_simps Let_def
          split: sum.split option.split)
  next
    case True
    then obtain c hb' where p: "parse_headers nok hb = Inr (Some c, hb')" by blast
    let ?s = "s\<lparr>expected_content_length := extract_content_length (c_headers c), conn := Some c\<rparr>"
    have v: "view (set_stream s' a) = view a" for s' by (simp add: view_simps)
    have "keeps a (handle_h2_websocket now sid (set_stream s' a))" for sid s'
      using keeps_before [OF v keeps_websocket] room_view [OF v] free by blast
    moreover have "keeps a (snd (refuse_oversized_declared_body enc date now sid (set_stream s' a)))"
      for sid s'
      using keeps_before [OF v keeps_refuse] .
    moreover have "keeps a (dispatch_request e s' c' a)" for e s' c'
      using free by (simp add: keeps_dispatch_request)
    ultimately show ?thesis
      using free p by (simp add: on_headers_frame_def room_def keeps_view view_simps Let_def)
  qed
qed

lemma keeps_headers_dispatch:
  assumes "conn_ok a" "length (raw_block hb) \<le> DEFAULT_MAX_FRAME_SIZE"
  shows "conn_ok (snd (dispatch_headers enc date nok now b hb s a))"
proof -
  let ?a = "snd (make_sender (stream_id s) a)"
  have "view ?a = view a" by (simp add: view_simps)
  then have "keeps a (snd (on_headers_frame enc date nok now b hb s ?a))"
    by (rule keeps_before [OF _ keeps_on_headers])
  with assms(1) have ok: "conn_ok (snd (on_headers_frame enc date nok now b hb s ?a))"
    by (rule keeps_ok [rotated])
  obtain h a' where r: "on_headers_frame enc date nok now b hb s ?a = (h, a')" by fastforce
  have "conn_ok (a'\<lparr>waiting_continuation := True, header_frame := Some (b, hb), header_block_since := Some now\<rparr>)"
    using ok r assms(2) by (auto simp: conn_ok_def header_ok_def counts_ok_def MAX_HEADER_def)
  moreover have "conn_ok (snd (on_trailers now e s a))" for e
    using conn_ok_view(1) [OF view_trailers] assms(1) by blast
  ultimately show ?thesis using ok r by (auto simp: dispatch_headers_def split: handled.split)
qed

text \<open>On the CONTINUATION path the grown block is within the cap, or nobody waits for it any more.\<close>

definition cont_ok :: "handled \<Rightarrow> ('d, 'c) actor \<Rightarrow> bool" where
  "cont_ok h a \<longleftrightarrow> counts_ok a
     \<and> (h = Spawned \<or> (\<exists>b hb. header_frame a = Some (b, hb) \<and> length (raw_block hb) \<le> MAX_HEADER (cfg a)))"

lemma keeps_cont_ok:
  "keeps a b \<Longrightarrow> cont_ok h a \<Longrightarrow> cont_ok h b" "keeps a b \<Longrightarrow> counts_ok a \<Longrightarrow> cont_ok Spawned b"
  by (auto simp: keeps_def cont_ok_def hdr_def)

lemma keeps_parse_fields: "parse_fields seen fs hb = Inr hb' \<Longrightarrow> raw_block hb' = raw_block hb"
  by (induction seen fs hb rule: parse_fields.induct)
     (auto simp: andThen_eq_Inr_iff mark_malformed_def Let_def split: if_splits option.splits)

lemma parse_payload_raw: "parse_payload dec d base hb = Inr (hb', d') \<Longrightarrow> raw_block hb' = raw_block hb"
  by (auto simp: parse_payload_def decode_block_def andThen_eq_Inr_iff mark_malformed_def Let_def
      dest!: keeps_parse_fields split: if_splits prod.splits option.splits)

lemma keeps_finish_block: "keeps a (snd (finish_block enc date nok now hb s a))"
proof -
  have v: "view (set_stream s' a) = view a" for s' by (simp add: view_simps)
  have "keeps a (snd (refuse_oversized_declared_body enc date now sid (set_stream s' a)))" for sid s'
    using keeps_before [OF v keeps_refuse] .
  moreover have "keeps a (dispatch_request e s' c' a)"
    if "\<not> cf_max_concurrent_streams (cfg a) \<le> active_stream_count a" for e s' c'
    using that by (simp add: keeps_dispatch_request room_def)
  ultimately show ?thesis
    by (auto simp: finish_block_def keeps_view view_simps Let_def split: sum.split option.split)
qed

lemma cont_ok_on_continuation:
  assumes "counts_ok a" "header_frame a = Some (hbase, hb)"
  shows "cont_ok (fst (on_continuation_frame dec enc date nok now b payload s a))
           (snd (on_continuation_frame dec enc date nok now b payload s a))"
proof -
  define hb1 where "hb1 = hb\<lparr>raw_block := raw_block hb @ payload\<rparr>"
  define a1 where "a1 = a\<lparr>header_frame := Some (hbase, hb1)\<rparr>"
  have c1: "counts_ok a1" using assms(1) by (simp add: a1_def)
  have rst: "cont_ok Spawned (send_rst now sid code a1)" for sid code
    using keeps_cont_ok(2) [OF keeps_view [OF view_send_rst] c1] .
  have "on_continuation_frame dec enc date nok now b payload s a =
    (if length (raw_block hb1) > cf_header_max_total (cfg a1)
     then (Spawned, send_rst now (stream_id s) ENHANCE_YOUR_CALM a1)
     else if \<not> flag_set F_END_HEADERS (fflags b) then (Awaiting, a1)
     else (case parse_payload dec (dec_st a1) hbase hb1 of
         Inl e \<Rightarrow> (Escapes (Raise (H2 e)), a1)
       | Inr (hb2, d') \<Rightarrow> finish_block enc date nok now hb2 s (a1\<lparr>header_frame := Some (hbase, hb2), dec_st := d'\<rparr>)))"
    by (simp add: on_continuation_frame_def assms(2) hb1_def a1_def Let_def split: sum.split)
  moreover have "cont_ok h a1" if "\<not> length (raw_block hb1) > cf_header_max_total (cfg a1)" for h
    using that c1 by (auto simp: cont_ok_def a1_def MAX_HEADER_def)
  moreover have "cont_ok h (snd (finish_block enc date nok now hb2 s (a1\<lparr>header_frame := Some (hbase, hb2), dec_st := d'\<rparr>)))"
    if "\<not> length (raw_block hb1) > cf_header_max_total (cfg a1)"
      "parse_payload dec (dec_st a1) hbase hb1 = Inr (hb2, d')" for h hb2 d'
    using that(1) parse_payload_raw [OF that(2)] c1
    by (intro keeps_cont_ok(1) [OF keeps_finish_block]) (auto simp: cont_ok_def counts_ok_def MAX_HEADER_def)
  ultimately show ?thesis using rst by (auto split: sum.split)
qed

lemma continuation_dispatch_ok:
  assumes "conn_ok a"
  shows "conn_ok (snd (dispatch_continuation dec enc date nok now b payload s a))"
proof -
  let ?a = "snd (make_sender (stream_id s) a)"
  have v: "view ?a = view a" by (simp add: view_simps)
  with assms have ok: "conn_ok ?a" using conn_ok_view(1) by blast
  let ?r = "on_continuation_frame dec enc date nok now b payload s ?a"
  show ?thesis
  proof (cases "header_frame ?a")
    case None
    with ok have "conn_ok (connection_error PROTOCOL_ERROR ?a)"
      using conn_ok_view(1) [OF view_error] by blast
    with None show ?thesis
      by (auto simp: dispatch_continuation_def on_continuation_frame_def conn_ok_def header_ok_def counts_ok_def)
  next
    case (Some hf)
    obtain hbase hb where "header_frame ?a = Some (hbase, hb)" using Some by (cases hf) simp
    with ok have "cont_ok (fst ?r) (snd ?r)" by (simp add: cont_ok_on_continuation conn_ok_def)
    then show ?thesis
      by (auto simp: dispatch_continuation_def cont_ok_def conn_ok_def header_ok_def counts_ok_def
          split: handled.split prod.split)
  qed
qed

subsection \<open>Every turn keeps the invariant\<close>

definition small_block :: "frame \<Rightarrow> bool" where
  "small_block f = (case f of Headers b hb \<Rightarrow> length (raw_block hb) \<le> flength b | _ \<Rightarrow> True)"

lemma dispatch_ok:
  assumes "conn_ok a" "small_block f" "base_of f = Some b" "flength b \<le> DEFAULT_MAX_FRAME_SIZE"
  shows "conn_ok (snd (dispatch dec enc date nok now f st a))"
proof -
  have same: "conn_ok x" if "view x = view a" for x :: "('a, 'b) actor"
    using conn_ok_view(1) [OF that] assms(1) by simp
  have "conn_ok (respond_rst_stream b a)" "conn_ok (respond_window_update now b n a)" for b n
    using keeps_ok [OF keeps_rst_stream assms(1)] keeps_ok [OF keeps_window_update assms(1)] .
  moreover have "conn_ok (snd (dispatch_headers enc date nok now b hb s a))" if "f = Headers b hb" for hb s
    using assms that by (intro keeps_headers_dispatch) (auto simp: small_block_def)
  ultimately show ?thesis
    using assms(1,3)
    by (auto simp: dispatch_def same view_simps continuation_dispatch_ok split: frame.split option.split)
qed

lemma check_state_ok:
  assumes "conn_ok a" "small_block f" "base_of f = Some b" "flength b \<le> DEFAULT_MAX_FRAME_SIZE"
  shows "conn_ok (snd (check_state dec enc date nok now f b st a))"
  using dispatch_ok [OF assms] conn_ok_view(1) [OF view_error, of _ a] conn_ok_view(1) [OF view_send_rst, of now _ _ a] assms(1)
  by (auto simp: check_state_def split: option.split level.split)

lemma process_ok:
  assumes "conn_ok a" "small_block f" "base_of f = Some b"
  shows "conn_ok (snd (process dec enc date nok now f b a))"
proof -
  note eq = conn_ok_view(1) [OF view_error, of _ a] conn_ok_view(1) [OF view_send_rst, of now _ _ a]
  have "conn_ok (a\<lparr>last_peer_stream_id := x, streams := y\<rparr>)" for x y
    using assms(1) conn_ok_view(1) [of "a\<lparr>last_peer_stream_id := x, streams := y\<rparr>" a] by (simp add: view_simps)
  then have "conn_ok (snd (find_or_create dec enc date nok now f b a))" if "flength b \<le> DEFAULT_MAX_FRAME_SIZE"
    using assms that eq
    by (auto simp: find_or_create_def check_state_ok [OF _ assms(2,3) that] Let_def split: option.split)
  then show ?thesis using eq assms(1) by (auto simp: process_def)
qed

lemma metered_ok:
  assumes "conn_ok a" "small_block f"
  shows "conn_ok (snd (metered dec enc date nok now f a))"
proof (cases "base_of f")
  case None
  then show ?thesis using assms(1) conn_ok_view(1) [OF view_error, of _ a] by (simp add: metered_def)
next
  case (Some b)
  obtain s1 a1 where m1: "meter_type now (ftype b) a = (s1, a1)" by fastforce
  obtain s2 a2 where m2: "meter_empty now b a1 = (s2, a2)" by fastforce
  have "view a1 = view a" "view a2 = view a1"
    using m1 m2 view_meter(1) [of now "ftype b" a] view_meter(2) [of now b a1] by simp_all
  with assms(1) have "conn_ok a1" "conn_ok a2" using conn_ok_view(1) by (metis, metis)
  with Some m1 m2 assms conn_ok_view(1) [OF view_error, of _ a] show ?thesis
    by (simp add: metered_def process_ok [OF _ assms(2) Some])
qed

lemma load_small_block: "load dec d data = Inr (f, d') \<Longrightarrow> small_block f"
  by (auto simp: load_def create_def small_block_def mk_Headers_def mk_SettingFrame_def mk_WindowUpdate_def
      mk_PushPromise_def mk_GoAway_def mk_RstStream_def mk_Data_def mk_Priority_def mk_Ping_def
      mk_PriorityUpdate_def empty_block_def andThen_eq_Inr_iff Let_def
      dest!: parse_payload_raw split: if_splits option.splits frame_types.splits prod.splits)

lemma frame_turn_ok:
  assumes "conn_ok a"
  shows "conn_ok (snd (frame_turn dec enc date nok now data a))"
proof -
  have same: "conn_ok x" if "view x = view a" for x :: "('a, 'b) actor"
    using conn_ok_view(1) [OF that] assms by simp
  have "conn_ok (snd (metered dec enc date nok now f (a\<lparr>last_frame_at := x, probe_sent_at := y, dec_st := z\<rparr>)))"
    if "load dec d data = Inr (f, z)" for f x y z d
    using that by (intro metered_ok same load_small_block) (auto simp: view_simps)
  then show ?thesis
    by (auto simp: frame_turn_def same view_simps Let_def split: sum.split)
qed

lemma length_filter_remove1:
  "x \<in> set l \<Longrightarrow> length (filter P (remove1 x l)) = length (filter P l) - (if P x then 1 else 0)"
proof (induction l)
  case (Cons y l)
  then show ?case by (cases "filter P l") (auto simp: filter_empty_conv Suc_diff_le)
qed simp

lemma task_done_ok:
  assumes "conn_ok a" "(sid, w) \<in> set (live a)"
  shows "conn_ok (task_done sid w a)"
proof -
  define a1 where "a1 = a\<lparr>active_stream_count := active_stream_count a - 1,
    ws_stream_count := (if w then ws_stream_count a - 1 else ws_stream_count a),
    stream_tasks := removeAll sid (stream_tasks a), senders := dict_pop sid (senders a),
    live := remove1 (sid, w) (live a)\<rparr>"
  define a2 where "a2 = pop_recipient sid a1"
  have "length (remove1 (sid, w) (live a)) = length (live a) - 1"
    using assms(2) by (simp add: length_remove1)
  then have "conn_ok a1"
    using assms(1) length_filter_remove1 [OF assms(2), of snd]
    by (auto simp: a1_def conn_ok_def counts_ok_def header_ok_def)
  then have "conn_ok a2" unfolding a2_def using conn_ok_view(1) [OF view_pop_recipient] by blast
  moreover from this have "conn_ok (a2\<lparr>streams := x\<rparr>)" for x using conn_ok_view(1) [OF view_upd(7)] by blast
  then have "conn_ok (mark_closed sid False (a2\<lparr>streams := x\<rparr>))" for x
    using keeps_ok [OF keeps_mark_closed] by blast
  moreover have "task_done sid w a = (if dict_get (streams a2) sid \<noteq> None
      then mark_closed sid False (a2\<lparr>streams := dict_pop sid (streams a2)\<rparr>) else a2)"
    by (simp only: task_done_def a2_def a1_def Let_def)
  ultimately show ?thesis by simp
qed

lemma conn_step_ok:
  assumes "conn_ok (snd st)"
  shows "conn_ok (snd (conn_step dec enc date nok st ev))"
proof (cases ev)
  case (Inbound now data n)
  have "conn_ok ((snd st)\<lparr>oversize_frame_len := n\<rparr>)"
    using assms conn_ok_view(1) [of "(snd st)\<lparr>oversize_frame_len := n\<rparr>" "snd st"] by (simp add: view_simps)
  with assms Inbound show ?thesis by (simp add: conn_step_def frame_turn_ok)
next
  case (TaskDone sid w)
  with assms show ?thesis by (simp add: conn_step_def task_done_ok)
next
  case (StreamReset now sid code)
  with assms show ?thesis using conn_ok_view(1) [OF view_send_rst] by (auto simp: conn_step_def)
next
  case (Watchdog now)
  with assms show ?thesis using conn_ok_view(1) [OF view_watchdog] by (auto simp: conn_step_def)
next
  case (AppRead sid)
  with assms show ?thesis using conn_ok_view(1) [OF view_reads(1)] by (auto simp: conn_step_def)
next
  case (WsRead sid n)
  with assms show ?thesis using conn_ok_view(1) [OF view_reads(2)] by (auto simp: conn_step_def)
qed

interpretation cm: invariant_machine "conn_step dec enc date nok" "\<lambda>st. conn_ok (snd st)" "\<lambda>_. True"
  by unfold_locales (rule conn_step_ok)

lemma new_actor_ok: "conn_ok (new_actor c d e)"
  by (simp add: conn_ok_def counts_ok_def header_ok_def new_actor_def DEFAULT_INITIAL_WINDOW_SIZE_def
      MAX_FLOW_WINDOW_def Let_def)

definition run_conn ::
  "'d hpack_decoder \<Rightarrow> 'c hpack_encoder \<Rightarrow> bytes \<Rightarrow> (pystr \<Rightarrow> bool) \<Rightarrow> h2_cfg \<Rightarrow> 'd \<Rightarrow> 'c
   \<Rightarrow> conn_event list \<Rightarrow> outcome \<times> ('d, 'c) actor" where
  "run_conn dec enc date netloc_ok c d e evs =
     foldl (conn_step dec enc date netloc_ok) (Continue, new_actor c d e) evs"

lemma run_conn_ok: "conn_ok (snd (run_conn dec enc date nok c d e evs))"
  unfolding run_conn_def using cm.run_inv [of "(Continue, new_actor c d e)"] new_actor_ok
  by (metis list.pred_True snd_conv)

text \<open>
  C1. The stream counters never drift and the caps hold: after every sequence of frames, finished
  tasks, application reads, resets and watchdog wake-ups, the number of active streams is exactly
  the number of tasks still running, at most \<^verbatim>\<open>h2_max_concurrent_streams\<close>, and the number of
  WebSocket streams is exactly the number of their tasks, at most the configured cap when there
  is one.
\<close>

theorem stream_accounting:
  "let a = snd (run_conn dec enc date netloc_ok c d e evs)
   in active_stream_count a = length (live a)
      \<and> ws_stream_count a = length (filter snd (live a))
      \<and> active_stream_count a \<le> cf_max_concurrent_streams (cfg a)
      \<and> (cf_ws_max_streams (cfg a) = 0 \<or> ws_stream_count a \<le> cf_ws_max_streams (cfg a))"
  using run_conn_ok [of dec enc date netloc_ok c d e evs] unfolding conn_ok_def counts_ok_def Let_def
  by blast

text \<open>The header block collected so far while CONTINUATION frames are awaited.\<close>

definition pending_block :: "('d, 'c) actor \<Rightarrow> bytes" where
  "pending_block a =
     (if waiting_continuation a
      then (case header_frame a of None \<Rightarrow> [] | Some (b, hb) \<Rightarrow> raw_block hb)
      else [])"


subsection \<open>The end of a connection\<close>

lemma goaway_frame_turn:
  "goaway_sent a \<Longrightarrow> goaway_sent (snd (frame_turn dec enc date nok now data a))
     \<and> live (snd (frame_turn dec enc date nok now data a)) = live a
     \<and> out (snd (frame_turn dec enc date nok now data a)) = out a
     \<and> fst (frame_turn dec enc date nok now data a) = Return"
  by (simp add: frame_turn_def signal_recipients_def Let_def)

lemma view_live: "view b = view a \<Longrightarrow> live b = live a"
  by (simp add: view_def)

lemma goaway_keeps [simp]:
  "goaway_sent (send_rst now sid code a) = goaway_sent a" if "goaway_sent a"
  using that by (simp add: send_rst_def emit_def)

lemma goaway_reads [simp]:
  "goaway_sent (app_read sid a) = goaway_sent a" "goaway_sent (ws_read sid n a) = goaway_sent a"
  by (simp_all add: app_read_def ws_read_def credit_both_def emit_def Let_def
      split: option.split inbound.split prod.split wait.split sum.split)

lemma goaway_watchdog [simp]: "goaway_sent a \<Longrightarrow> goaway_sent (snd (watchdog_turn now a))"
  by (simp add: watchdog_turn_def close_connection_def emit_def split: option.split prod.split expiry.split)

lemma goaway_task_done [simp]: "goaway_sent (task_done sid w a) = goaway_sent a"
  by (simp add: task_done_def pop_recipient_def release_recipient_credit_def mark_closed_def emit_def
      Let_def split: option.split)

lemma live_task_done: "live (task_done sid w a) = remove1 (sid, w) (live a)"
  by (simp add: task_done_def pop_recipient_def release_recipient_credit_def mark_closed_def emit_def
      Let_def split: option.split)

lemma no_new_after_goaway_step:
  assumes "goaway_sent (snd st)"
  shows "goaway_sent (snd (conn_step dec enc date nok st ev))
    \<and> set (live (snd (conn_step dec enc date nok st ev))) \<subseteq> set (live (snd st))"
proof (cases ev)
  case (Inbound now data n)
  with assms show ?thesis
    by (simp add: conn_step_def goaway_frame_turn [of "(snd st)\<lparr>oversize_frame_len := n\<rparr>"])
next
  case (TaskDone sid w)
  with assms show ?thesis by (simp add: conn_step_def live_task_done set_remove1_subset)
next
  case (StreamReset now sid code)
  with assms show ?thesis by (simp add: conn_step_def view_live [OF view_send_rst])
next
  case (Watchdog now)
  with assms show ?thesis by (simp add: conn_step_def view_live [OF view_watchdog])
next
  case (AppRead sid)
  with assms show ?thesis by (simp add: conn_step_def view_live [OF view_reads(1)])
next
  case (WsRead sid n)
  with assms show ?thesis by (simp add: conn_step_def view_live [OF view_reads(2)])
qed

text \<open>
  C22. A connection that has announced its end with GOAWAY starts nothing new: whatever arrives
  afterwards, no further stream task is ever spawned, the next frame ends the frame loop, and
  that frame is not even parsed or answered.
\<close>

theorem nothing_starts_after_goaway:
  assumes "goaway_sent (snd st)"
  shows "set (live (snd (foldl (conn_step dec enc date netloc_ok) st evs))) \<subseteq> set (live (snd st))
    \<and> goaway_sent (snd (foldl (conn_step dec enc date netloc_ok) st evs))
    \<and> fst (frame_turn dec enc date netloc_ok now data (snd st)) = Return
    \<and> out (snd (frame_turn dec enc date netloc_ok now data (snd st))) = out (snd st)"
proof -
  have "set (live (snd (foldl (conn_step dec enc date netloc_ok) st evs))) \<subseteq> set (live (snd st))
    \<and> goaway_sent (snd (foldl (conn_step dec enc date netloc_ok) st evs))"
    using assms
  proof (induction evs arbitrary: st)
    case (Cons ev evs)
    let ?st = "conn_step dec enc date netloc_ok st ev"
    from no_new_after_goaway_step [OF Cons.prems, where ev = ev] Cons.IH [of ?st] show ?case by fastforce
  qed simp
  with goaway_frame_turn [OF assms] show ?thesis by blast
qed

text \<open>A configuration for concrete runs: small limits, no timeouts.\<close>

definition demo_cfg :: h2_cfg where
  "demo_cfg =
     \<lparr>cf_max_concurrent_streams = 10, cf_header_max_total = 100, cf_max_body_size = 50,
      cf_min_body_rate = 0, cf_min_body_rate_grace = 0, cf_write_timeout = 0,
      cf_stream_queue_depth = 8, cf_initial_window_size = 1000, cf_connection_window_size = 65535,
      cf_enable_websocket = True, cf_ws_max_streams = 2, cf_idle_timeout = 30, cf_ping_timeout = 10,
      cf_header_timeout = 5, cf_frame_rate_limit = 100, cf_frame_rate_window = 1\<rparr>"

theorem nothing_starts_after_goaway_witness:
  "set (live ((new_actor demo_cfg () ())\<lparr>goaway_sent := True, live := [(1, False)]\<rparr>)) = {(1, False)}
   \<and> set (live (snd (foldl (conn_step (\<lambda>d b. None) toy_encoder [] (\<lambda>_. True))
        (Continue, (new_actor demo_cfg () ())\<lparr>goaway_sent := True, live := [(1, False)]\<rparr>)
        [Inbound 0 [0, 0, 0] 0, TaskDone 3 False]))) \<subseteq> {(1, False)}"
  using nothing_starts_after_goaway [of "(Continue, (new_actor demo_cfg () ())\<lparr>goaway_sent := True, live := [(1, False)]\<rparr>)"
      "\<lambda>d b. None" toy_encoder "[]" "\<lambda>_. True" "[Inbound 0 [0, 0, 0] 0, TaskDone 3 False]"]
  by simp

subsection \<open>Leaving the loop wakes every reader\<close>

definition wakes :: "inbound \<Rightarrow> bool" where
  "wakes rc =
     (case rc of
        WsIn w \<Rightarrow> eof w
      | HttpIn r \<Rightarrow> (\<exists>x r'. recv_call r = (Returns x, r'))
          \<or> queue r = None \<and> end_of_stream_on_headers r \<and> initial_consumed r)"

lemma recv_call_ready: "the_queue r \<noteq> [] \<Longrightarrow> \<exists>x r'. recv_call r = (Returns x, r')"
  by (cases "the_queue r")
     (auto simp: recv_call_def take_item_def Let_def split: queue_item.split)

lemma disconnect_wakes: "wakes (inbound_disconnect rc)"
proof (cases rc)
  case (HttpIn r)
  have "the_queue (put_disconnect r) \<noteq> []"
    if "\<not> (queue r = None \<and> end_of_stream_on_headers r \<and> initial_consumed r)"
    using that by (auto simp: put_disconnect_def put_nowait_def ensure_queue_def the_queue_def
        split: option.splits)
  then show ?thesis using HttpIn recv_call_ready by (auto simp: wakes_def put_disconnect_def)
qed (simp add: wakes_def ws_put_disconnect_def)

lemma signal_wakes: "(k, rc) \<in> set (recipients (signal_recipients a)) \<Longrightarrow> wakes rc"
  by (auto simp: signal_recipients_def disconnect_wakes)

lemma refuse_no_return [simp]:
  "fst (refuse_oversized_declared_body enc date now sid a) \<noteq> Escapes Return"
  by (auto simp: refuse_oversized_declared_body_def split: prod.splits option.splits)

lemma on_headers_no_return [simp]:
  "fst (on_headers_frame enc date nok now b hb s a) \<noteq> Escapes Return"
  by (auto simp: on_headers_frame_def dispatch_request_def Let_def
      split: if_splits sum.splits option.splits)

lemma on_continuation_no_return [simp]:
  "fst (on_continuation_frame dec enc date nok now b payload s a) \<noteq> Escapes Return"
  by (auto simp: on_continuation_frame_def finish_block_def dispatch_request_def Let_def
      split: if_splits sum.splits option.splits)

lemma pair_fst: "fst h \<noteq> x \<Longrightarrow> h \<noteq> (x, y)"
  by auto

lemma dispatch_headers_no_return: "fst (dispatch_headers enc date nok now b hb s a) \<noteq> Return"
  by (auto simp: dispatch_headers_def on_trailers_def Let_def
      pair_fst [OF on_headers_no_return]
      split: prod.split handled.split option.split inbound.split)

lemma dispatch_continuation_no_return:
  "fst (dispatch_continuation dec enc date nok now b p s a) \<noteq> Return"
  by (auto simp: dispatch_continuation_def
      pair_fst [OF on_continuation_no_return]
      split: prod.split handled.split)

lemma dispatch_return:
  assumes "dispatch dec enc date nok now f st a = (Return, a')"
  shows "\<exists>a0. a' = signal_recipients a0"
  using assms
  by (auto simp: dispatch_def split: frame.splits option.splits
      simp: pair_fst [OF dispatch_headers_no_return] pair_fst [OF dispatch_continuation_no_return])

lemma find_or_create_return:
  assumes "find_or_create dec enc date nok now f b a = (Return, a')"
  shows "\<exists>a0. a' = signal_recipients a0"
proof -
  have "\<exists>a0. y = signal_recipients a0" if "check_state dec enc date nok now f b st x = (Return, y)" for st x y
    using that dispatch_return by (auto simp: check_state_def split: option.splits level.splits)
  with assms show ?thesis by (auto simp: find_or_create_def Let_def split: if_splits option.splits)
qed

lemma metered_return:
  assumes "metered dec enc date nok now f a = (Return, a')"
  shows "\<exists>a0. a' = signal_recipients a0"
  using assms find_or_create_return
  by (auto simp: metered_def process_def split: option.splits if_splits prod.splits)


definition demo_recipient :: recipient where
  "demo_recipient = new_recipient 8 True 1000 50 0 0"


end
