(* ===== verification/H2_Conn_Defects.thy ===== *)
theory H2_Conn_Defects
  imports H2_Conn_Props
begin

text \<open>
  Behaviour of the HTTP/2 connection that its own comments or RFC 9113 rule out, proved of the
  model: each theorem holds of every state that meets its hypotheses, and its witness runs one.
\<close>

subsection \<open>A request that needs no new stream node\<close>

lemma dispatch_request_simps [simp]:
  "live (dispatch_request es s c a) = live a @ [(stream_id s, False)]"
  "last_peer_stream_id (dispatch_request es s c a) = last_peer_stream_id a"
  "goaway_sent (dispatch_request es s c a) = goaway_sent a"
  by (auto simp: dispatch_request_def spawn_stream_task_def emit_def set_stream_def
      on_headers_received_def Let_def split: option.split)

lemma make_sender_keeps [simp]:
  "streams (snd (make_sender sid a)) = streams a" "live (snd (make_sender sid a)) = live a"
  "cfg (snd (make_sender sid a)) = cfg a" "recipients (snd (make_sender sid a)) = recipients a"
  "active_stream_count (snd (make_sender sid a)) = active_stream_count a"
  "last_peer_stream_id (snd (make_sender sid a)) = last_peer_stream_id a"
  "goaway_sent (snd (make_sender sid a)) = goaway_sent a"
  "header_frame (snd (make_sender sid a)) = header_frame a"
  "dec_st (snd (make_sender sid a)) = dec_st a"
  by (simp_all add: make_sender_def Let_def split: option.split)

text \<open>A header block that is complete, well formed, not too large, and an ordinary request.\<close>

definition plain_request ::
  "(pystr \<Rightarrow> bool) \<Rightarrow> header_block \<Rightarrow> connection \<Rightarrow> ('d, 'c) actor \<Rightarrow> bool" where
  "plain_request netloc_ok hb c a \<longleftrightarrow>
     (\<exists>hb'. parse_headers netloc_ok hb = Inr (Some c, hb')) \<and> c_type c = HttpConn
     \<and> extract_content_length (c_headers c) = None
     \<and> active_stream_count a < cf_max_concurrent_streams (cfg a)"

lemma plain_request_dispatched:
  assumes "plain_request netloc_ok hb c a" "flag_set F_END_HEADERS (fflags b)" "conn s = None"
  shows "dispatch_headers enc date netloc_ok now b hb s a =
    (Continue, dispatch_request (Some (flag_set F_END_STREAM (fflags b)))
       (s\<lparr>expected_content_length := None, conn := Some c\<rparr>) c (snd (make_sender (stream_id s) a)))"
  using assms
  by (auto simp: plain_request_def dispatch_headers_def on_headers_frame_def declared_too_large_def Let_def)

text \<open>
  C33. RFC 9113 5.1.1 lets a client open only odd streams above every earlier one, and the loop
  answers a violation with a connection error; but the check runs only for streams without a
  node. A PRIORITY_UPDATE frame makes a node for any identifier, so after it a HEADERS frame on an
  even identifier is dispatched as a request, and the highest peer stream that a GOAWAY reports
  does not move.
\<close>

theorem priority_update_bypasses_id_checks:
  assumes "sid \<noteq> 0" "even sid" "dict_get (streams a) sid = None" "closed_via sid a = None"
    and "length (streams a) < cf_max_concurrent_streams (cfg a)"
    and "fstream b = sid" "ftype b = HEADERS" "flag_set F_END_HEADERS (fflags b)"
    and "plain_request netloc_ok hb c a"
  shows "find_or_create dec enc date netloc_ok now (Headers b hb) b a
      = (Continue, connection_error PROTOCOL_ERROR a)
    \<and> (\<exists>a'. find_or_create dec enc date netloc_ok now (Headers b hb) b (respond_priority_update sid field a)
              = (Continue, a')
         \<and> live a' = live a @ [(sid, False)] \<and> last_peer_stream_id a' = last_peer_stream_id a
         \<and> goaway_sent a' = goaway_sent a)"
proof
  show "find_or_create dec enc date netloc_ok now (Headers b hb) b a
      = (Continue, connection_error PROTOCOL_ERROR a)"
    using assms by (simp add: find_or_create_def Let_def)
  let ?s = "set_hint (parse_priority_field field) (new_stream sid)"
  let ?a = "a\<lparr>streams := dict_set sid ?s (streams a)\<rparr>"
  have 1: "respond_priority_update sid field a = ?a"
    using assms by (simp add: respond_priority_update_def Let_def)
  have 2: "state ?s = IDLE" "conn ?s = None" "stream_id ?s = sid"
    by (simp_all add: set_hint_def new_stream_def)
  have 3: "plain_request netloc_ok hb c ?a" using assms(9) by (simp add: plain_request_def)
  show "\<exists>a'. find_or_create dec enc date netloc_ok now (Headers b hb) b
                (respond_priority_update sid field a) = (Continue, a')
         \<and> live a' = live a @ [(sid, False)] \<and> last_peer_stream_id a' = last_peer_stream_id a
         \<and> goaway_sent a' = goaway_sent a"
    using assms plain_request_dispatched [OF 3 assms(8) 2(2), of enc date now]
    by (simp add: find_or_create_def check_state_def validate_stream_state_def dispatch_def Let_def
        update_conv 1 2)
qed

lemma new_actor_simps [simp]:
  "cfg (new_actor c d e) = c" "streams (new_actor c d e) = []" "senders (new_actor c d e) = []"
  "recipients (new_actor c d e) = []" "closed_streams (new_actor c d e) = []"
  "closed_high_water (new_actor c d e) = 0" "last_peer_stream_id (new_actor c d e) = 0"
  "active_stream_count (new_actor c d e) = 0" "ws_stream_count (new_actor c d e) = 0" "live (new_actor c d e) = []"
  "goaway_sent (new_actor c d e) = False" "stream_tasks (new_actor c d e) = []"
  "out (new_actor c d e) = []" "conn_window (new_actor c d e) = 65535"
  "peer_initial_window_size (new_actor c d e) = 65535" "enc_state (new_actor c d e) = e"
  by (simp_all add: new_actor_def Let_def DEFAULT_INITIAL_WINDOW_SIZE_def)

lemma demo_cfg_simps [simp]:
  "cf_max_concurrent_streams demo_cfg = 10" "cf_header_max_total demo_cfg = 100"
  "cf_write_timeout demo_cfg = 0" "cf_max_body_size demo_cfg = 50"
  "cf_ws_max_streams demo_cfg = 2"
  by (simp_all add: demo_cfg_def)

text \<open>A plain GET request, and the base of the HEADERS frame that carries it.\<close>

definition demo_block :: header_block where
  "demo_block =
     empty_block\<lparr>pseudo_headers := [(METHOD, str ''GET''), (SCHEME, str ''http''),
        (PATH, str ''/''), (AUTHORITY, str ''a'')]\<rparr>"

lemma demo_block_raw: "demo_block\<lparr>raw_block := []\<rparr> = demo_block"
  by (simp add: demo_block_def empty_block_def)

definition demo_decoder :: "unit hpack_decoder" where
  "demo_decoder d b =
     Some ([(octets '':method'', octets ''GET''), (octets '':scheme'', octets ''http''),
       (octets '':path'', octets ''/''), (octets '':authority'', octets ''a'')], d)"

definition demo_conn :: connection where
  "demo_conn = build_h2_connection (str ''GET'') (str ''/'', octets ''/'', [])
     [(octets ''host'', octets ''a'')] (str ''http'')"

definition demo_base :: "frame_types \<Rightarrow> nat \<Rightarrow> nat \<Rightarrow> nat \<Rightarrow> frame_base" where
  "demo_base t sid n flags = \<lparr>flength = n, ftype = t, fflags = flags, fstream = sid\<rparr>"

lemma demo_parsed:
  "parse_headers (\<lambda>_. True) (demo_block\<lparr>raw_block := x\<rparr>) = Inr (Some demo_conn, demo_block\<lparr>raw_block := x\<rparr>)"
  by (simp add: demo_block_def demo_conn_def parse_headers_def parse_plain_def request_path_def
      split_h2_path_def urlsplit_def split_query_def request_scheme_def strip_scheme_def
      utf8_char_def request_headers_with_host_def host_forbidden_def host_forbidden_bytes_def
      empty_block_def)

lemma demo_plain: "plain_request (\<lambda>_. True) (demo_block\<lparr>raw_block := x\<rparr>) demo_conn (new_actor demo_cfg () ())"
  by (simp add: plain_request_def demo_parsed)
     (simp add: demo_conn_def build_h2_connection_def extract_content_length_def)

theorem priority_update_bypasses_id_checks_witness:
  "\<exists>a'. find_or_create (\<lambda>d b. None) toy_encoder [] (\<lambda>_. True) 0 (Headers (demo_base HEADERS 2 1 5) demo_block)
      (demo_base HEADERS 2 1 5) (respond_priority_update 2 (str ''u=1'') (new_actor demo_cfg () ()))
    = (Continue, a') \<and> live a' = [(2, False)] \<and> \<not> goaway_sent a'"
  using priority_update_bypasses_id_checks [where sid = 2 and a = "new_actor demo_cfg () ()"
      and hb = demo_block and c = demo_conn and netloc_ok = "\<lambda>_. True" and enc = toy_encoder
      and b = "demo_base HEADERS 2 1 5" and date = "[]" and now = 0
      and dec = "\<lambda>d b. None" and field = "str ''u=1''", OF _ _ _ _ _ _ _ _ demo_plain [of "[]", simplified demo_block_raw]]
  by (auto simp: demo_base_def closed_via_def flag_defs flag_set_def simp del: str_Cons)

subsection \<open>A request completed by CONTINUATION\<close>

lemma dispatch_request_recipient:
  "dict_get (recipients (dispatch_request None s c a)) (stream_id s) = Some (HttpIn (make_stream_recipient a))"
  "dict_get (streams (dispatch_request None s c a)) (stream_id s)
     = Some (s\<lparr>conn := Some (apply_priority_and_extensions s c a)\<rparr>)"
  by (simp_all add: dispatch_request_def spawn_stream_task_def emit_def set_stream_def Let_def update_conv)

lemma fresh_recipient_blocks: "fst (recv_call (make_stream_recipient a)) = Blocks"
  by (simp add: make_stream_recipient_def new_recipient_def recv_call_def take_item_def the_queue_def)

lemma plain_request_finished:
  assumes "plain_request netloc_ok hb c a"
  shows "finish_block enc date netloc_ok now hb s a =
    (Spawned, dispatch_request None (s\<lparr>expected_content_length := None, conn := Some c\<rparr>) c a)"
  using assms by (auto simp: plain_request_def finish_block_def declared_too_large_def Let_def)

text \<open>
  C34. A request whose header block arrives in a HEADERS and a CONTINUATION frame is dispatched,
  but its stream stays idle and the END_STREAM flag of the HEADERS frame is never looked at.
  Whatever that flag said, the handler's first read of the body waits; and a DATA frame on the
  stream, legal in every case where the flag was not set, is answered with a connection error.
\<close>

theorem continuation_request_stays_idle:
  assumes "header_frame a = Some (hbase, hb)" "state s = IDLE" "stream_id s \<noteq> 0"
    and "length (raw_block hb @ payload) \<le> cf_header_max_total (cfg a)"
    and "flag_set F_END_HEADERS (fflags b)"
    and "parse_payload dec (dec_st a) hbase (hb\<lparr>raw_block := raw_block hb @ payload\<rparr>) = Inr (hb', d')"
    and "plain_request netloc_ok hb' c a"
    and "fstream b' = stream_id s" "ftype b' = DATA"
  shows "\<exists>a' r. dispatch_continuation dec enc date netloc_ok now b payload s a = (Continue, a')
     \<and> live a' = live a @ [(stream_id s, False)]
     \<and> dict_get (recipients a') (stream_id s) = Some (HttpIn r) \<and> fst (recv_call r) = Blocks
     \<and> find_or_create dec enc date netloc_ok now' (Data b' body) b' a'
       = (Continue, connection_error PROTOCOL_ERROR a')"
proof -
  let ?a = "(snd (make_sender (stream_id s) a))\<lparr>header_frame := Some (hbase, hb'), dec_st := d'\<rparr>"
  let ?s = "s\<lparr>expected_content_length := None, conn := Some c\<rparr>"
  let ?d = "(dispatch_request None ?s c ?a)\<lparr>waiting_continuation := False, header_block_since := None\<rparr>"
  have "plain_request netloc_ok hb' c ?a" using assms(7) by (simp add: plain_request_def)
  from plain_request_finished [OF this, of enc date now s]
  have "dispatch_continuation dec enc date netloc_ok now b payload s a = (Continue, ?d)"
    using assms(1-6) by (simp add: dispatch_continuation_def on_continuation_frame_def Let_def)
  moreover have "find_or_create dec enc date netloc_ok now' (Data b' body) b' ?d
       = (Continue, connection_error PROTOCOL_ERROR ?d)"
    using assms dispatch_request_recipient(2) [of ?s c ?a]
    by (simp add: find_or_create_def check_state_def validate_stream_state_def Let_def)
  ultimately show ?thesis
    using dispatch_request_recipient(1) [of ?s c ?a] fresh_recipient_blocks [of ?a] by auto
qed

lemma demo_decoded:
  "decode_block demo_decoder () block (empty_block\<lparr>raw_block := x\<rparr>) = Inr (demo_block\<lparr>raw_block := x\<rparr>, ())"
  by (simp add: decode_block_def demo_decoder_def demo_block_def empty_block_def field_name_is_valid_def field_name_octet_ok_def
      field_value_is_valid_def pseudo_by_bytes_def utf8_decode.simps utf8_next_def)

theorem continuation_request_stays_idle_witness:
  "\<exists>a' r. dispatch_continuation demo_decoder toy_encoder [] (\<lambda>_. True) 0
       (demo_base CONTINUATION 1 1 4) [7] (new_stream 1)
       ((new_actor demo_cfg () ())\<lparr>header_frame := Some (demo_base HEADERS 1 0 1, empty_block)\<rparr>)
     = (Continue, a') \<and> live a' = [(1, False)]
     \<and> dict_get (recipients a') 1 = Some (HttpIn r) \<and> fst (recv_call r) = Blocks"
proof -
  let ?a = "(new_actor demo_cfg () ())\<lparr>header_frame := Some (demo_base HEADERS 1 0 1, empty_block)\<rparr>"
  have 1: "parse_payload demo_decoder (dec_st ?a) (demo_base HEADERS 1 0 1)
      (empty_block\<lparr>raw_block := raw_block empty_block @ [7]\<rparr>) = Inr (demo_block\<lparr>raw_block := [7]\<rparr>, ())"
    by (simp add: parse_payload_def demo_base_def flag_set_def flag_defs demo_decoded)
       (simp add: empty_block_def)
  have 2: "plain_request (\<lambda>_. True) (demo_block\<lparr>raw_block := [7]\<rparr>) demo_conn ?a"
    using demo_plain by (simp add: plain_request_def)
  show ?thesis
    using continuation_request_stays_idle [where a = ?a and s = "new_stream 1" and payload = "[7]"
        and b = "demo_base CONTINUATION 1 1 4" and b' = "demo_base DATA 1 0 1" and enc = toy_encoder
        and date = "[]" and now = 0 and now' = 0 and body = "[]", OF _ _ _ _ _ 1 2]
    by (simp add: demo_base_def new_stream_def flag_set_def flag_defs empty_block_def) blast
qed

subsection \<open>Resetting a WebSocket stream\<close>


definition demo_ws :: "(unit, unit) actor" where
  "demo_ws = handle_h2_websocket 0 1
     (set_stream (on_headers_received False (new_stream 1)) (new_actor demo_cfg () ()))"


subsection \<open>Padding and CONTINUATION\<close>

text \<open>
  C36. The padding of a HEADERS frame that is continued is not cut where it stands. The payload of
  the CONTINUATION is appended behind it and the same number of octets is dropped from the end of
  the whole, so the HPACK decoder is given the padding in the middle and misses the end of the
  block, whenever there is any padding at all.
\<close>

theorem continued_padding_decoded:
  assumes "raw_block hb = word_of_nat (length padding) # frag1 @ padding" "length padding < 256"
    and "flag_set F_PADDED (fflags base)" "\<not> flag_set F_PRIORITY (fflags base)"
    and "flength base = length (raw_block hb)" "length padding \<le> length frag2"
  shows "parse_payload dec d base (hb\<lparr>raw_block := raw_block hb @ frag2\<rparr>)
    = decode_block dec d (frag1 @ padding @ take (length frag2 - length padding) frag2)
        (hb\<lparr>raw_block := raw_block hb @ frag2\<rparr>)"
proof -
  have u: "unat (word_of_nat (length padding) :: byte) = length padding"
    using assms(2) by (simp add: unat_word_of_nat_byte)
  have "take (length frag1 + length frag2) (frag1 @ padding @ frag2)
      = frag1 @ padding @ take (length frag2 - length padding) frag2"
    using assms(6) by simp
  with assms show ?thesis
    by (auto simp: parse_payload_def bio_read_def u Let_def nat_add_distrib)
qed

theorem continued_padding_decoded_witness:
  "parse_payload (\<lambda>d bs. Some ([(octets ''x'', bs)], d)) ()
     \<lparr>flength = 3, ftype = HEADERS, fflags = 8, fstream = 3\<rparr>
     (empty_block\<lparr>raw_block := [1, 65, 0, 66, 67]\<rparr>)
   = decode_block (\<lambda>d bs. Some ([(octets ''x'', bs)], d)) () [65, 0, 66]
       (empty_block\<lparr>raw_block := [1, 65, 0, 66, 67]\<rparr>)"
  using continued_padding_decoded [where hb = "empty_block\<lparr>raw_block := [1, 65, 0]\<rparr>"
      and padding = "[0]" and ?frag1.0 = "[65]" and ?frag2.0 = "[66, 67]"
      and base = "\<lparr>flength = 3, ftype = HEADERS, fflags = 8, fstream = 3\<rparr>"
      and dec = "\<lambda>d bs. Some ([(octets ''x'', bs)], d)" and d = "()"]
  by (simp add: flag_set_def flag_defs)

subsection \<open>Refusing a request from inside the loop\<close>

lemma write_loop_starved:
  assumes "rest \<noteq> []" "\<not> windows_open ch s" "grants ch = []"
  shows "write_loop e rest ch s =
    (if 0 < flow_control_timeout s then Some (Some FlowControlStalled, ch, s) else None)"
  using assms by (subst write_loop.simps) (simp add: wait_window_def)

lemma send_bytes_starved:
  assumes "body \<noteq> []" "\<not> windows_open ch s" "grants ch = []"
    and "build_response_headers enc date (enc_st ch) (s_stream_id s) st hs False = Inr (h, c1)"
  shows "send_bytes enc date body st hs ch s =
    (if 0 < flow_control_timeout s
     then Some (Some FlowControlStalled, put_write h (ch\<lparr>enc_st := c1\<rparr>), s) else None)"
proof -
  have "\<not> fits_windows (length body) (ch\<lparr>enc_st := c1\<rparr>) s"
    using assms(1,2) by (cases body) (auto simp: fits_windows_def windows_open_def)
  then show ?thesis
    using assms write_loop_starved [of body "put_write h (ch\<lparr>enc_st := c1\<rparr>)" s True]
    by (simp add: send_bytes_def encode_start_def write_data_def windows_open_def put_write_def thenS_def)
qed



end
