(* ===== verification/H2_Flow.thy ===== *)
theory H2_Flow
  imports H2_Conn_Props
begin

text \<open>
  Inbound flow control of the whole connection: the credit the server returns for the connection
  window, whatever mixture of streams, readers and endings, against the DATA it has received.
\<close>

subsection \<open>The books\<close>

fun credit_of :: "effect \<Rightarrow> int" where
  "credit_of (OWindowUpdate sid n) = (if sid = 0 then int n else 0)"
| "credit_of _ = 0"

definition credited :: "effect list \<Rightarrow> int" where
  "credited xs = sum_list (map credit_of xs)"

fun held_in :: "inbound \<Rightarrow> int" where
  "held_in (HttpIn r) = uncredited r"
| "held_in (WsIn w) = int (pending_credit w)"

definition held :: "(nat, inbound) dict \<Rightarrow> int" where
  "held d = sum_list (map (held_in \<circ> snd) d)"

definition held_at :: "(nat, inbound) dict \<Rightarrow> nat \<Rightarrow> int" where
  "held_at d k = (case dict_get d k of None \<Rightarrow> 0 | Some rc \<Rightarrow> held_in rc)"

text \<open>A recipient's balance is what its queue still has to replay.\<close>

fun rc_ok :: "inbound \<Rightarrow> bool" where
  "rc_ok (HttpIn r) = (credit_cb r \<and> uncredited r = credit_sum (the_queue r))"
| "rc_ok (WsIn w) = True"

definition books :: "('d, 'c) actor \<Rightarrow> int \<times> (nat, inbound) dict" where
  "books a = (credited (out a), recipients a)"

definition in_budget :: "int \<Rightarrow> int \<times> (nat, inbound) dict \<Rightarrow> bool" where
  "in_budget n = (\<lambda>(cr, d). dict_ok d \<and> (\<forall>x \<in> set d. fst x \<noteq> 0 \<and> rc_ok (snd x)) \<and> cr + held d \<le> n)"

lemma credited_simps [simp]:
  "credited [] = 0" "credited (x # xs) = credit_of x + credited xs"
  "credited (xs @ ys) = credited xs + credited ys" "credited (map OWrite ws) = 0"
  by (simp_all add: credited_def comp_def)

lemma held_simps [simp]: "held [] = 0" "held (x # d) = held_in (snd x) + held d"
  by (simp_all add: held_def)

lemma held_set: "dict_ok d \<Longrightarrow> held (dict_set k v d) = held d - held_at d k + held_in v"
  by (induction d) (auto simp: held_at_def)

lemma held_pop: "dict_ok d \<Longrightarrow> held (dict_pop k d) = held d - held_at d k"
proof (induction d)
  case (Cons x d)
  have "dict_get d (fst x) = None" using Cons.prems by (simp add: map_of_eq_None_iff)
  with Cons show ?case by (cases x) (auto simp: held_at_def)
qed (simp add: held_at_def)

lemma held_in_nonneg: "rc_ok rc \<Longrightarrow> 0 \<le> held_in rc"
  by (cases rc) auto

lemma held_nonneg: "\<forall>x \<in> set d. rc_ok (snd x) \<Longrightarrow> 0 \<le> held d"
  by (induction d) (auto intro!: add_nonneg_nonneg held_in_nonneg)

lemma in_budget_set:
  assumes "in_budget n (cr, d)" "k \<noteq> 0" "rc_ok v" "cr' + held_in v \<le> cr + held_at d k + m"
  shows "in_budget (n + m) (cr', dict_set k v d)"
  using assms set_dict_set_subset [of k v d] by (fastforce simp: in_budget_def held_set dict_ok_set)

lemma in_budget_pop:
  assumes "in_budget n (cr, d)" "cr' \<le> cr + held_at d k"
  shows "in_budget n (cr', dict_pop k d)"
  using assms set_dict_pop_subset [of k d] by (fastforce simp: in_budget_def held_pop dict_ok_pop)

lemma in_budget_get: "in_budget n (cr, d) \<Longrightarrow> dict_get d k = Some rc \<Longrightarrow> rc_ok rc \<and> k \<noteq> 0"
  by (auto simp: in_budget_def dest!: map_of_SomeD)

lemma in_budget_mono: "in_budget n b \<Longrightarrow> n \<le> m \<Longrightarrow> in_budget m b"
  by (auto simp: in_budget_def)

subsection \<open>Operations that leave the books alone\<close>

named_theorems books_simps \<open>operations that neither credit nor touch a recipient\<close>

lemma books_upd [books_simps]:
  "books (a\<lparr>goaway_sent := x2\<rparr>) = books a" "books (a\<lparr>rst_meter := x3\<rparr>) = books a"
  "books (a\<lparr>ping_meter := x3\<rparr>) = books a" "books (a\<lparr>settings_meter := x3\<rparr>) = books a"
  "books (a\<lparr>empty_frame_meter := x3\<rparr>) = books a" "books (a\<lparr>streams := x4\<rparr>) = books a"
  "books (a\<lparr>senders := x5\<rparr>) = books a" "books (a\<lparr>closed_streams := x6\<rparr>) = books a"
  "books (a\<lparr>closed_high_water := x8\<rparr>) = books a" "books (a\<lparr>conn_window := x9\<rparr>) = books a"
  "books (a\<lparr>peer_initial_window_size := x9\<rparr>) = books a" "books (a\<lparr>dec_st := x11\<rparr>) = books a"
  "books (a\<lparr>header_block_since := x14\<rparr>) = books a" "books (a\<lparr>last_peer_stream_id := x8\<rparr>) = books a"
  "books (a\<lparr>last_frame_at := x15\<rparr>) = books a" "books (a\<lparr>probe_sent_at := x14\<rparr>) = books a"
  "books (a\<lparr>oversize_frame_len := x8\<rparr>) = books a" "books (a\<lparr>stream_tasks := x16\<rparr>) = books a"
  "books (a\<lparr>waiting_continuation := x2\<rparr>) = books a" "books (a\<lparr>header_frame := x17\<rparr>) = books a"
  "books (a\<lparr>live := x18\<rparr>) = books a" "books (a\<lparr>active_stream_count := x8\<rparr>) = books a"
  "books (a\<lparr>ws_stream_count := x8\<rparr>) = books a"
  by (simp_all add: books_def)

lemma books_emit [books_simps]: "credit_of x = 0 \<Longrightarrow> books (emit x a) = books a"
  by (simp add: books_def emit_def)

lemma books_close [books_simps]:
  "books (close_connection code a) = books a" "books (connection_error code a) = books a"
  by (simp_all add: close_connection_def connection_error_def books_simps)

lemma books_send_rst [books_simps]: "books (send_rst now sid code a) = books a"
  by (simp add: send_rst_def count_emitted_rst_def books_simps Let_def split: prod.split)

lemma books_meter [books_simps]:
  "books (snd (meter_type now t a)) = books a" "books (snd (meter_empty now b a)) = books a"
  by (simp_all add: meter_type_def meter_empty_def meter_result_def books_simps split: prod.split)

lemma books_make_sender [books_simps]: "books (snd (make_sender sid a)) = books a"
  by (simp add: make_sender_def books_simps Let_def split: option.split)

lemma books_make_sender_eq: "make_sender sid a = (s, a') \<Longrightarrow> books a' = books a"
  using books_make_sender [of sid a] by simp

lemma books_set_stream [books_simps]: "books (set_stream s a) = books a"
  by (simp add: set_stream_def books_simps)

lemma books_mark_closed [books_simps]: "books (mark_closed sid v a) = books a"
  by (simp add: mark_closed_def books_def Let_def)

lemma books_put_sender [books_simps]: "books (put_sender sid ch s a) = books a"
  by (simp add: put_sender_def books_def)

lemma books_spawn [books_simps]: "books (spawn_stream_task sid a) = books a"
  by (simp add: spawn_stream_task_def books_def emit_def)

lemma books_responders [books_simps]:
  "books (respond_ping b p a) = books a"
  "books (respond_settings b attrs a) = books a"
  "books (respond_priority now b dep a) = books a"
  "books (respond_priority_update sid fld a) = books a"
  "books (respond_window_update now b n a) = books a"
  by (auto simp: respond_ping_def respond_settings_def respond_priority_def respond_window_update_def
      respond_priority_update_def apply_peer_settings_def map_senders_def
      books_simps Let_def dest: books_make_sender_eq split: option.split prod.split)

lemma books_watchdog [books_simps]: "books (snd (watchdog_turn now a)) = books a"
  by (simp add: watchdog_turn_def books_simps split: option.split prod.split expiry.split)

lemma books_refuse [books_simps]:
  "books (snd (refuse_oversized_declared_body enc date now sid a)) = books a"
  by (auto simp: refuse_oversized_declared_body_def books_simps dest: books_make_sender_eq
      simp del: octets_Cons split: option.splits prod.splits)

subsection \<open>Operations that change them\<close>

definition keeps_budget :: "int \<Rightarrow> ('d, 'c) actor \<Rightarrow> ('d, 'c) actor \<Rightarrow> bool" where
  "keeps_budget m a b \<longleftrightarrow> (\<forall>n. in_budget n (books a) \<longrightarrow> in_budget (n + m) (books b))"

lemma keeps_budget_books: "books b = books a \<Longrightarrow> keeps_budget 0 a b"
  by (simp add: keeps_budget_def)

lemma keeps_budget_after: "keeps_budget m a b \<Longrightarrow> books c = books b \<Longrightarrow> keeps_budget m a c"
  by (simp add: keeps_budget_def)

lemma keeps_budget_before: "keeps_budget m b c \<Longrightarrow> books b = books a \<Longrightarrow> keeps_budget m a c"
  by (simp add: keeps_budget_def)

lemma keeps_budget_mono: "keeps_budget m a b \<Longrightarrow> m \<le> m' \<Longrightarrow> keeps_budget m' a b"
  by (auto simp: keeps_budget_def intro: in_budget_mono)

lemma keeps_budget_set:
  assumes "\<And>rc. dict_get (recipients a) k = Some rc \<Longrightarrow> rc_ok rc \<Longrightarrow> rc_ok v \<and> held_in v + c \<le> held_in rc + m"
    and "dict_get (recipients a) k = None \<Longrightarrow> rc_ok v \<and> held_in v + c \<le> m"
    and "credited (out b) = credited (out a) + c" "recipients b = dict_set k v (recipients a)"
    and "k \<noteq> 0"
  shows "keeps_budget m a b"
  unfolding keeps_budget_def
proof (intro allI impI)
  fix n
  assume b: "in_budget n (books a)"
  then have "rc_ok v \<and> held_in v + c \<le> held_at (recipients a) k + m"
    using assms(1,2) in_budget_get [of n _ "recipients a" k]
    by (cases "dict_get (recipients a) k") (auto simp: held_at_def books_def)
  with b assms(3-5) show "in_budget (n + m) (books b)"
    by (auto simp: books_def intro!: in_budget_set)
qed

lemma keeps_budget_rc:
  "dict_get (recipients a) k = Some rc \<Longrightarrow> (rc_ok rc \<Longrightarrow> k \<noteq> 0 \<Longrightarrow> keeps_budget m a b) \<Longrightarrow> keeps_budget m a b"
  using in_budget_get [of _ _ "recipients a" k rc] by (auto simp: keeps_budget_def books_def)

lemma rc_ok_disconnect: "rc_ok rc \<Longrightarrow> rc_ok (inbound_disconnect rc)"
  by (cases rc) (auto simp: put_disconnect_def put_nowait_def ensure_queue_def)

lemma held_disconnect [simp]: "held_in (inbound_disconnect rc) = held_in rc"
  by (cases rc) (auto simp: put_disconnect_def put_nowait_def ensure_queue_def ws_put_disconnect_def)

lemma budget_signal: "keeps_budget 0 a (signal_recipients a)"
proof -
  have "held (map (\<lambda>(k, r). (k, inbound_disconnect r)) d) = held d" for d
    by (induction d) auto
  moreover have "fst \<circ> (\<lambda>(k :: nat, r). (k, inbound_disconnect r)) = fst" by auto
  ultimately show ?thesis
    by (auto simp: keeps_budget_def signal_recipients_def books_def in_budget_def rc_ok_disconnect)
qed

lemma budget_pop: "keeps_budget 0 a (pop_recipient sid a)"
proof -
  have "in_budget n (books (pop_recipient sid a))" if "in_budget n (books a)" for n
  proof (cases "dict_get (recipients a) sid")
    case (Some rc)
    then have "0 \<le> held_in rc"
      using that held_in_nonneg in_budget_get [of n _ "recipients a" sid] by (auto simp: books_def)
    with Some that show ?thesis
      by (cases rc) (auto simp: pop_recipient_def release_recipient_credit_def books_def emit_def Let_def
          take_uncredited_def held_at_def intro!: in_budget_pop)
  qed (use that in \<open>simp add: pop_recipient_def\<close>)
  then show ?thesis by (simp add: keeps_budget_def)
qed

lemma budget_task_done: "keeps_budget 0 a (task_done sid w a)"
  using budget_pop [of "a\<lparr>active_stream_count := _, ws_stream_count := _, stream_tasks := _,
    senders := _, live := _\<rparr>" sid]
  by (auto simp: task_done_def books_simps Let_def keeps_budget_def)

lemma budget_rst_stream: "keeps_budget 0 a (respond_rst_stream b a)"
proof -
  have "keeps_budget 0 a (pop_recipient sid a')" if "books a' = books a" for a' sid
    by (rule keeps_budget_before [OF budget_pop that])
  then show ?thesis
    by (simp add: respond_rst_stream_def keeps_budget_books books_simps Let_def split: option.split)
qed

lemma frame_type_value: "dict_get frame_type_by_value v = Some t \<Longrightarrow> v = ft_value t"
  by (auto simp: frame_type_by_value_def dest!: map_of_SomeD)

lemma data_payload_le:
  assumes "load dec d data = Inr (Data b payload, d')"
  shows "length payload \<le> flength b \<and> 9 + flength b \<le> length data \<and> data ! 3 = 0"
  using assms
  by (auto simp: load_def create_def mk_Data_def mk_Headers_def bio_read_def slice_def andThen_def Let_def
      mk_RstStream_def mk_SettingFrame_def mk_PushPromise_def mk_Ping_def
      mk_GoAway_def mk_WindowUpdate_def mk_PriorityUpdate_def mk_Priority_def
      dest!: frame_type_value split: if_splits option.splits frame_types.splits prod.splits sum.splits)

lemma put_data_books:
  assumes "credit_cb r" "uncredited r = credit_sum (the_queue r)"
    and "put_DATAFrame now b payload r = (ok, r')"
  shows "credit_cb r' \<and> uncredited r' = credit_sum (the_queue r')
     \<and> uncredited r' = uncredited r + (if ok then int (flength b) else 0)"
  using assms(1,2) by (cases rule: put_data_cases [OF assms(3,1)]) (auto simp: same_flow_def)

lemma recv_call_books:
  assumes "credit_cb r" "uncredited r = credit_sum (the_queue r)"
  shows "case recv_call r of
      (Blocks, r') \<Rightarrow> rc_ok (HttpIn r') \<and> uncredited r' = uncredited r
    | (Returns (_, c), r') \<Rightarrow> rc_ok (HttpIn r') \<and> uncredited r' + int c = uncredited r"
  using assms
  by (auto simp: recv_call_def take_item_def ensure_queue_def Let_def
      split: list.splits prod.splits queue_item.splits)

lemma budget_deliver:
  assumes "dict_get (recipients a) sid = Some rc" "length payload \<le> flength b"
  shows "keeps_budget (int (flength b)) a (deliver_data now b payload sid rc a)"
proof (rule keeps_budget_rc [OF assms(1)], cases rc)
  case (HttpIn r)
  assume "rc_ok rc" "sid \<noteq> 0"
  obtain ok r' where put: "put_DATAFrame now b payload r = (ok, r')" by fastforce
  have "credited (out (send_rst now sid code x)) = credited (out x)
      \<and> recipients (send_rst now sid code x) = recipients x" for code and x :: "('a, 'b) actor"
    using books_send_rst [of now sid code x] by (simp add: books_def)
  with \<open>rc_ok rc\<close> \<open>sid \<noteq> 0\<close> assms(1) HttpIn put put_data_books [OF _ _ put] rc_ok_disconnect [of "HttpIn r'"]
    held_disconnect [of "HttpIn r'"]
  show ?thesis
    by (intro keeps_budget_set [where k = sid and c = 0
          and v = "HttpIn (if ok then r' else put_disconnect r')"])
       (auto simp: deliver_data_def Let_def simp del: held_disconnect split: if_splits)
next
  case (WsIn w)
  assume "sid \<noteq> 0"
  obtain ok w' where put: "ws_put_DATAFrame b payload w = (ok, w')" by fastforce
  then have "pending_credit w' = pending_credit w + (if ok then 0 else length payload)"
    by (auto simp: ws_put_DATAFrame_def Let_def split: if_splits)
  with \<open>sid \<noteq> 0\<close> assms WsIn put show ?thesis
    by (intro keeps_budget_set [where k = sid and c = "if ok then int (flength b) else 0" and v = "WsIn w'"])
       (auto simp: deliver_data_def credit_both_def emit_def Let_def)
qed

lemma budget_data:
  assumes "length payload \<le> flength b"
  shows "keeps_budget (int (flength b)) a (on_data_frame now b payload s a)"
proof -
  have "keeps_budget (int (flength b)) a (deliver_data now b payload (stream_id s) rc a')"
    if "dict_get (recipients a') (stream_id s) = Some rc" "books a' = books a" for rc a'
    by (rule keeps_budget_before [OF budget_deliver [OF that(1) assms] that(2)])
  moreover have "keeps_budget (int (flength b)) a a'" if "books a' = books a" for a'
    by (rule keeps_budget_mono [OF keeps_budget_books [OF that]]) simp
  ultimately show ?thesis
    by (simp add: on_data_frame_def books_simps Let_def split: option.split)
qed

lemma budget_app_read: "keeps_budget 0 a (app_read sid a)"
proof (cases "dict_get (recipients a) sid")
  case (Some rc)
  show ?thesis
  proof (rule keeps_budget_rc [OF Some], cases rc)
    case (HttpIn r)
    assume "rc_ok rc" "sid \<noteq> 0"
    obtain w r' where rd: "recv_call r = (w, r')" by fastforce
    let ?c = "case w of Returns (_, c) \<Rightarrow> int c | Blocks \<Rightarrow> 0"
    show ?thesis
      using \<open>rc_ok rc\<close> \<open>sid \<noteq> 0\<close> Some HttpIn rd recv_call_books [of r]
      by (intro keeps_budget_set [where k = sid and c = ?c and v = "HttpIn r'"])
         (auto simp: app_read_def credit_both_def emit_def Let_def split: wait.splits)
  qed (simp add: app_read_def Some keeps_budget_books)
qed (simp add: app_read_def keeps_budget_books)

lemma budget_ws_read: "keeps_budget 0 a (ws_read sid n a)"
proof (cases "dict_get (recipients a) sid")
  case (Some rc)
  show ?thesis
  proof (rule keeps_budget_rc [OF Some], cases rc)
    case (WsIn w)
    assume "sid \<noteq> 0"
    obtain x w' where rd: "readexactly n w = (x, w')" by fastforce
    let ?c = "case x of Returns (Inr (_, c)) \<Rightarrow> int c | _ \<Rightarrow> 0"
    have "int (pending_credit w') + ?c = int (pending_credit w)"
      using rd by (auto simp: readexactly_def Let_def split: if_splits)
    with \<open>sid \<noteq> 0\<close> Some WsIn rd show ?thesis
      by (intro keeps_budget_set [where k = sid and c = ?c and v = "WsIn w'"])
         (auto simp: ws_read_def credit_both_def emit_def Let_def split: wait.splits sum.splits)
  qed (simp add: ws_read_def Some keeps_budget_books)
qed (simp add: ws_read_def keeps_budget_books)

subsection \<open>Stream identifiers\<close>

definition ids_ok :: "(nat, connection stream) dict \<Rightarrow> bool" where
  "ids_ok d \<longleftrightarrow> (\<forall>x \<in> set d. fst x \<noteq> 0 \<and> stream_id (snd x) = fst x)"

lemma ids_set: "ids_ok d \<Longrightarrow> k \<noteq> 0 \<Longrightarrow> stream_id s = k \<Longrightarrow> ids_ok (dict_set k s d)"
  using set_dict_set_subset [of k s d] by (fastforce simp: ids_ok_def)

lemma ids_pop: "ids_ok d \<Longrightarrow> ids_ok (dict_pop k d)"
  using set_dict_pop_subset [of k d] by (fastforce simp: ids_ok_def)

lemma ids_get: "ids_ok d \<Longrightarrow> dict_get d k = Some s \<Longrightarrow> stream_id s = k \<and> k \<noteq> 0"
  by (auto simp: ids_ok_def dest!: map_of_SomeD)

named_theorems streams_simps \<open>operations that leave the stream nodes alone\<close>

lemma streams_emit [streams_simps]: "streams (emit x a) = streams a"
  by (simp add: emit_def)

lemma streams_close [streams_simps]:
  "streams (close_connection code a) = streams a" "streams (connection_error code a) = streams a"
  by (simp_all add: close_connection_def connection_error_def streams_simps)

lemma streams_send_rst [streams_simps]: "streams (send_rst now sid code a) = streams a"
  by (simp add: send_rst_def count_emitted_rst_def streams_simps Let_def split: prod.split)

lemma streams_make_sender [streams_simps]: "streams (snd (make_sender sid a)) = streams a"
  by (simp add: make_sender_def Let_def split: option.split)

lemma streams_make_sender_eq: "make_sender sid a = (s, a') \<Longrightarrow> streams a' = streams a"
  using streams_make_sender [of sid a] by simp

lemma streams_meter [streams_simps]:
  "streams (snd (meter_type now t a)) = streams a" "streams (snd (meter_empty now b a)) = streams a"
  by (simp_all add: meter_type_def meter_empty_def meter_result_def streams_simps split: prod.split)

lemma streams_others [streams_simps]:
  "streams (signal_recipients a) = streams a" "streams (mark_closed sid v a) = streams a"
  "streams (put_sender sid ch s a) = streams a" "streams (spawn_stream_task sid a) = streams a"
  "streams (credit_both sid n a) = streams a" "streams (pop_recipient sid a) = streams a"
  "streams (deliver_data now b payload sid rc a) = streams a"
  by (simp_all add: signal_recipients_def mark_closed_def put_sender_def spawn_stream_task_def
      credit_both_def pop_recipient_def release_recipient_credit_def deliver_data_def streams_simps
      Let_def split: option.split inbound.split prod.split)

lemma streams_responders [streams_simps]:
  "streams (respond_ping b p a) = streams a"
  "streams (respond_settings b attrs a) = streams a"
  "streams (respond_priority now b dep a) = streams a"
  "streams (respond_window_update now b n a) = streams a"
  by (auto simp: respond_ping_def respond_settings_def respond_priority_def respond_window_update_def
      apply_peer_settings_def map_senders_def streams_simps Let_def dest: streams_make_sender_eq
      split: option.split prod.split)

lemma streams_machine [streams_simps]:
  "streams (snd (watchdog_turn now a)) = streams a" "streams (app_read sid a) = streams a"
  "streams (ws_read sid n a) = streams a"
  "streams (snd (refuse_oversized_declared_body enc date now sid a)) = streams a"
  by (auto simp: watchdog_turn_def app_read_def ws_read_def refuse_oversized_declared_body_def
      streams_simps Let_def dest: streams_make_sender_eq simp del: octets_Cons
      split: option.splits prod.splits expiry.splits inbound.splits wait.splits sum.splits)

definition keeps_flow :: "int \<Rightarrow> ('d, 'c) actor \<Rightarrow> ('d, 'c) actor \<Rightarrow> bool" where
  "keeps_flow m a b \<longleftrightarrow> (ids_ok (streams a) \<longrightarrow> keeps_budget m a b \<and> ids_ok (streams b))"

lemma keeps_flow_same: "books b = books a \<Longrightarrow> streams b = streams a \<Longrightarrow> keeps_flow 0 a b"
  by (simp add: keeps_flow_def keeps_budget_books)

lemma keeps_flow_before: "keeps_flow m b c \<Longrightarrow> books b = books a \<Longrightarrow> streams b = streams a \<Longrightarrow> keeps_flow m a c"
  by (auto simp: keeps_flow_def intro: keeps_budget_before)

lemma keeps_flow_after: "keeps_flow m a b \<Longrightarrow> books c = books b \<Longrightarrow> streams c = streams b \<Longrightarrow> keeps_flow m a c"
  by (auto simp: keeps_flow_def intro: keeps_budget_after)

lemma flow_set_stream: "books b = books a \<Longrightarrow> streams b = streams a \<Longrightarrow> stream_id s \<noteq> 0 \<Longrightarrow> keeps_flow 0 a (set_stream s b)"
  by (simp add: keeps_flow_def keeps_budget_books books_simps) (simp add: set_stream_def ids_set)

lemma flow_data:
  assumes "length payload \<le> flength b" "stream_id s \<noteq> 0"
  shows "keeps_flow (int (flength b)) a (on_data_frame now b payload s a)"
proof -
  have "ids_ok (streams (on_data_frame now b payload s a))" if "ids_ok (streams a)"
    using that assms(2)
    by (auto simp: on_data_frame_def streams_simps Let_def set_stream_def on_data_received_def ids_set
        split: option.split)
  then show ?thesis by (simp add: keeps_flow_def budget_data [OF assms(1)])
qed

lemma flow_rst_stream: "keeps_flow 0 a (respond_rst_stream b a)"
  by (simp add: keeps_flow_def budget_rst_stream)
     (simp add: respond_rst_stream_def streams_simps Let_def ids_pop split: option.split)

lemma flow_task_done: "keeps_flow 0 a (task_done sid w a)"
  by (simp add: keeps_flow_def budget_task_done)
     (simp add: task_done_def streams_simps Let_def ids_pop)

lemma flow_priority_update: "keeps_flow 0 a (respond_priority_update sid fld a)"
  by (auto simp: keeps_flow_def keeps_budget_books books_simps respond_priority_update_def set_hint_def
      new_stream_def Let_def dest: ids_get intro!: ids_set split: option.split)

subsection \<open>The frame loop\<close>

lemma flow_replace:
  assumes "rc_ok v" "held_in v = 0" "k \<noteq> 0" "credited (out b) = credited (out a)"
    "recipients b = dict_set k v (recipients a)" "streams b = streams a"
  shows "keeps_flow 0 a b"
proof -
  have "keeps_budget 0 a b"
    using assms by (intro keeps_budget_set [where k = k and v = v and c = 0]) (auto dest: held_in_nonneg)
  with assms(6) show ?thesis by (simp add: keeps_flow_def)
qed

lemma keeps_flow_trans: "keeps_flow m a b \<Longrightarrow> keeps_flow 0 b c \<Longrightarrow> keeps_flow m a c"
  by (auto simp: keeps_flow_def keeps_budget_def)

lemma flow_dispatch_request:
  assumes "stream_id s \<noteq> 0"
  shows "keeps_flow 0 a (dispatch_request e s c a)"
proof -
  let ?s = "case e of None \<Rightarrow> s\<lparr>conn := Some (apply_priority_and_extensions s c a)\<rparr>
    | Some e \<Rightarrow> on_headers_received e (s\<lparr>conn := Some (apply_priority_and_extensions s c a)\<rparr>)"
  let ?r = "if e = Some True then mark_end_of_stream_on_headers (make_stream_recipient a)
    else make_stream_recipient a"
  have id: "stream_id ?s = stream_id s" by (simp add: on_headers_received_def split: option.split)
  have r: "rc_ok (HttpIn ?r)" "held_in (HttpIn ?r) = 0"
    by (simp_all add: make_stream_recipient_def new_recipient_def mark_end_of_stream_on_headers_def the_queue_def)
  have "keeps_flow 0 a (set_stream ?s a)" using assms id by (intro flow_set_stream) auto
  moreover have "keeps_flow 0 (set_stream ?s a) (dispatch_request e s c a)"
    by (rule flow_replace [OF r, of "stream_id s"])
       (use assms id in \<open>simp_all add: dispatch_request_def spawn_stream_task_def set_stream_def emit_def Let_def\<close>)
  ultimately show ?thesis by (rule keeps_flow_trans)
qed

lemma flow_websocket:
  assumes "sid \<noteq> 0"
  shows "keeps_flow 0 a (handle_h2_websocket now sid a)"
proof (cases "cf_ws_max_streams (cfg a) > 0 \<and> ws_stream_count a \<ge> cf_ws_max_streams (cfg a)")
  case True
  then show ?thesis
    by (simp add: handle_h2_websocket_def keeps_flow_same books_simps streams_simps)
next
  case False
  have "keeps_flow 0 (snd (make_sender sid a)) (handle_h2_websocket now sid a)"
    by (rule flow_replace [where k = sid and v = "WsIn (new_ws_reader DEFAULT_MAX_BUFFER True)"])
       (use False assms in \<open>auto simp: handle_h2_websocket_def emit_def new_ws_reader_def Let_def\<close>)
  then show ?thesis by (rule keeps_flow_before) (simp_all add: books_simps streams_simps)
qed

lemma flow_on_headers:
  assumes "stream_id s \<noteq> 0"
  shows "keeps_flow 0 a (snd (on_headers_frame enc date nok now b hb s a))"
proof -
  have set: "keeps_flow 0 a x" if "books x = books (set_stream s' a)" "streams x = streams (set_stream s' a)"
    "stream_id s' = stream_id s" for s' x
    by (rule keeps_flow_after [OF flow_set_stream that(1,2)]) (simp_all add: that(3) assms)
  have ws: "keeps_flow 0 a (handle_h2_websocket now (stream_id s) (set_stream s' a))"
    if "stream_id s' = stream_id s" for s'
    using keeps_flow_trans [OF set [OF refl refl that] flow_websocket [OF assms]] .
  show ?thesis
    using assms
    by (auto simp: on_headers_frame_def Let_def keeps_flow_same books_simps streams_simps
        on_headers_received_def
        intro!: flow_dispatch_request ws set split: sum.split option.split)
qed

lemma flow_finish_block:
  assumes "stream_id s \<noteq> 0"
  shows "keeps_flow 0 a (snd (finish_block enc date nok now hb s a))"
proof -
  have set: "keeps_flow 0 a x" if "books x = books (set_stream s' a)" "streams x = streams (set_stream s' a)"
    "stream_id s' = stream_id s" for s' x
    by (rule keeps_flow_after [OF flow_set_stream that(1,2)]) (simp_all add: that(3) assms)
  show ?thesis
    using assms
    by (auto simp: finish_block_def Let_def keeps_flow_same books_simps streams_simps
        intro!: flow_dispatch_request set split: sum.split option.split)
qed

lemma flow_on_continuation:
  assumes "stream_id s \<noteq> 0"
  shows "keeps_flow 0 a (snd (on_continuation_frame dec enc date nok now b payload s a))"
  by (auto simp: on_continuation_frame_def Let_def keeps_flow_same books_simps streams_simps
      intro!: keeps_flow_before [OF flow_finish_block [OF assms]]
      split: option.split sum.split)

lemma flow_on_trailers:
  assumes "stream_id s \<noteq> 0"
  shows "keeps_flow 0 a (snd (on_trailers now e s a))"
proof -
  let ?a = "set_stream (on_data_received True s) a"
  have st: "keeps_flow 0 a ?a" using assms by (intro flow_set_stream) (auto simp: on_data_received_def)
  have "keeps_budget 0 ?a (?a\<lparr>recipients := dict_set k (HttpIn (snd (put_end_of_stream r))) (recipients ?a)\<rparr>)"
    if "dict_get (recipients ?a) k = Some (HttpIn r)" for k r
    by (rule keeps_budget_rc [OF that], rule keeps_budget_set [where k = k and c = 0])
       (use that in \<open>auto simp: put_end_of_stream_def put_nowait_def ensure_queue_def\<close>)
  then have "keeps_flow 0 ?a (?a\<lparr>recipients := dict_set k (HttpIn (snd (put_end_of_stream r))) (recipients ?a)\<rparr>)"
    if "dict_get (recipients ?a) k = Some (HttpIn r)" for k r
    using that by (simp add: keeps_flow_def)
  then show ?thesis
    using st keeps_flow_trans [OF st]
    by (auto simp: on_trailers_def Let_def keeps_flow_same books_simps streams_simps
        split: option.split inbound.split)
qed

lemma flow_dispatch_headers:
  assumes "stream_id s \<noteq> 0"
  shows "keeps_flow 0 a (snd (dispatch_headers enc date nok now b hb s a))"
proof -
  have "keeps_flow 0 a (snd (on_headers_frame enc date nok now b hb s (snd (make_sender (stream_id s) a))))"
    by (rule keeps_flow_before [OF flow_on_headers [OF assms]]) (simp_all add: books_simps streams_simps)
  then show ?thesis
    by (auto simp: dispatch_headers_def books_simps flow_on_trailers [OF assms] split: prod.split handled.split
        elim!: keeps_flow_after)
qed

lemma flow_dispatch_continuation:
  assumes "stream_id s \<noteq> 0"
  shows "keeps_flow 0 a (snd (dispatch_continuation dec enc date nok now b p s a))"
proof -
  have "keeps_flow 0 a (snd (on_continuation_frame dec enc date nok now b p s (snd (make_sender (stream_id s) a))))"
    by (rule keeps_flow_before [OF flow_on_continuation [OF assms]]) (simp_all add: books_simps streams_simps)
  then show ?thesis
    by (auto simp: dispatch_continuation_def books_simps split: prod.split handled.split
        elim!: keeps_flow_after)
qed

definition frame_data :: "frame \<Rightarrow> int" where
  "frame_data f = (case f of Data b _ \<Rightarrow> int (flength b) | _ \<Rightarrow> 0)"

definition frame_fits :: "frame \<Rightarrow> bool" where
  "frame_fits f \<longleftrightarrow> (case f of Data b payload \<Rightarrow> length payload \<le> flength b | _ \<Rightarrow> True)"

lemma frame_data_nonneg: "0 \<le> frame_data f"
  by (simp add: frame_data_def split: frame.split)

lemma keeps_flow_mono: "keeps_flow m a b \<Longrightarrow> m \<le> m' \<Longrightarrow> keeps_flow m' a b"
  by (auto simp: keeps_flow_def intro: keeps_budget_mono)

lemma flow_same_frame: "books b = books a \<Longrightarrow> streams b = streams a \<Longrightarrow> keeps_flow (frame_data f) a b"
  by (rule keeps_flow_mono [OF keeps_flow_same frame_data_nonneg])

lemma flow_signal: "books b = books a \<Longrightarrow> streams b = streams a \<Longrightarrow> keeps_flow 0 a (signal_recipients b)"
  using keeps_budget_before [OF budget_signal] by (auto simp: keeps_flow_def streams_simps)

lemma flow_dispatch:
  assumes "frame_fits f" "\<And>s. st = Some s \<Longrightarrow> stream_id s \<noteq> 0"
  shows "keeps_flow (frame_data f) a (snd (dispatch dec enc date nok now f st a))"
  using assms
  by (auto simp: dispatch_def frame_data_def frame_fits_def keeps_flow_same books_simps streams_simps
      flow_data flow_dispatch_headers flow_dispatch_continuation flow_priority_update flow_rst_stream flow_signal
      keeps_flow_mono [OF keeps_flow_same] split: frame.split option.split)

lemma flow_find_or_create:
  assumes "frame_fits f"
  shows "keeps_flow (frame_data f) a (snd (find_or_create dec enc date nok now f b a))"
proof -
  have check: "keeps_flow (frame_data f) x (snd (check_state dec enc date nok now f b st x))"
    if "\<And>s. st = Some s \<Longrightarrow> stream_id s \<noteq> 0" for st and x :: "('a, 'b) actor"
    using flow_dispatch [of f st x dec enc date nok now, OF assms that]
    by (auto simp: check_state_def flow_same_frame books_simps streams_simps
        split: option.split prod.split level.split)
  have known: "keeps_flow (frame_data f) a (snd (check_state dec enc date nok now f b (dict_get (streams a) sid) a))" for sid
    using check [of "dict_get (streams a) sid" a] ids_get [of "streams a" sid]
    by (cases "dict_get (streams a) sid") (auto simp: keeps_flow_def)
  let ?new = "a\<lparr>last_peer_stream_id := fstream b, streams := dict_set (fstream b) (new_stream (fstream b)) (streams a)\<rparr>"
  have fresh: "keeps_flow (frame_data f) a (snd (check_state dec enc date nok now f b (Some (new_stream (fstream b))) ?new))"
    if "fstream b \<noteq> 0"
    using check [of "Some (new_stream (fstream b))" ?new] that ids_set [of "streams a" "fstream b"]
    by (auto simp: keeps_flow_def keeps_budget_def books_simps new_stream_def)
  show ?thesis
    using known [of "fstream b"] fresh check [of None a]
    by (auto simp: find_or_create_def flow_same_frame books_simps streams_simps Let_def split: option.split)
qed

lemma flow_process:
  "frame_fits f \<Longrightarrow> keeps_flow (frame_data f) a (snd (process dec enc date nok now f b a))"
  by (simp add: process_def flow_find_or_create flow_same_frame books_simps streams_simps)

lemma flow_metered:
  assumes "frame_fits f"
  shows "keeps_flow (frame_data f) a (snd (metered dec enc date nok now f a))"
proof (cases "base_of f")
  case (Some b)
  obtain s1 a1 where m1: "meter_type now (ftype b) a = (s1, a1)" by fastforce
  obtain s2 a2 where m2: "meter_empty now b a1 = (s2, a2)" by fastforce
  have "books a1 = books a" "streams a1 = streams a" "books a2 = books a" "streams a2 = streams a"
    using books_meter(1) [of now "ftype b" a] books_meter(2) [of now b a1]
      streams_meter(1) [of now "ftype b" a] streams_meter(2) [of now b a1] m1 m2 by simp_all
  then show ?thesis
    by (simp add: metered_def Some m1 m2 flow_same_frame books_simps streams_simps
        keeps_flow_before [OF flow_process [OF assms]])
qed (simp add: metered_def flow_same_frame books_simps streams_simps)

text \<open>The flow-controlled octets of what one \<^verbatim>\<open>receive\<close> returned: the payload of a DATA frame.\<close>

definition data_octets :: "bytes \<Rightarrow> int" where
  "data_octets data = (if 9 \<le> length data \<and> data ! 3 = 0 then int (length data - 9) else 0)"

lemma data_octets_nonneg: "0 \<le> data_octets data"
  by (simp add: data_octets_def)

lemma load_data_octets:
  "load dec d data = Inr (f, d') \<Longrightarrow> frame_fits f \<and> frame_data f \<le> data_octets data"
  using data_payload_le [of dec d data] data_octets_nonneg [of data]
  by (auto simp: frame_fits_def frame_data_def data_octets_def split: frame.split)

lemma flow_frame_turn:
  "keeps_flow (data_octets data) a (snd (frame_turn dec enc date nok now data a))"
proof -
  have same: "keeps_flow (data_octets data) a x" if "books x = books a" "streams x = streams a" for x
    by (rule keeps_flow_mono [OF keeps_flow_same [OF that] data_octets_nonneg])
  have sig: "keeps_flow (data_octets data) a (signal_recipients x)" if "books x = books a" "streams x = streams a" for x
    by (rule keeps_flow_mono [OF flow_signal [OF that] data_octets_nonneg])
  have frame: "keeps_flow (data_octets data) a (snd (metered dec enc date nok now f x))"
    if "load dec d data = Inr (f, d')" "books x = books a" "streams x = streams a" for f d d' x
    using load_data_octets [OF that(1)] keeps_flow_mono [OF keeps_flow_before [OF flow_metered that(2,3)]] by blast
  show ?thesis
  proof (cases "data = []")
    case False
    then show ?thesis
      by (simp add: frame_turn_def same sig frame books_simps streams_simps Let_def
          split: sum.split prod.split)
  qed (use sig [of a] in \<open>simp add: frame_turn_def\<close>)
qed

lemma flow_reads: "keeps_flow 0 a (app_read sid a)" "keeps_flow 0 a (ws_read sid n a)"
  by (simp_all add: keeps_flow_def budget_app_read budget_ws_read streams_simps)

text \<open>What the peer has spent of the connection window in a sequence of events.\<close>

fun event_octets :: "conn_event \<Rightarrow> int" where
  "event_octets (Inbound _ data _) = data_octets data"
| "event_octets _ = 0"

lemma flow_conn_step:
  "keeps_flow (event_octets ev) (snd st) (snd (conn_step dec enc date nok st ev))"
proof (cases ev)
  case (Inbound now data n)
  have "keeps_flow (data_octets data) (snd st)
      (snd (frame_turn dec enc date nok now data ((snd st)\<lparr>oversize_frame_len := n\<rparr>)))"
    by (rule keeps_flow_before [OF flow_frame_turn]) (simp_all add: books_simps)
  with Inbound show ?thesis
    by (auto simp: conn_step_def intro: keeps_flow_mono [OF keeps_flow_same data_octets_nonneg])
qed (simp_all add: conn_step_def keeps_flow_same books_simps streams_simps flow_task_done flow_reads)

text \<open>
  C2. The server never hands out credit it was not given: in every run, whatever the peer sends and
  in whatever order tasks read, finish and are reset, the WINDOW_UPDATE credit for the connection
  plus the octets still held for replay is at most the DATA received. In particular the credit
  returned never exceeds what the peer has sent.
\<close>

theorem connection_credit_bounded:
  "let a = snd (run_conn dec enc date netloc_ok c d e evs)
   in credited (out a) + held (recipients a) \<le> sum_list (map event_octets evs)
      \<and> 0 \<le> held (recipients a)"
proof -
  have "in_budget (n + sum_list (map event_octets evs)) (books (snd (foldl (conn_step dec enc date netloc_ok) st evs)))"
    if "in_budget n (books (snd st))" "ids_ok (streams (snd st))" for n st
    using that
  proof (induction evs arbitrary: n st)
    case (Cons ev evs)
    let ?st = "conn_step dec enc date netloc_ok st ev"
    from flow_conn_step [of ev st dec enc date netloc_ok] Cons.prems
    have "in_budget (n + event_octets ev) (books (snd ?st))" "ids_ok (streams (snd ?st))"
      by (auto simp: keeps_flow_def keeps_budget_def)
    from Cons.IH [OF this] show ?case by (simp add: add.assoc)
  qed simp
  from this [of 0 "(Continue, new_actor c d e)"] show ?thesis
    by (auto simp: run_conn_def books_def in_budget_def new_actor_def ids_ok_def Let_def
        intro: held_nonneg)
qed

text \<open>
  C32. The books do not balance the other way: connection credit is lost for good. A DATA frame that
  breaks the declared content length is refused without crediting or recording its octets, though
  they were spent from the connection window; and a WebSocket stream that ends while it withholds
  credit takes that credit with it. A peer whose uploads are refused this way often enough can
  send no more DATA on the connection.
\<close>

theorem inbound_credit_lost:
  assumes "content_length_violated (s\<lparr>received_data_bytes := received_data_bytes s + length payload\<rparr>)
             (flag_set F_END_STREAM (fflags b))"
    and "dict_ok (recipients a')" "dict_get (recipients a') sid = Some (WsIn w)"
  shows "credited (out (on_data_frame now b payload s a)) + held (recipients (on_data_frame now b payload s a))
      = credited (out a) + held (recipients a)
    \<and> credited (out (pop_recipient sid a')) + held (recipients (pop_recipient sid a'))
      = credited (out a') + held (recipients a') - int (pending_credit w)"
proof -
  have "books (on_data_frame now b payload s a) = books a"
    using assms(1) by (simp add: on_data_frame_def books_simps Let_def)
  then show ?thesis
    using assms(2,3)
    by (simp add: books_def pop_recipient_def release_recipient_credit_def held_pop held_at_def)
qed

theorem inbound_credit_lost_witness:
  "let a' = on_data_frame 0 \<lparr>flength = 5, ftype = DATA, fflags = 0, fstream = 1\<rparr> [1, 2, 3, 4, 5]
      ((new_stream 1)\<lparr>expected_content_length := Some 3\<rparr>) (new_actor demo_cfg () ())
   in credited (out a') + held (recipients a') = 0"
proof -
  have "out (new_actor demo_cfg () ()) = []" "recipients (new_actor demo_cfg () ()) = []"
    by (simp_all add: new_actor_def Let_def)
  with inbound_credit_lost [where s = "(new_stream 1)\<lparr>expected_content_length := Some 3\<rparr>"
      and payload = "[1, 2, 3, 4, 5]" and b = "\<lparr>flength = 5, ftype = DATA, fflags = 0, fstream = 1\<rparr>"
      and a = "new_actor demo_cfg () ()" and now = 0 and sid = 1
      and a' = "(new_actor demo_cfg () ())\<lparr>recipients := [(1, WsIn (new_ws_reader 4 True))]\<rparr>"
      and w = "new_ws_reader 4 True"]
  show ?thesis by (simp add: content_length_violated_def new_stream_def)
qed

end
