(* ===== verification/H2_Liveness.thy ===== *)
theory H2_Liveness
  imports H2_Conn_Props
begin

text \<open>
  The two loops of a connection: \<^verbatim>\<open>_frame_loop\<close> over all the octets a peer sends before it closes,
  and \<^verbatim>\<open>_liveness_watchdog\<close> over a peer that sends nothing more.
\<close>

subsection \<open>The frame loop\<close>

lemma receive_shorter:
  "(data, oversize, rest) = receive input \<Longrightarrow> data \<noteq> [] \<Longrightarrow> length rest < length input"
  by (auto simp: receive_def Let_def split: if_splits)

text \<open>\<open>clock\<close> gives the time at which the n-th frame is looked at.\<close>

function frame_loop ::
  "'d hpack_decoder \<Rightarrow> 'c hpack_encoder \<Rightarrow> bytes \<Rightarrow> (pystr \<Rightarrow> bool) \<Rightarrow> (nat \<Rightarrow> real) \<Rightarrow> nat
   \<Rightarrow> bytes \<Rightarrow> ('d, 'c) actor \<Rightarrow> outcome \<times> ('d, 'c) actor" where
  "frame_loop dec enc date netloc_ok clock n input a =
     (let (data, oversize, rest) = receive input;
          (oc, a') = frame_turn dec enc date netloc_ok (clock n) data (a\<lparr>oversize_frame_len := oversize\<rparr>)
      in if data \<noteq> [] \<and> oc = Continue then frame_loop dec enc date netloc_ok clock (Suc n) rest a'
         else (oc, a'))"
  by pat_completeness auto
termination
  by (relation "measure (\<lambda>(dec, enc, date, netloc_ok, clock, n, input, a). length input)")
     (auto dest: receive_shorter)

declare frame_loop.simps [simp del]

text \<open>The frames in an input, the end of the stream last.\<close>

function inbound_events :: "(nat \<Rightarrow> real) \<Rightarrow> nat \<Rightarrow> bytes \<Rightarrow> conn_event list" where
  "inbound_events clock n input =
     (let (data, oversize, rest) = receive input
      in Inbound (clock n) data oversize
         # (if data \<noteq> [] then inbound_events clock (Suc n) rest else []))"
  by pat_completeness auto
termination
  by (relation "measure (\<lambda>(clock, n, input). length input)") (auto dest: receive_shorter)

declare inbound_events.simps [simp del]

lemma conn_step_inbound:
  "conn_step dec enc date nok (oc, a) (Inbound now data oversize) =
     (if oc = Continue then frame_turn dec enc date nok now data (a\<lparr>oversize_frame_len := oversize\<rparr>)
      else (oc, a))"
  by (simp add: conn_step_def)

lemma conn_step_stopped:
  "oc \<noteq> Continue \<Longrightarrow> foldl (conn_step dec enc date nok) (oc, a) (inbound_events clock n input) = (oc, a)"
proof (induction clock n input rule: inbound_events.induct)
  case (1 clock n input)
  then show ?case by (subst inbound_events.simps) (auto simp: conn_step_inbound split: prod.split)
qed

lemma frame_loop_run:
  "frame_loop dec enc date nok clock n input a
     = foldl (conn_step dec enc date nok) (Continue, a) (inbound_events clock n input)"
proof (induction dec enc date nok clock n input a rule: frame_loop.induct)
  case (1 dec enc date nok clock n input a)
  obtain data oversize rest where r: "receive input = (data, oversize, rest)" by (metis prod_cases3)
  obtain oc a' where t: "frame_turn dec enc date nok (clock n) data (a\<lparr>oversize_frame_len := oversize\<rparr>) = (oc, a')"
    by fastforce
  show ?case
    using 1 [OF refl r [symmetric] refl refl t [symmetric]] r t conn_step_stopped [of oc dec enc date nok a' clock "Suc n" rest]
    by (subst frame_loop.simps, subst inbound_events.simps) (auto simp: conn_step_inbound)
qed

lemma frame_loop_stops: "fst (frame_loop dec enc date nok clock n input a) \<noteq> Continue"
proof (induction dec enc date nok clock n input a rule: frame_loop.induct)
  case (1 dec enc date nok clock n input a)
  then show ?case
    by (subst frame_loop.simps) (auto simp: frame_turn_def split: prod.split)
qed

subsection \<open>A write timeout is enough for every turn to end\<close>

definition timed_sender :: "real \<Rightarrow> sender \<Rightarrow> bool" where
  "timed_sender t s \<longleftrightarrow> flow_control_timeout s = t \<and> 0 < s_max_frame_size s"

lemma write_loop_timed:
  assumes "timed_sender t s" "0 < t"
  shows "\<exists>x ch' s'. write_loop e rest ch s = Some (x, ch', s') \<and> timed_sender t s'"
  using assms
proof (induction "length rest + length (grants ch)" arbitrary: rest ch s rule: less_induct)
  case less
  show ?case
  proof (cases "rest = []")
    case False
    show ?thesis
    proof (cases "windows_open ch s")
      case True
      let ?n = "chunk_size ch s (length rest)"
      have n: "0 < ?n" using chunk_size_bounds(1) [OF True, of "length rest"] less.prems False
        by (simp add: timed_sender_def)
      with False have "length (drop ?n rest) + length (grants (fst (send_chunk e rest ch s)))
          < length rest + length (grants ch)" by simp
      from less.hyps [OF this, of "snd (send_chunk e rest ch s)"] less.prems False True show ?thesis
        by (subst write_loop.simps) (simp add: timed_sender_def Let_def)
    next
      case closed: False
      show ?thesis
      proof (cases "grants ch")
        case Nil
        then show ?thesis using less.prems False closed
          by (subst write_loop.simps) (simp add: wait_window_def timed_sender_def)
      next
        case (Cons g gs)
        obtain dc ds where "g = (dc, ds)" by fastforce
        with less.hyps [of rest "ch\<lparr>conn_win := conn_win ch + dc, grants := gs\<rparr>"
            "s\<lparr>stream_window_size := stream_window_size s + ds\<rparr>"] less.prems False closed Cons
        show ?thesis by (subst write_loop.simps) (simp add: wait_window_def timed_sender_def ret_def)
      qed
    qed
  qed (use less.prems in \<open>subst write_loop.simps, simp add: ret_def\<close>)
qed

lemma send_bytes_timed:
  assumes "timed_sender t s" "0 < t"
  shows "\<exists>x ch' s'. send_bytes enc date body st hs ch s = Some (x, ch', s') \<and> timed_sender t s'"
proof (cases "build_response_headers enc date (enc_st ch) (s_stream_id s) st hs False")
  case (Inr r)
  obtain h c1 where "r = (h, c1)" by fastforce
  moreover obtain x ch' s' where "write_data body True (put_write h (ch\<lparr>enc_st := c1\<rparr>)) s = Some (x, ch', s')"
    "timed_sender t s'"
    using write_loop_timed [OF assms, of True body "put_write h (ch\<lparr>enc_st := c1\<rparr>)"] assms(1)
    by (cases "body = []") (auto simp: write_data_def ret_def)
  ultimately show ?thesis
    using Inr assms(1)
    by (cases x) (auto simp: send_bytes_def encode_start_def thenS_def ret_def debit_def put_write_def
        timed_sender_def Let_def)
qed (use assms in \<open>simp add: send_bytes_def encode_start_def\<close>)

definition tview :: "('d, 'c) actor \<Rightarrow> h2_cfg \<times> (nat, sender) dict" where
  "tview a = (cfg a, senders a)"

definition timed :: "h2_cfg \<times> (nat, sender) dict \<Rightarrow> bool" where
  "timed v \<longleftrightarrow> 0 < cf_write_timeout (fst v)
     \<and> (\<forall>x \<in> set (snd v). timed_sender (cf_write_timeout (fst v)) (snd x))"

lemma timed_set: "timed (c, d) \<Longrightarrow> timed_sender (cf_write_timeout c) s \<Longrightarrow> timed (c, dict_set k s d)"
  using set_dict_set_subset [of k s d] by (fastforce simp: timed_def)

lemma timed_pop: "timed (c, d) \<Longrightarrow> timed (c, dict_pop k d)"
  using set_dict_pop_subset [of k d] by (fastforce simp: timed_def)

lemma timed_get: "timed (c, d) \<Longrightarrow> dict_get d k = Some s \<Longrightarrow> timed_sender (cf_write_timeout c) s"
  by (auto simp: timed_def dest!: map_of_SomeD)

lemma timed_new: "timed_sender t (new_sender sid w t)"
  by (simp add: timed_sender_def new_sender_def DEFAULT_MAX_FRAME_SIZE_def)

lemma timed_make_sender:
  assumes "timed (tview a)" "make_sender sid a = (s, a')"
  shows "timed_sender (cf_write_timeout (cfg a)) s" "timed (tview a')" "cfg a' = cfg a"
  using assms timed_get [of "cfg a" "senders a" sid]
  by (auto simp: make_sender_def tview_def timed_new Let_def intro!: timed_set split: option.splits)

named_theorems tview_simps \<open>operations that leave configuration and senders alone\<close>

lemma tview_upd [tview_simps]:
  "tview (a\<lparr>goaway_sent := x2\<rparr>) = tview a" "tview (a\<lparr>rst_meter := x3\<rparr>) = tview a"
  "tview (a\<lparr>ping_meter := x3\<rparr>) = tview a" "tview (a\<lparr>settings_meter := x3\<rparr>) = tview a"
  "tview (a\<lparr>empty_frame_meter := x3\<rparr>) = tview a" "tview (a\<lparr>streams := x4\<rparr>) = tview a"
  "tview (a\<lparr>recipients := x5\<rparr>) = tview a" "tview (a\<lparr>closed_streams := x6\<rparr>) = tview a"
  "tview (a\<lparr>closed_high_water := x8\<rparr>) = tview a" "tview (a\<lparr>conn_window := x9\<rparr>) = tview a"
  "tview (a\<lparr>peer_initial_window_size := x9\<rparr>) = tview a" "tview (a\<lparr>dec_st := x11\<rparr>) = tview a"
  "tview (a\<lparr>header_block_since := x14\<rparr>) = tview a" "tview (a\<lparr>last_peer_stream_id := x8\<rparr>) = tview a"
  "tview (a\<lparr>last_frame_at := x15\<rparr>) = tview a" "tview (a\<lparr>probe_sent_at := x14\<rparr>) = tview a"
  "tview (a\<lparr>oversize_frame_len := x8\<rparr>) = tview a" "tview (a\<lparr>stream_tasks := x16\<rparr>) = tview a"
  "tview (a\<lparr>waiting_continuation := x2\<rparr>) = tview a" "tview (a\<lparr>header_frame := x17\<rparr>) = tview a"
  "tview (a\<lparr>live := x18\<rparr>) = tview a" "tview (a\<lparr>active_stream_count := x8\<rparr>) = tview a"
  "tview (a\<lparr>ws_stream_count := x8\<rparr>) = tview a" "tview (a\<lparr>out := x19\<rparr>) = tview a"
  by (simp_all add: tview_def)

lemma tview_emit [tview_simps]: "tview (emit x a) = tview a"
  by (simp add: emit_def tview_simps)

lemma tview_close [tview_simps]:
  "tview (close_connection code a) = tview a" "tview (connection_error code a) = tview a"
  by (simp_all add: close_connection_def connection_error_def tview_simps)

lemma tview_send_rst [tview_simps]: "tview (send_rst now sid code a) = tview a"
  by (simp add: send_rst_def count_emitted_rst_def tview_simps Let_def split: prod.split)

lemma tview_meter [tview_simps]:
  "tview (snd (meter_type now t a)) = tview a" "tview (snd (meter_empty now b a)) = tview a"
  by (simp_all add: meter_type_def meter_empty_def meter_result_def tview_simps split: prod.split)

lemma tview_others [tview_simps]:
  "tview (signal_recipients a) = tview a" "tview (mark_closed sid v a) = tview a"
  "tview (spawn_stream_task sid a) = tview a" "tview (set_stream s a) = tview a"
  "tview (credit_both sid n a) = tview a" "tview (pop_recipient sid a) = tview a"
  "tview (deliver_data now b payload sid rc a) = tview a"
  by (simp_all add: signal_recipients_def mark_closed_def spawn_stream_task_def set_stream_def
      credit_both_def pop_recipient_def release_recipient_credit_def deliver_data_def tview_simps
      Let_def split: option.split inbound.split prod.split)

lemma tview_handlers [tview_simps]:
  "tview (respond_ping b p a) = tview a" "tview (respond_priority now b dep a) = tview a"
  "tview (respond_priority_update sid fld a) = tview a"
  "tview (on_data_frame now b payload s a) = tview a"
  "tview (dispatch_request es s c a) = tview a"
  "tview (snd (on_trailers now e s a)) = tview a"
  by (simp_all add: respond_ping_def respond_priority_def respond_priority_update_def on_data_frame_def
      dispatch_request_def on_trailers_def tview_simps Let_def split: option.split inbound.split)

lemma timed_refuse:
  assumes "timed (tview a)"
  shows "fst (refuse_oversized_declared_body enc date now sid a) \<noteq> Escapes Hang
     \<and> timed (tview (snd (refuse_oversized_declared_body enc date now sid a)))"
proof -
  obtain s a' where m: "make_sender sid a = (s, a')" by fastforce
  note mk = timed_make_sender [OF assms m]
  define ch where "ch = \<lparr>enc_st = enc_state a', conn_win = conn_window a', written = [], grants = []\<rparr>"
  define ev where "ev = BytesBody (octets ''413 Content Too Large'') 413 [(octets ''content-type'', octets ''text/plain'')]"
  have "\<exists>x ch' s'. call enc date ev ch s = Some (x, ch', s') \<and> timed_sender (cf_write_timeout (cfg a)) s'"
    using send_bytes_timed [OF mk(1)] mk(1) assms
    by (auto simp: call_def ev_def ret_def timed_def tview_def simp del: octets_Cons)
  then obtain x ch' s' where "call enc date ev ch s = Some (x, ch', s')"
    "timed_sender (cf_write_timeout (cfg a)) s'" by blast
  moreover from this mk have "timed (tview (put_sender sid ch' s' a'))"
    by (auto simp: put_sender_def tview_def intro: timed_set)
  ultimately show ?thesis
    by (cases x) (simp_all add: refuse_oversized_declared_body_def m tview_simps Let_def
        del: octets_Cons flip: ch_def ev_def)
qed

definition turn_ends :: "handled \<times> ('d, 'c) actor \<Rightarrow> bool" where
  "turn_ends p \<longleftrightarrow> fst p \<noteq> Escapes Hang \<and> timed (tview (snd p))"

lemma timed_make_sender_snd: "timed (tview a) \<Longrightarrow> timed (tview (snd (make_sender sid a)))"
  using timed_make_sender(2) [of a sid] by (cases "make_sender sid a") simp

lemma timed_websocket: "timed (tview a) \<Longrightarrow> timed (tview (handle_h2_websocket now sid a))"
  by (simp add: handle_h2_websocket_def tview_simps timed_make_sender_snd Let_def)

lemma timed_on_headers:
  "timed (tview a) \<Longrightarrow> turn_ends (on_headers_frame enc date nok now b hb s a)"
  by (auto simp: turn_ends_def on_headers_frame_def tview_simps timed_refuse timed_websocket Let_def
      split: sum.split option.split)

lemma timed_on_continuation:
  "timed (tview a) \<Longrightarrow> turn_ends (on_continuation_frame dec enc date nok now b p s a)"
  by (auto simp: turn_ends_def on_continuation_frame_def finish_block_def tview_simps timed_refuse
      Let_def split: sum.split option.split)

lemma timed_responders:
  assumes "timed (tview a)"
  shows "timed (tview (respond_settings b attrs a))"
    "timed (tview (respond_window_update now b n a))" "timed (tview (respond_rst_stream b a))"
proof -
  have "settings_valid attrs = None \<Longrightarrow> dict_get attrs max_frame_size = Some m \<Longrightarrow> 0 < m" for m
    by (auto simp: settings_valid_def split: if_splits option.splits)
  then show "timed (tview (respond_settings b attrs a))"
    using assms
    by (auto simp: respond_settings_def apply_peer_settings_def map_senders_def tview_simps Let_def
        split: option.split)
       (auto simp: tview_def timed_def timed_sender_def apply_settings_def adjust_initial_window_def)
  obtain s a' where m: "make_sender (fstream b) a = (s, a')" by fastforce
  from timed_make_sender [OF assms m] assms m show "timed (tview (respond_window_update now b n a))"
    by (auto simp: respond_window_update_def tview_simps)
       (auto simp: tview_def H2_Sender.window_update_def timed_sender_def intro!: timed_set)
  show "timed (tview (respond_rst_stream b a))"
    using assms by (auto simp: respond_rst_stream_def tview_simps Let_def split: option.split)
      (auto simp: tview_def mark_closed_def emit_def Let_def timed_pop)
qed

definition loop_ends :: "outcome \<times> ('d, 'c) actor \<Rightarrow> bool" where
  "loop_ends p \<longleftrightarrow> fst p \<noteq> Hang \<and> timed (tview (snd p))"

lemma on_trailers_no_hang: "fst (on_trailers now e s a) \<noteq> Hang"
  by (simp add: on_trailers_def Let_def split: option.split inbound.split)

lemma timed_dispatch:
  assumes "timed (tview a)"
  shows "loop_ends (dispatch dec enc date nok now f st a)"
proof -
  have "loop_ends (dispatch_headers enc date nok now b hb s a)" for b hb s
    using timed_on_headers [OF timed_make_sender_snd [OF assms, of "stream_id s"],
        of enc date nok now b hb s] assms
    by (auto simp: dispatch_headers_def loop_ends_def turn_ends_def tview_simps on_trailers_no_hang
        split: prod.split handled.split)
  moreover have "loop_ends (dispatch_continuation dec enc date nok now b p s a)" for b p s
    using timed_on_continuation [OF timed_make_sender_snd [OF assms, of "stream_id s"],
        of dec enc date nok now b p s]
    by (auto simp: dispatch_continuation_def loop_ends_def turn_ends_def tview_simps split: prod.split handled.split)
  ultimately show ?thesis
    using assms
    by (auto simp: dispatch_def loop_ends_def tview_simps timed_responders split: frame.split option.split)
qed

lemma timed_frame_turn:
  assumes "timed (tview a)"
  shows "loop_ends (frame_turn dec enc date nok now data a)"
proof -
  have check: "loop_ends (check_state dec enc date nok now f b st x)" if "tview x = tview a" for f b st x
    using assms that timed_dispatch [of x dec enc date nok now f st]
    by (auto simp: check_state_def loop_ends_def tview_simps split: option.split level.split)
  have process: "loop_ends (process dec enc date nok now f b x)" if "tview x = tview a" for f b x
    using assms that
    by (auto simp: process_def find_or_create_def loop_ends_def [of "(_, _)"] tview_simps check Let_def
        split: option.split)
  have "loop_ends (metered dec enc date nok now f x)" if x: "tview x = tview a" for f x
  proof (cases "base_of f")
    case (Some b)
    obtain s1 a1 where m1: "meter_type now (ftype b) x = (s1, a1)" by fastforce
    obtain s2 a2 where m2: "meter_empty now b a1 = (s2, a2)" by fastforce
    have "tview a1 = tview a" "tview a2 = tview a"
      using tview_meter(1) [of now "ftype b" x] tview_meter(2) [of now b a1] m1 m2 x by simp_all
    with x assms show ?thesis
      by (simp add: metered_def Some m1 m2 process) (simp add: loop_ends_def tview_simps)
  qed (use x assms in \<open>simp add: metered_def loop_ends_def tview_simps\<close>)
  then show ?thesis
    using assms by (auto simp: frame_turn_def loop_ends_def [of "(_, _)"] tview_simps Let_def
        split: sum.split prod.split)
qed

lemma timed_frame_loop:
  "timed (tview a) \<Longrightarrow> loop_ends (frame_loop dec enc date nok clock n input a)"
proof (induction dec enc date nok clock n input a rule: frame_loop.induct)
  case (1 dec enc date nok clock n input a)
  obtain data oversize rest where r: "receive input = (data, oversize, rest)" by (metis prod_cases3)
  obtain oc a' where t: "frame_turn dec enc date nok (clock n) data (a\<lparr>oversize_frame_len := oversize\<rparr>) = (oc, a')"
    by fastforce
  from timed_frame_turn [of "a\<lparr>oversize_frame_len := oversize\<rparr>" dec enc date nok "clock n" data] 1(2) t
  have "loop_ends (oc, a')" by (simp add: tview_simps)
  with 1(1) [OF refl r [symmetric] refl refl t [symmetric]] r t show ?case
    by (subst frame_loop.simps) (auto simp: loop_ends_def)
qed

text \<open>
  C3. The frame loop ends on every finite input. Whatever octets the peer sends before it closes
  the connection, well formed or not, the loop cuts them into frames and stops after finitely many
  turns, by returning or by an exception; no turn waits for ever, provided a write timeout is
  configured. What it does is the run of the connection on those frames, so that the invariants of
  all runs hold of it.
\<close>

theorem frame_loop_terminates:
  assumes "0 < cf_write_timeout c"
  shows "fst (frame_loop dec enc date netloc_ok clock 0 input (new_actor c d e)) \<notin> {Continue, Hang}
   \<and> frame_loop dec enc date netloc_ok clock 0 input (new_actor c d e)
     = run_conn dec enc date netloc_ok c d e (inbound_events clock 0 input)"
proof -
  have "timed (tview (new_actor c d e))"
    using assms by (simp add: timed_def tview_def new_actor_def Let_def)
  from timed_frame_loop [OF this]
  have "fst (frame_loop dec enc date netloc_ok clock 0 input (new_actor c d e)) \<noteq> Hang"
    by (simp add: loop_ends_def)
  with frame_loop_stops [of dec enc date netloc_ok clock 0 input "new_actor c d e"] show ?thesis
    by (simp add: frame_loop_run run_conn_def)
qed

theorem frame_loop_terminates_witness:
  "fst (frame_loop (\<lambda>d b. None) toy_encoder [] (\<lambda>_. True) real 0
      [0, 0, 0, 4, 0, 0, 0, 0, 0, 0, 0] (new_actor (demo_cfg\<lparr>cf_write_timeout := 30\<rparr>) () ()))
   \<notin> {Continue, Hang}"
  by (rule frame_loop_terminates [THEN conjunct1]) simp

subsection \<open>The watchdog\<close>

text \<open>
  When the next pass starts: at the deadline slept for, after a header timeout when there is no
  deadline, at once after a probe. \<open>late\<close> is by how much the event loop oversleeps.
\<close>

definition watchdog_next :: "real \<Rightarrow> real \<Rightarrow> ('d, 'c) actor \<Rightarrow> real" where
  "watchdog_next late now a =
     late + (case watchdog_target a of
               None \<Rightarrow> now + cf_header_timeout (cfg a)
             | Some (wake_at, _) \<Rightarrow> max wake_at now)"

text \<open>The passes over a connection on which nothing arrives; the list has the delays.\<close>

fun watchdog_loop :: "real list \<Rightarrow> real \<Rightarrow> ('d, 'c) actor \<Rightarrow> real \<times> bool \<times> ('d, 'c) actor" where
  "watchdog_loop [] now a = (now, True, a)"
| "watchdog_loop (late # lates) now a =
     (let (goes_on, a') = watchdog_turn now a
      in if goes_on then watchdog_loop lates (watchdog_next late now a) a' else (now, False, a'))"

lemma watchdog_turn_early:
  "watchdog_target a = Some (t, k) \<Longrightarrow> now < t \<Longrightarrow> 0 < cf_idle_timeout (cfg a)
   \<Longrightarrow> watchdog_turn now a = (True, a)"
  by (simp add: watchdog_turn_def)

lemma watchdog_probe_due:
  assumes "probe_sent_at a = Some p" "p + cf_ping_timeout (cfg a) \<le> now" "0 < cf_idle_timeout (cfg a)"
  shows "watchdog_turn now a = (False, close_connection NO_ERROR a)"
  using assms by (simp add: watchdog_turn_def watchdog_target_def)

text \<open>Once a probe is out, two more passes end the connection.\<close>

lemma watchdog_loop_probed:
  assumes "probe_sent_at a = Some p" "0 < cf_idle_timeout (cfg a)" "0 \<le> l" "p \<le> now"
  shows "\<exists>t. watchdog_loop (l # l' # ls) now a = (t, False, close_connection NO_ERROR a)
     \<and> t \<le> max now (p + cf_ping_timeout (cfg a)) + l"
proof (cases "now < p + cf_ping_timeout (cfg a)")
  case True
  have t: "watchdog_target a = Some (p + cf_ping_timeout (cfg a), ProbeExpiry)"
    using assms(1) by (simp add: watchdog_target_def)
  from True assms(3) have "p + cf_ping_timeout (cfg a) \<le> watchdog_next l now a"
    by (simp add: watchdog_next_def t)
  with True assms show ?thesis
    by (simp add: watchdog_turn_early [OF t] watchdog_probe_due) (simp add: watchdog_next_def t)
next
  case False
  with assms show ?thesis by (simp add: watchdog_probe_due)
qed



end
