(* ===== verification/Ws_Codec.thy ===== *)
theory Ws_Codec
  imports Utf8
begin

text \<open>
  The WebSocket frame codec of \<^verbatim>\<open>src/blackbull/server/ws_codec.py\<close> and the fragment assembler of
  \<^verbatim>\<open>recipient.py\<close>. A transport is what will still arrive on it and whether it then ends or falls
  silent; a read either gets its octets, meets the end, or waits. The masking key that
  \<^verbatim>\<open>os.urandom\<close> draws is an argument.
\<close>

subsection \<open>Reading\<close>

record source =
  avail :: bytes
  ended :: bool

datatype ws_exn =
    IncompleteRead
  | FramePayloadTooLarge nat nat
  | MessageTooLarge nat nat
  | ProtocolError nat

datatype 'a rd = Got 'a source | Waits | Fails ws_exn

definition read_exactly :: "nat \<Rightarrow> source \<Rightarrow> bytes rd" where
  "read_exactly n src =
     (if length (avail src) < n then (if ended src then Fails IncompleteRead else Waits)
      else Got (take n (avail src)) (src\<lparr>avail := drop n (avail src)\<rparr>))"

definition thenR :: "'a rd \<Rightarrow> ('a \<Rightarrow> source \<Rightarrow> 'b rd) \<Rightarrow> 'b rd" where
  "thenR r f = (case r of Got x src \<Rightarrow> f x src | Waits \<Rightarrow> Waits | Fails e \<Rightarrow> Fails e)"

lemma thenR_simps [simp]: "thenR (Got x src) f = f x src" "thenR Waits f = Waits" "thenR (Fails e) f = Fails e"
  by (simp_all add: thenR_def)

subsection \<open>Frames\<close>

definition OP_CONTINUATION :: nat where "OP_CONTINUATION = 0x0"
definition OP_TEXT :: nat where "OP_TEXT = 0x1"
definition OP_BINARY :: nat where "OP_BINARY = 0x2"
definition OP_CLOSE :: nat where "OP_CLOSE = 0x8"
definition OP_PING :: nat where "OP_PING = 0x9"
definition OP_PONG :: nat where "OP_PONG = 0xA"

lemmas opcode_defs = OP_CONTINUATION_def OP_TEXT_def OP_BINARY_def OP_CLOSE_def OP_PING_def OP_PONG_def

record ws_frame_header =
  h_opcode :: nat
  h_masked :: bool
  h_length :: nat
  h_fin :: bool
  h_rsv1 :: bool
  h_rsv2 :: bool
  h_rsv3 :: bool

text \<open>
  \<^verbatim>\<open>first_byte = FIN | opcode\<close>, with RSV1 on request. The header is \<^verbatim>\<open>None\<close> where \<^verbatim>\<open>to_bytes\<close> or
  \<^verbatim>\<open>bytes\<close> raises.
\<close>

definition first_byte :: "nat \<Rightarrow> bool \<Rightarrow> nat" where
  "first_byte opcode rsv1 = (let b = 0x80 OR opcode in if rsv1 then b OR 0x40 else b)"

definition encode_length :: "nat \<Rightarrow> nat \<Rightarrow> bytes option" where
  "encode_length mask_bit n =
     (if n < 126 then Some [word_of_nat (mask_bit OR n)]
      else if n < 65536 then Some (word_of_nat (mask_bit OR 126) # to_be 2 n)
      else if n < 256 ^ 8 then Some (word_of_nat (mask_bit OR 127) # to_be 8 n)
      else None)"

definition encode_frame_header :: "nat \<Rightarrow> nat \<Rightarrow> bool \<Rightarrow> bytes option" where
  "encode_frame_header n opcode rsv1 =
     (if first_byte opcode rsv1 < 256
      then map_option (\<lambda>l. word_of_nat (first_byte opcode rsv1) # l) (encode_length 0 n)
      else None)"

definition mask_payload :: "bytes \<Rightarrow> bytes \<Rightarrow> bytes" where
  "mask_payload key payload = map (\<lambda>(i, b). b XOR key ! (i mod 4)) (enumerate 0 payload)"

definition encode_frame :: "bytes option \<Rightarrow> bytes \<Rightarrow> nat \<Rightarrow> bool \<Rightarrow> bytes option" where
  "encode_frame mask_key payload opcode rsv1 =
     (case mask_key of
        None \<Rightarrow> map_option (\<lambda>h. h @ payload) (encode_frame_header (length payload) opcode rsv1)
      | Some key \<Rightarrow>
          if first_byte opcode rsv1 < 256
          then map_option (\<lambda>l. word_of_nat (first_byte opcode rsv1) # l @ key @ mask_payload key payload)
                 (encode_length 0x80 (length payload))
          else None)"

definition parse_frame_header :: "byte \<Rightarrow> byte \<Rightarrow> ws_frame_header" where
  "parse_frame_header b0 b1 =
     \<lparr>h_opcode = unat (b0 AND 0x0F), h_masked = (b1 AND 0x80 \<noteq> 0), h_length = unat (b1 AND 0x7F),
      h_fin = (b0 AND 0x80 \<noteq> 0), h_rsv1 = (b0 AND 0x40 \<noteq> 0), h_rsv2 = (b0 AND 0x20 \<noteq> 0),
      h_rsv3 = (b0 AND 0x10 \<noteq> 0)\<rparr>"

definition read_frame_header :: "source \<Rightarrow> ws_frame_header rd" where
  "read_frame_header src =
     thenR (read_exactly 2 src) (\<lambda>h src. Got (parse_frame_header (h ! 0) (h ! 1)) src)"

text \<open>The exclusive or on big integers that \<^verbatim>\<open>read_payload\<close> uses to unmask.\<close>

definition unmask_int :: "bytes \<Rightarrow> bytes \<Rightarrow> bytes" where
  "unmask_int key raw =
     (let n = length raw;
          extended_mask = concat (replicate ((n + 3) div 4) key);
          extended_mask = (if length extended_mask > n then take n extended_mask else extended_mask)
      in to_be n (from_be raw XOR from_be extended_mask))"

definition read_length :: "nat \<Rightarrow> source \<Rightarrow> nat rd" where
  "read_length n src =
     (if n = 126 then thenR (read_exactly 2 src) (\<lambda>b src. Got (from_be b) src)
      else if n = 127 then thenR (read_exactly 8 src) (\<lambda>b src. Got (from_be b) src)
      else Got n src)"

definition read_payload :: "bool \<Rightarrow> nat \<Rightarrow> nat option \<Rightarrow> source \<Rightarrow> bytes rd" where
  "read_payload masked n max_length src =
     thenR (read_length n src) (\<lambda>len src.
       if (case max_length of None \<Rightarrow> False | Some m \<Rightarrow> len > m)
       then Fails (FramePayloadTooLarge len (the max_length))
       else if \<not> masked then read_exactly len src
       else
         thenR (read_exactly 4 src) (\<lambda>key src.
         thenR (read_exactly len src) (\<lambda>raw src.
           if len = 0 then Got raw src else Got (unmask_int key raw) src)))"

definition read_frame :: "source \<Rightarrow> (nat \<times> bytes) rd" where
  "read_frame src =
     thenR (read_frame_header src) (\<lambda>h src.
     thenR (read_payload (h_masked h) (h_length h) None src) (\<lambda>payload src.
       Got (h_opcode h, payload) src))"

subsection \<open>\<^verbatim>\<open>FragmentAssembler\<close>\<close>

record assembler =
  max_total :: nat
  a_opcode :: "nat option"
  a_buf :: bytes
  a_compressed :: bool

definition new_assembler :: "nat \<Rightarrow> assembler" where
  "new_assembler m = \<lparr>max_total = m, a_opcode = None, a_buf = [], a_compressed = False\<rparr>"

definition feed ::
  "nat \<Rightarrow> bytes \<Rightarrow> bool \<Rightarrow> bool \<Rightarrow> assembler \<Rightarrow> ws_exn + (nat \<times> bytes \<times> bool) option \<times> assembler" where
  "feed opcode payload fin rsv1 s =
     (if opcode = OP_CONTINUATION then
        (case a_opcode s of
           None \<Rightarrow> Inl (ProtocolError 1002)
         | Some op \<Rightarrow>
             if rsv1 then Inl (ProtocolError 1002)
             else if max_total s \<noteq> 0 \<and> length (a_buf s) + length payload > max_total s
             then Inl (MessageTooLarge (length (a_buf s) + length payload) (max_total s))
             else
               let buf = a_buf s @ payload
               in if fin then Inr (Some (op, buf, a_compressed s), new_assembler (max_total s))
                  else Inr (None, s\<lparr>a_buf := buf\<rparr>))
      else if a_opcode s \<noteq> None then Inl (ProtocolError 1002)
      else if fin then Inr (Some (opcode, payload, rsv1), s)
      else if max_total s \<noteq> 0 \<and> length payload > max_total s
      then Inl (MessageTooLarge (length payload) (max_total s))
      else Inr (None, s\<lparr>a_opcode := Some opcode, a_buf := payload, a_compressed := rsv1\<rparr>))"

subsection \<open>Unmasking by big integers\<close>

lemma from_be_last: "from_be bs * 256 + unat b = push_bit 8 (from_be bs) + unat b" for b :: byte
  by (simp add: push_bit_eq_mult)

lemma drop_last: "drop_bit 8 (n * 256 + unat b) = n" for b :: byte
  using unat_byte_less [of b] by (simp add: drop_bit_eq_div)

lemma word_last: "word_of_nat (n * 256 + unat b) = b" for b :: byte
  by (rule word_unat_eq_iff [THEN iffD2]) (simp add: unat_of_nat del: of_nat_add of_nat_mult)

lemma to_be_xor:
  "length xs = length ys \<Longrightarrow> to_be (length xs) (from_be xs XOR from_be ys) = map2 (XOR) xs ys"
proof (induction xs arbitrary: ys rule: rev_induct)
  case (snoc x xs)
  then obtain ys' y where ys: "ys = ys' @ [y]" "length xs = length ys'" by (cases ys rule: rev_cases) auto
  let ?a = "from_be xs * 256 + unat x" and ?b = "from_be ys' * 256 + unat y"
  have "drop_bit 8 (?a XOR ?b) = from_be xs XOR from_be ys'" by (simp only: drop_bit_xor drop_last)
  then have "(?a XOR ?b) div 256 = from_be xs XOR from_be ys'" by (simp add: drop_bit_eq_div)
  moreover have "word_of_nat (?a XOR ?b) = x XOR y"
    using of_nat_xor_eq [where 'a = "8 word", of ?a ?b] by (simp only: word_last)
  ultimately show ?case using snoc.IH [OF ys(2)] ys by simp
qed simp

lemma nth_concat_replicate:
  assumes "length key = 4" "i < 4 * k"
  shows "concat (replicate k key) ! i = key ! (i mod 4)"
  using assms(2)
proof (induction k arbitrary: i)
  case (Suc k)
  have "concat (replicate k key) ! (i - 4) = key ! (i mod 4)" if "4 \<le> i"
    using Suc.IH [of "i - 4"] Suc.prems that by (simp add: le_mod_geq)
  then show ?case using assms(1) by (cases "i < 4") (auto simp: nth_append)
qed simp

lemma length_concat_replicate: "length (concat (replicate k key)) = k * length key"
  by (induction k) auto

lemma extended_key:
  assumes "length key = 4"
  shows "take n (concat (replicate ((n + 3) div 4) key)) = map (\<lambda>i. key ! (i mod 4)) [0..<n]"
    and "n \<le> length (concat (replicate ((n + 3) div 4) key))"
proof -
  show le: "n \<le> length (concat (replicate ((n + 3) div 4) key))"
    using assms by (simp add: length_concat_replicate)
  have "take n (concat (replicate ((n + 3) div 4) key)) ! i = key ! (i mod 4)" if "i < n" for i
    using nth_concat_replicate [OF assms, of i "(n + 3) div 4"] le that assms
    by (simp add: length_concat_replicate)
  with le show "take n (concat (replicate ((n + 3) div 4) key)) = map (\<lambda>i. key ! (i mod 4)) [0..<n]"
    by (intro nth_equalityI) auto
qed

lemma unmask_is_mask:
  assumes "length key = 4"
  shows "unmask_int key raw = mask_payload key raw"
proof -
  let ?n = "length raw" let ?e = "concat (replicate ((?n + 3) div 4) key)"
  have e: "(if length ?e > ?n then take ?n ?e else ?e) = map (\<lambda>i. key ! (i mod 4)) [0..<?n]"
    using extended_key [OF assms, of ?n] by (cases "length ?e > ?n") (auto simp: le_less)
  have "unmask_int key raw = map2 (XOR) raw (map (\<lambda>i. key ! (i mod 4)) [0..<?n])"
    unfolding unmask_int_def Let_def e by (rule to_be_xor) simp
  also have "\<dots> = mask_payload key raw"
    by (rule nth_equalityI) (simp_all add: mask_payload_def nth_enumerate_eq)
  finally show ?thesis .
qed

lemma length_mask_payload [simp]: "length (mask_payload key payload) = length payload"
  by (simp add: mask_payload_def)

lemma mask_payload_Nil [simp]: "mask_payload key [] = []"
  by (simp add: mask_payload_def)

lemma mask_twice: "mask_payload key (mask_payload key payload) = payload"
  by (rule nth_equalityI) (simp_all add: mask_payload_def nth_enumerate_eq xor.assoc)

text \<open>
  The arithmetic shortcut is right: reading a masked payload as one big integer, exclusive-or
  with the repeated key as another, and writing the result back gives octet by octet the exclusive
  or with the key, for payloads of every length; so unmasking what the sender masked returns the
  payload.
\<close>

lemma unmask_by_big_integers:
  assumes "length key = 4"
  shows "unmask_int key raw = map (\<lambda>i. raw ! i XOR key ! (i mod 4)) [0..<length raw]
    \<and> unmask_int key (mask_payload key payload) = payload"
proof -
  have "mask_payload key raw = map (\<lambda>i. raw ! i XOR key ! (i mod 4)) [0..<length raw]"
    by (rule nth_equalityI) (simp_all add: mask_payload_def nth_enumerate_eq)
  with assms show ?thesis by (simp add: unmask_is_mask mask_twice)
qed

subsection \<open>What is written is read back\<close>

lemma nat_single_bit: "n AND 2 ^ k = 0 \<longleftrightarrow> even (n div 2 ^ k)" for n :: nat
  using and_exp_eq_0_iff_not_bit [of n k] by (simp add: bit_iff_odd)

lemma byte_single_bit:
  assumes "n < 256"
  shows "(word_of_nat n :: byte) AND 0x80 = 0 \<longleftrightarrow> even (n div 128)"
    "(word_of_nat n :: byte) AND 0x40 = 0 \<longleftrightarrow> even (n div 64)"
    "(word_of_nat n :: byte) AND 0x20 = 0 \<longleftrightarrow> even (n div 32)"
    "(word_of_nat n :: byte) AND 0x10 = 0 \<longleftrightarrow> even (n div 16)"
  using assms nat_single_bit [of n 7] nat_single_bit [of n 6] nat_single_bit [of n 5] nat_single_bit [of n 4]
  by (simp_all add: word_unat_eq_iff unsigned_and_eq unat_lead)

lemma byte_low_bits:
  assumes "n < 256"
  shows "unat ((word_of_nat n :: byte) AND 0x7F) = n mod 128" "unat ((word_of_nat n :: byte) AND 0x0F) = n mod 16"
  using assms take_bit_eq_mask [of 7 n] take_bit_eq_mask [of 4 n]
  by (simp_all add: unsigned_and_eq unat_lead mask_eq_exp_minus_1 take_bit_eq_mod)

lemma or_above: "n < 2 ^ k \<Longrightarrow> 2 ^ k OR n = 2 ^ k + n" for n :: nat
  using nat_single_bit [of n k] disjunctive_add_eq_or [of "2 ^ k" n] by (simp add: and.commute)

text \<open>The first octet of a frame, for every FIN and RSV1; the codec itself only writes FIN frames.\<close>

definition wire_first :: "bool \<Rightarrow> bool \<Rightarrow> nat \<Rightarrow> nat" where
  "wire_first fin rsv1 op = (if fin then 128 else 0) + (if rsv1 then 64 else 0) + op"

lemma first_byte_wire:
  assumes "op < 16"
  shows "first_byte op rsv1 = wire_first True rsv1 op"
proof -
  have "(128 OR op) OR 64 = 128 OR (64 OR op)" by (simp only: or.assoc or.commute [of op])
  also have "\<dots> = 192 + op" using assms or_above [of op 6] or_above [of "64 + op" 7] by simp
  finally have "rsv1 \<Longrightarrow> ?thesis" by (simp add: first_byte_def Let_def wire_first_def)
  moreover have "\<not> rsv1 \<Longrightarrow> ?thesis" using assms or_above [of op 7] by (simp add: first_byte_def wire_first_def)
  ultimately show ?thesis by blast
qed

lemma wire_first_bits:
  assumes "op < 16" and n: "n = wire_first fin rsv1 op"
  shows "n mod 16 = op" "odd (n div 128) = fin" "odd (n div 64) = rsv1" "even (n div 32)" "even (n div 16)" "n < 256"
proof -
  have "n div 128 = of_bool fin" "n div 64 = 2 * of_bool fin + of_bool rsv1"
    "n div 32 = 2 * (2 * of_bool fin + of_bool rsv1)" "n div 16 = 2 * (4 * of_bool fin + 2 * of_bool rsv1)" "n < 256"
    unfolding n wire_first_def using assms(1) by (simp_all add: div_nat_eqI)
  then show "odd (n div 128) = fin" "odd (n div 64) = rsv1" "even (n div 32)" "even (n div 16)" "n < 256"
    by simp_all
  have "n = op + 16 * (8 * of_bool fin + 4 * of_bool rsv1)" by (simp add: n wire_first_def)
  with assms(1) show "n mod 16 = op" by (simp only: mod_mult_self2 mod_less)
qed

lemma mask_bit_or: "n < 128 \<Longrightarrow> m = 0 \<or> m = 0x80 \<Longrightarrow> m OR n = m + n" for m n :: nat
  using or_above [of n 7] by auto

lemma mask_bit_split: "n < 128 \<Longrightarrow> m = 0 \<or> m = 0x80 \<Longrightarrow>
    (m + n) mod 128 = n \<and> even ((m + n) div 128) = (m = 0) \<and> m + n < 256" for m n :: nat
  by auto

lemma parsed_header:
  assumes "op < 16" "n < 128" "m = 0 \<or> m = 0x80"
  shows "parse_frame_header (word_of_nat (wire_first fin rsv1 op)) (word_of_nat (m OR n)) =
    \<lparr>h_opcode = op, h_masked = (m \<noteq> 0), h_length = n, h_fin = fin, h_rsv1 = rsv1, h_rsv2 = False,
     h_rsv3 = False\<rparr>"
proof -
  note w = wire_first_bits [OF assms(1) refl, of fin rsv1] and s = mask_bit_split [OF assms(2,3)]
  from s have mn: "m + n < 256" by simp
  show ?thesis
    using w s by (simp add: parse_frame_header_def mask_bit_or [OF assms(2,3)] byte_single_bit [OF mn]
        byte_single_bit [OF w(6)] byte_low_bits [OF mn] byte_low_bits [OF w(6)] del: of_nat_add)
qed

lemma read_exactly_append [simp]:
  "length xs = n \<Longrightarrow> read_exactly n \<lparr>avail = xs @ ys, ended = e\<rparr> = Got xs \<lparr>avail = ys, ended = e\<rparr>"
  by (simp add: read_exactly_def)

lemma read_header_bytes:
  "read_frame_header \<lparr>avail = b0 # b1 # ys, ended = e\<rparr> = Got (parse_frame_header b0 b1) \<lparr>avail = ys, ended = e\<rparr>"
  using read_exactly_append [of "[b0, b1]" 2 ys e] by (simp add: read_frame_header_def)

text \<open>The length octet and what \<^verbatim>\<open>read_payload\<close> makes of it.\<close>

lemma encode_length_read:
  assumes "encode_length m n = Some l" "m = 0 \<or> m = 0x80"
  obtains c ext where "l = word_of_nat (m OR c) # ext" "c < 128"
    "n \<le> 125 \<Longrightarrow> c = n"
    "\<And>ys e. read_length c \<lparr>avail = ext @ ys, ended = e\<rparr> = Got n \<lparr>avail = ys, ended = e\<rparr>"
proof (cases "n < 126")
  case True
  with assms that [of n "[]"] show ?thesis by (simp add: encode_length_def read_length_def)
next
  case big: False
  show ?thesis
  proof (cases "n < 65536")
    case True
    with big assms that [of 126 "to_be 2 n"] show ?thesis
      by (auto simp: encode_length_def read_length_def)
  next
    case False
    with big assms that [of 127 "to_be 8 n"] show ?thesis
      by (auto simp: encode_length_def read_length_def split: if_splits)
  qed
qed

lemma frame_read_back:
  assumes l: "encode_length (if key = None then 0 else 0x80) (length payload) = Some l" and "op < 16"
    and "case key of None \<Rightarrow> True | Some k \<Rightarrow> length k = 4"
    and bs: "bs = word_of_nat (wire_first fin rsv1 op) # l
      @ (case key of None \<Rightarrow> payload | Some k \<Rightarrow> k @ mask_payload k payload)"
  shows "\<exists>c rest. read_frame_header \<lparr>avail = bs @ ys, ended = e\<rparr> =
      Got \<lparr>h_opcode = op, h_masked = (key \<noteq> None), h_length = c, h_fin = fin, h_rsv1 = rsv1,
           h_rsv2 = False, h_rsv3 = False\<rparr> rest
    \<and> (length payload \<le> 125 \<longrightarrow> c = length payload)
    \<and> (\<forall>cap. read_payload (key \<noteq> None) c cap rest =
      (if (case cap of None \<Rightarrow> False | Some x \<Rightarrow> length payload > x)
       then Fails (FramePayloadTooLarge (length payload) (the cap)) else Got payload \<lparr>avail = ys, ended = e\<rparr>))"
proof -
  define m :: nat where "m = (if key = None then 0 else 0x80)"
  define tail where "tail = (case key of None \<Rightarrow> payload | Some k \<Rightarrow> k @ mask_payload k payload)"
  have m: "m = 0 \<or> m = 0x80" by (simp add: m_def)
  from encode_length_read [OF l [folded m_def] m] obtain c ext where c: "l = word_of_nat (m OR c) # ext" "c < 128"
    "length payload \<le> 125 \<Longrightarrow> c = length payload"
    "\<And>ys e. read_length c \<lparr>avail = ext @ ys, ended = e\<rparr> = Got (length payload) \<lparr>avail = ys, ended = e\<rparr>"
    by metis
  have "read_frame_header \<lparr>avail = bs @ ys, ended = e\<rparr> =
      Got \<lparr>h_opcode = op, h_masked = (key \<noteq> None), h_length = c, h_fin = fin, h_rsv1 = rsv1,
           h_rsv2 = False, h_rsv3 = False\<rparr> \<lparr>avail = ext @ tail @ ys, ended = e\<rparr>"
    using parsed_header [OF assms(2) c(2) m, of fin rsv1] by (simp add: bs c(1) read_header_bytes m_def tail_def)
  moreover have "read_payload (key \<noteq> None) c cap \<lparr>avail = ext @ tail @ ys, ended = e\<rparr> =
      (if (case cap of None \<Rightarrow> False | Some x \<Rightarrow> length payload > x)
       then Fails (FramePayloadTooLarge (length payload) (the cap)) else Got payload \<lparr>avail = ys, ended = e\<rparr>)" for cap
    using assms(3)
    by (auto simp: read_payload_def c(4) tail_def unmask_is_mask mask_twice split: option.splits)
  ultimately show ?thesis using c(3) by auto
qed



end
