(* ===== verification/Ws_Recipient.thy ===== *)
theory Ws_Recipient
  imports Ws_Codec Rate_Window
begin

text \<open>
  The read side of a server's WebSocket connection: \<^verbatim>\<open>WebSocketRecipient\<close> of
  \<^verbatim>\<open>src/blackbull/server/recipient.py\<close>, built by \<^verbatim>\<open>RecipientFactory.websocket\<close> (so client frames
  must be masked and answers are not), with \<^verbatim>\<open>InboundDecompressor\<close> of \<^verbatim>\<open>permessage_deflate.py\<close>
  over \<^verbatim>\<open>zlib\<close>, which is a parameter. The transport has everything that will still arrive; a read
  that outlasts it parks the reader for good. \<^verbatim>\<open>WebSocketActor\<close> passes no dispatcher, so the only
  event of the read side, \<^verbatim>\<open>websocket_message\<close>, is a call into the actor, not modelled; whether it
  has a listener is the argument \<open>observed\<close>.
\<close>

subsection \<open>\<^verbatim>\<open>InboundDecompressor\<close>\<close>

text \<open>
  \<open>z_decompress\<close> is \<^verbatim>\<open>decompressobj.decompress\<close>: output, unconsumed tail and new state, or
  \<^verbatim>\<open>zlib.error\<close>.
\<close>

record 'z zlib =
  z_new :: 'z
  z_decompress :: "'z \<Rightarrow> bytes \<Rightarrow> nat option \<Rightarrow> (bytes \<times> bytes \<times> 'z) option"

record 'z decompressor =
  inflater :: 'z
  reset_per_message :: bool

definition DEFLATE_TAIL :: bytes where
  "DEFLATE_TAIL = [0x00, 0x00, 0xFF, 0xFF]"

datatype inflated = Inflated bytes | TooLarge nat nat | Corrupt

definition decompress ::
  "'z zlib \<Rightarrow> bytes \<Rightarrow> nat option \<Rightarrow> 'z decompressor \<Rightarrow> inflated \<times> 'z decompressor" where
  "decompress zl payload max_length d =
     (case z_decompress zl (inflater d) (payload @ DEFLATE_TAIL) (map_option Suc max_length) of
        None \<Rightarrow> (Corrupt, d)
      | Some (result, tail, z) \<Rightarrow>
          (case max_length of
             Some m \<Rightarrow>
               if length result > m \<or> tail \<noteq> []
               then (TooLarge (length result) m, d\<lparr>inflater := z_new zl\<rparr>)
               else (Inflated result, d\<lparr>inflater := (if reset_per_message d then z_new zl else z)\<rparr>)
           | None \<Rightarrow> (Inflated result, d\<lparr>inflater := (if reset_per_message d then z_new zl else z)\<rparr>)))"

subsection \<open>State\<close>

datatype ws_message = TextMessage pystr | BinaryMessage bytes

datatype ws_fault = Violation nat | OtherFault

datatype ws_item = Message ws_message | Failure ws_fault | WS_CLOSED

record 'z ws_recipient =
  ws_in :: source
  ws_out :: "bytes list"
  fails_after :: "nat option"
  asm :: assembler
  deflate :: "'z decompressor option"
  max_frame_payload :: nat
  max_message_size :: nat
  control_meter :: rate_window
  ws_queue_depth :: nat
  event_queue :: "ws_item list option"
  queue_bound :: nat
  pending :: "ws_item list"
  connect_sent :: bool
  read_finished :: bool
  terminal_code :: "nat option"
  terminal_delivered :: bool
  reading :: bool
  reader_parked :: bool
  saw_control_frame :: bool
  deferred_pending :: bool
  armed :: bool
  inbound_seq :: nat
  seq_at_last_check :: nat
  last_inbound_at :: real
  ws_probe_sent_at :: "real option"
  ws_idle_timeout :: real
  ws_pong_timeout :: real
  ws_closed :: bool

text \<open>
  \<open>fails_after\<close>: the number of writes the transport takes before it breaks. \<open>queue_bound\<close> is the
  \<^verbatim>\<open>maxsize\<close> of the queue; the list in \<open>event_queue\<close> also has the item of a \<^verbatim>\<open>put\<close> that waits.
\<close>

definition new_ws_recipient ::
  "source \<Rightarrow> nat option \<Rightarrow> 'z decompressor option \<Rightarrow> nat \<Rightarrow> nat \<Rightarrow> nat \<Rightarrow> int \<Rightarrow> real \<Rightarrow> real \<Rightarrow> real
   \<Rightarrow> 'z ws_recipient" where
  "new_ws_recipient src fails dfl depth max_frame max_msg rate win idle pong =
     \<lparr>ws_in = src, ws_out = [], fails_after = fails, asm = new_assembler max_msg, deflate = dfl,
      max_frame_payload = max_frame, max_message_size = max_msg,
      control_meter = new_rate_window rate win, ws_queue_depth = depth, event_queue = None,
      queue_bound = 0, pending = [], connect_sent = False, read_finished = False,
      terminal_code = None, terminal_delivered = False, reading = False, reader_parked = False, saw_control_frame = False,
      deferred_pending = False, armed = False, inbound_seq = 0, seq_at_last_check = 0,
      last_inbound_at = 0, ws_probe_sent_at = None, ws_idle_timeout = idle,
      ws_pong_timeout = (if pong = 0 then 30 else pong), ws_closed = False\<rparr>"

subsection \<open>Writing and emitting\<close>

text \<open>A write on a broken transport raises; the result says whether it went out.\<close>

definition write_frame :: "bytes option \<Rightarrow> 'z ws_recipient \<Rightarrow> bool \<times> 'z ws_recipient" where
  "write_frame f r =
     (case f of
        Some bs \<Rightarrow> (case fails_after r of
             Some n \<Rightarrow> if length (ws_out r) \<ge> n then (False, r) else (True, r\<lparr>ws_out := ws_out r @ [bs]\<rparr>)
           | None \<Rightarrow> (True, r\<lparr>ws_out := ws_out r @ [bs]\<rparr>))
      | None \<Rightarrow> (False, r))"

definition close_frame :: "nat \<Rightarrow> bytes option" where
  "close_frame code = encode_frame None (to_be 2 code) OP_CLOSE False"

definition ABNORMAL :: nat where "ABNORMAL = 1006"
definition GOING_AWAY :: nat where "GOING_AWAY = 1001"
definition PROTOCOL_ERROR_CODE :: nat where "PROTOCOL_ERROR_CODE = 1002"

definition emit_item :: "ws_item \<Rightarrow> 'z ws_recipient \<Rightarrow> 'z ws_recipient" where
  "emit_item item r =
     (let r = (case item of
            Failure (Violation code) \<Rightarrow> r\<lparr>terminal_code := Some code\<rparr>
          | Failure OtherFault \<Rightarrow> r\<lparr>terminal_code := Some ABNORMAL\<rparr>
          | _ \<Rightarrow> r)
      in (case event_queue r of
            Some q \<Rightarrow> r\<lparr>event_queue := Some (q @ [item])\<rparr>
          | None \<Rightarrow> r\<lparr>pending := pending r @ [item]\<rparr>))"

definition close_channel :: "nat \<Rightarrow> 'z ws_recipient \<Rightarrow> 'z ws_recipient" where
  "close_channel code r = emit_item WS_CLOSED (r\<lparr>terminal_code := Some code\<rparr>)"

subsection \<open>Close frames\<close>

definition is_valid_close_code :: "nat \<Rightarrow> bool" where
  "is_valid_close_code code \<longleftrightarrow>
     code \<notin> {1004, 1005, 1006, 1015}
     \<and> (1000 \<le> code \<and> code \<le> 1015 \<or> 3000 \<le> code \<and> code \<le> 4999)"

definition parse_close_payload :: "bytes \<Rightarrow> nat \<times> bool" where
  "parse_close_payload payload =
     (if payload = [] then (1000, True)
      else if length payload = 1 then (1002, False)
      else
        let code = from_be (take 2 payload)
        in if \<not> is_valid_close_code code then (1002, False)
           else if length payload > 2 \<and> utf8_decode (drop 2 payload) = None then (1002, False)
           else (code, True))"

subsection \<open>One frame\<close>

text \<open>
  What a step ends with: the read side goes on or is done, a read waits, an exception of the
  protocol, any other exception. A read that fails or waits leaves \<open>ws_in\<close> where the step started.
\<close>

datatype 'z step =
    Steps bool "'z ws_recipient"
  | Parks "'z ws_recipient"
  | Ends ws_exn "'z ws_recipient"
  | Breaks "'z ws_recipient"

definition CONTROL_OPS :: "nat list" where
  "CONTROL_OPS = [OP_CLOSE, OP_PING, OP_PONG]"

definition deliver_message :: "nat \<Rightarrow> bytes \<Rightarrow> 'z ws_recipient \<Rightarrow> 'z step" where
  "deliver_message op payload r =
     (if op = OP_TEXT then
        (case utf8_decode payload of
           None \<Rightarrow> Ends (ProtocolError 1007) r
         | Some text \<Rightarrow> Steps False (emit_item (Message (TextMessage text)) r))
      else Steps False (emit_item (Message (BinaryMessage payload)) r))"

definition handle_data_frame ::
  "'z zlib \<Rightarrow> nat \<Rightarrow> bytes \<Rightarrow> bool \<Rightarrow> bool \<Rightarrow> 'z ws_recipient \<Rightarrow> 'z step" where
  "handle_data_frame zl opcode payload fin rsv1 r =
     (case feed opcode payload fin rsv1 (asm r) of
        Inl (MessageTooLarge _ _) \<Rightarrow> Ends (ProtocolError 1009) r
      | Inl e \<Rightarrow> Ends e r
      | Inr (None, s) \<Rightarrow> Steps False (r\<lparr>asm := s\<rparr>)
      | Inr (Some (op, full, compressed), s) \<Rightarrow>
          let r = r\<lparr>asm := s\<rparr>
          in if compressed then
               (case deflate r of
                  None \<Rightarrow> Breaks r
                | Some d \<Rightarrow>
                    (case decompress zl full
                            (if max_message_size r = 0 then None else Some (max_message_size r)) d of
                       (TooLarge _ _, d) \<Rightarrow> Ends (ProtocolError 1009) (r\<lparr>deflate := Some d\<rparr>)
                     | (Corrupt, d) \<Rightarrow> Ends (ProtocolError 1002) (r\<lparr>deflate := Some d\<rparr>)
                     | (Inflated out, d) \<Rightarrow> deliver_message op out (r\<lparr>deflate := Some d\<rparr>)))
             else if max_message_size r \<noteq> 0 \<and> length full > max_message_size r
             then Ends (ProtocolError 1009) r
             else deliver_message op full r)"

definition handle_control_frame :: "nat \<Rightarrow> bytes \<Rightarrow> 'z ws_recipient \<Rightarrow> 'z step" where
  "handle_control_frame opcode payload r =
     (if opcode = OP_CLOSE then
        let (code, reason_ok) = parse_close_payload payload;
            echo = (if reason_ok then code else PROTOCOL_ERROR_CODE);
            r = snd (write_frame (close_frame echo) r)
        in Steps True (close_channel echo r)
      else if opcode = OP_PING then
        (case write_frame (encode_frame None payload OP_PONG False) r of
           (True, r) \<Rightarrow> Steps False r
         | (False, r) \<Rightarrow> Breaks r)
      else Steps False r)"

definition handle_unknown_opcode :: "'z ws_recipient \<Rightarrow> 'z ws_recipient" where
  "handle_unknown_opcode r =
     close_channel PROTOCOL_ERROR_CODE (snd (write_frame (close_frame PROTOCOL_ERROR_CODE) r))"

text \<open>The checks on the header, with the meter that counts control frames.\<close>

definition check_header :: "real \<Rightarrow> ws_frame_header \<Rightarrow> 'z ws_recipient \<Rightarrow> ws_exn option \<times> 'z ws_recipient" where
  "check_header now h r =
     (let control = h_opcode h \<in> set CONTROL_OPS
      in if control \<and> \<not> h_fin h then (Some (ProtocolError 1002), r)
         else if control \<and> h_length h > 125 then (Some (ProtocolError 1002), r)
         else
           let (over, m) = (if control then hit now (control_meter r) else (False, control_meter r));
               r = r\<lparr>control_meter := m\<rparr>
           in if over then (Some (ProtocolError 1008), r)
              else if h_rsv2 h \<or> h_rsv3 h then (Some (ProtocolError 1002), r)
              else if h_rsv1 h \<and> (deflate r = None \<or> control) then (Some (ProtocolError 1002), r)
              else (None, r))"

definition read_step :: "'z zlib \<Rightarrow> real \<Rightarrow> 'z ws_recipient \<Rightarrow> 'z step" where
  "read_step zl now r =
     (case read_frame_header (ws_in r) of
        Waits \<Rightarrow> Parks r
      | Fails e \<Rightarrow> Ends e r
      | Got h src \<Rightarrow>
          let r = r\<lparr>inbound_seq := Suc (inbound_seq r), ws_probe_sent_at := None\<rparr>
          in (case check_header now h r of
                (Some e, r) \<Rightarrow> Ends e r
              | (None, r) \<Rightarrow>
                  (case read_payload (h_masked h) (h_length h) (Some (max_frame_payload r)) src of
                     Waits \<Rightarrow> Parks r
                   | Fails (FramePayloadTooLarge _ _) \<Rightarrow> Ends (ProtocolError 1009) r
                   | Fails e \<Rightarrow> Ends e r
                   | Got payload src \<Rightarrow>
                       let r = r\<lparr>ws_in := src\<rparr>; op = h_opcode h
                       in if \<not> h_masked h then Ends (ProtocolError 1002) r
                          else if op \<in> {OP_TEXT, OP_BINARY, OP_CONTINUATION}
                          then handle_data_frame zl op payload (h_fin h) (h_rsv1 h) r
                          else if op \<in> set CONTROL_OPS then handle_control_frame op payload r
                          else Steps True (handle_unknown_opcode r))))"

datatype 'z drive = Parked "'z ws_recipient" | Drove bool "'z ws_recipient"

definition drive_once :: "'z zlib \<Rightarrow> real \<Rightarrow> 'z ws_recipient \<Rightarrow> 'z drive" where
  "drive_once zl now r =
     (case read_step zl now r of
        Parks r \<Rightarrow> Parked r
      | Steps d r \<Rightarrow> Drove d r
      | Ends IncompleteRead r \<Rightarrow> Drove True (close_channel ABNORMAL r)
      | Ends (ProtocolError code) r \<Rightarrow>
          Drove True (emit_item (Failure (Violation code)) (snd (write_frame (close_frame code) r)))
      | Ends _ r \<Rightarrow>
          Drove True (emit_item (Failure OtherFault) (snd (write_frame (close_frame 1011) r)))
      | Breaks r \<Rightarrow>
          Drove True (emit_item (Failure OtherFault) (snd (write_frame (close_frame 1011) r))))"

subsection \<open>Progress\<close>

lemma thenR_Got: "thenR r f = Got y s \<longleftrightarrow> (\<exists>x s'. r = Got x s' \<and> f x s' = Got y s)"
  by (cases r) auto

lemma read_exactly_shrinks:
  "read_exactly n src = Got bs rest \<Longrightarrow> length (avail rest) + n = length (avail src) \<and> length bs = n \<and> ended rest = ended src"
  by (auto simp: read_exactly_def split: if_splits)

lemma read_header_shrinks: "read_frame_header src = Got h rest \<Longrightarrow> length (avail rest) < length (avail src)"
  by (auto simp: read_frame_header_def thenR_Got dest: read_exactly_shrinks)

lemma read_length_shrinks: "read_length n src = Got len rest \<Longrightarrow> length (avail rest) \<le> length (avail src)"
  by (auto simp: read_length_def thenR_Got dest!: read_exactly_shrinks split: if_splits)

lemma read_payload_shrinks: "read_payload m n c src = Got bs rest \<Longrightarrow> length (avail rest) \<le> length (avail src)"
  by (fastforce simp: read_payload_def thenR_Got dest!: read_exactly_shrinks read_length_shrinks split: if_splits)

lemma emit_item_in [simp]: "ws_in (emit_item i r) = ws_in r"
  by (simp add: emit_item_def Let_def split: ws_item.split ws_fault.split option.split)

lemma close_channel_in [simp]: "ws_in (close_channel c r) = ws_in r"
  by (simp add: close_channel_def)

lemma write_frame_in [simp]: "ws_in (snd (write_frame f r)) = ws_in r"
  by (simp add: write_frame_def split: option.split)

lemma write_frame_shape:
  "write_frame f r = (False, r) \<or> (\<exists>bs. f = Some bs \<and> write_frame f r = (True, r\<lparr>ws_out := ws_out r @ [bs]\<rparr>))"
  by (auto simp: write_frame_def split: option.split)

fun step_state :: "'z step \<Rightarrow> 'z ws_recipient" where
  "step_state (Steps d r) = r"
| "step_state (Parks r) = r"
| "step_state (Ends e r) = r"
| "step_state (Breaks r) = r"

lemma deliver_message_in [simp]: "ws_in (step_state (deliver_message op p r)) = ws_in r"
  by (simp add: deliver_message_def split: option.split)

lemma handle_data_frame_in [simp]: "ws_in (step_state (handle_data_frame zl op p fin rsv1 r)) = ws_in r"
  by (simp add: handle_data_frame_def Let_def split: sum.split ws_exn.split option.split prod.split inflated.split)

lemma handle_control_frame_in [simp]: "ws_in (step_state (handle_control_frame op p r)) = ws_in r"
  using write_frame_shape [of "encode_frame None p OP_PONG False" r]
  by (auto simp: handle_control_frame_def Let_def split: prod.split)

lemma check_header_in [simp]: "ws_in (snd (check_header now h r)) = ws_in r"
  by (simp add: check_header_def Let_def split: prod.split)

lemma read_step_shrinks:
  assumes "read_step zl now r = Steps d r'"
  shows "length (avail (ws_in r')) < length (avail (ws_in r))"
proof (cases "read_frame_header (ws_in r)")
  case (Got h src)
  let ?r = "r\<lparr>inbound_seq := Suc (inbound_seq r), ws_probe_sent_at := None\<rparr>"
  obtain e r1 where r1: "check_header now h ?r = (e, r1)" by fastforce
  show ?thesis
  proof (cases e)
    case None
    show ?thesis
    proof (cases "read_payload (h_masked h) (h_length h) (Some (max_frame_payload r1)) src")
      case Got': (Got payload rest)
      then have "length (avail rest) < length (avail (ws_in r))"
        using read_header_shrinks [OF Got] read_payload_shrinks [OF Got'] by simp
      moreover have "ws_in (step_state (read_step zl now r)) = rest"
        by (simp add: read_step_def Let_def Got None r1 Got' handle_unknown_opcode_def)
      then have "ws_in r' = rest" by (simp add: assms)
      ultimately show ?thesis by simp
    qed (use assms Got None r1 in \<open>auto simp: read_step_def Let_def split: ws_exn.splits\<close>)
  qed (use assms Got r1 in \<open>auto simp: read_step_def Let_def\<close>)
qed (use assms in \<open>auto simp: read_step_def\<close>)

lemma drive_once_shrinks:
  assumes "drive_once zl now r = Drove False r'"
  shows "length (avail (ws_in r')) < length (avail (ws_in r))"
  using assms by (auto simp: drive_once_def split: step.splits ws_exn.splits dest: read_step_shrinks)

subsection \<open>Drivers\<close>

text \<open>
  The loop of \<^verbatim>\<open>_next_item\<close>: whether it comes back, and the state then. \<open>clock\<close> gives the time at
  which each frame is read, for the meter of control frames.
\<close>

function inline_drive :: "'z zlib \<Rightarrow> (nat \<Rightarrow> real) \<Rightarrow> 'z ws_recipient \<Rightarrow> bool \<times> 'z ws_recipient" where
  "inline_drive zl clock r =
     (if pending r = [] \<and> \<not> read_finished r then
        (case drive_once zl (clock (inbound_seq r)) r of
           Parked r \<Rightarrow> (False, r)
         | Drove d r' \<Rightarrow> inline_drive zl clock (r'\<lparr>read_finished := d\<rparr>))
      else (True, r))"
  by auto
termination
  by (relation "measure (\<lambda>(_, _, r). if read_finished r then 0 else Suc (length (avail (ws_in r))))")
    (auto dest: drive_once_shrinks)

declare inline_drive.simps [simp del]

definition start_reader :: "nat \<Rightarrow> 'z ws_recipient \<Rightarrow> 'z ws_recipient" where
  "start_reader depth r =
     r\<lparr>event_queue := Some (pending r), queue_bound := depth, pending := [], deferred_pending := False\<rparr>"

definition ensure_reader_started :: "bool \<Rightarrow> 'z ws_recipient \<Rightarrow> 'z ws_recipient" where
  "ensure_reader_started observed r =
     (if event_queue r \<noteq> None \<or> read_finished r then r
      else if ws_queue_depth r > 0 then start_reader (ws_queue_depth r) r
      else if observed then r\<lparr>deferred_pending := True\<rparr>
      else r)"

definition WS_EVENT_QUEUE_DEPTH :: nat where
  "WS_EVENT_QUEUE_DEPTH = 256"

definition start_deferred_reader :: "'z ws_recipient \<Rightarrow> 'z ws_recipient" where
  "start_deferred_reader r =
     (if \<not> deferred_pending r \<or> event_queue r \<noteq> None \<or> reading r \<or> read_finished r then r
      else start_reader (if ws_queue_depth r = 0 then WS_EVENT_QUEUE_DEPTH else ws_queue_depth r) r)"

text \<open>
  One turn of \<^verbatim>\<open>_read_loop\<close>, the reader task: it runs unless its last \<^verbatim>\<open>put\<close> waits for room, the
  read side is done, or it is parked in a read (\<open>reader_parked\<close>).
\<close>

definition reader_turn :: "'z zlib \<Rightarrow> (nat \<Rightarrow> real) \<Rightarrow> 'z ws_recipient \<Rightarrow> 'z ws_recipient" where
  "reader_turn zl clock r =
     (case event_queue r of
        None \<Rightarrow> r
      | Some q \<Rightarrow>
          if length q > queue_bound r \<or> read_finished r \<or> reader_parked r then r
          else
            (case drive_once zl (clock (inbound_seq r)) r of
               Parked r' \<Rightarrow> r'\<lparr>reader_parked := True\<rparr>
             | Drove d r' \<Rightarrow> r'\<lparr>read_finished := d\<rparr>))"

definition touch_watchdog :: "'z ws_recipient \<Rightarrow> 'z ws_recipient" where
  "touch_watchdog r = r\<lparr>armed := True\<rparr>"

definition mark_connect_sent :: "bool \<Rightarrow> 'z ws_recipient \<Rightarrow> 'z ws_recipient" where
  "mark_connect_sent observed r =
     ensure_reader_started observed (touch_watchdog (r\<lparr>connect_sent := True\<rparr>))"

datatype 'z got = Item ws_item "'z ws_recipient" | Blocked "'z ws_recipient"

definition take_next :: "'z zlib \<Rightarrow> (nat \<Rightarrow> real) \<Rightarrow> 'z ws_recipient \<Rightarrow> 'z got" where
  "take_next zl clock r =
     (if terminal_delivered r then Item WS_CLOSED r
      else
        (case event_queue r of
           Some [] \<Rightarrow> Blocked r
         | Some (i # q) \<Rightarrow> Item i (r\<lparr>event_queue := Some q\<rparr>)
         | None \<Rightarrow>
             (case inline_drive zl clock (r\<lparr>reading := True\<rparr>) of
                (False, r) \<Rightarrow> Blocked r
              | (True, r) \<Rightarrow>
                  let r = r\<lparr>reading := False\<rparr>
                  in (case pending r of
                        [] \<Rightarrow> Item WS_CLOSED (r\<lparr>terminal_delivered := True\<rparr>)
                      | i # p \<Rightarrow> Item i (r\<lparr>pending := p\<rparr>)))))"

definition begin_read :: "bool \<Rightarrow> 'z ws_recipient \<Rightarrow> 'z ws_recipient" where
  "begin_read observed r =
     ensure_reader_started observed (if deferred_pending r \<or> saw_control_frame r then touch_watchdog r else r)"

definition next_item :: "'z zlib \<Rightarrow> (nat \<Rightarrow> real) \<Rightarrow> bool \<Rightarrow> 'z ws_recipient \<Rightarrow> 'z got" where
  "next_item zl clock observed r = take_next zl clock (begin_read observed r)"

datatype received = Received ws_message | Disconnected nat | Raised ws_fault

datatype 'z reception = Returns received "'z ws_recipient" | Waiting "'z ws_recipient"

definition disconnect_code :: "'z ws_recipient \<Rightarrow> nat" where
  "disconnect_code r = (case terminal_code r of Some c \<Rightarrow> if c = 0 then ABNORMAL else c | None \<Rightarrow> ABNORMAL)"

definition hand_over :: "'z got \<Rightarrow> 'z reception" where
  "hand_over g =
     (case g of
        Blocked r \<Rightarrow> Waiting r
      | Item WS_CLOSED r \<Rightarrow> Returns (Disconnected (disconnect_code r)) (r\<lparr>terminal_delivered := True\<rparr>)
      | Item (Failure e) r \<Rightarrow> Returns (Raised e) (r\<lparr>terminal_delivered := True\<rparr>)
      | Item (Message m) r \<Rightarrow> Returns (Received m) r)"

definition next_message :: "'z zlib \<Rightarrow> (nat \<Rightarrow> real) \<Rightarrow> bool \<Rightarrow> 'z ws_recipient \<Rightarrow> 'z reception" where
  "next_message zl clock observed r =
     hand_over (next_item zl clock observed (if connect_sent r then r else mark_connect_sent observed r))"

definition await_connect :: "bool \<Rightarrow> 'z ws_recipient \<Rightarrow> nat option \<times> 'z ws_recipient" where
  "await_connect observed r =
     (if \<not> connect_sent r then (None, mark_connect_sent observed r)
      else if terminal_delivered r \<or> read_finished r then (Some (disconnect_code r), r)
      else (None, r))"

text \<open>The ASGI channel: the same with an envelope, and the \<^verbatim>\<open>websocket.connect\<close> event first.\<close>

datatype asgi_event = WsConnect | WsReceive "pystr option" "bytes option" | WsDisconnect nat

definition asgi_receive ::
  "'z zlib \<Rightarrow> (nat \<Rightarrow> real) \<Rightarrow> bool \<Rightarrow> 'z ws_recipient \<Rightarrow> (ws_fault + asgi_event) option \<times> 'z ws_recipient" where
  "asgi_receive zl clock observed r =
     (if \<not> connect_sent r then (Some (Inr WsConnect), mark_connect_sent observed r)
      else
        (case hand_over (next_item zl clock observed r) of
           Waiting r \<Rightarrow> (None, r)
         | Returns (Disconnected code) r \<Rightarrow> (Some (Inr (WsDisconnect code)), r)
         | Returns (Raised e) r \<Rightarrow> (Some (Inl e), r)
         | Returns (Received (TextMessage t)) r \<Rightarrow> (Some (Inr (WsReceive (Some t) None)), r)
         | Returns (Received (BinaryMessage b)) r \<Rightarrow> (Some (Inr (WsReceive None (Some b))), r)))"

subsection \<open>Servicing control frames\<close>

text \<open>
  \<open>buffered\<close> is the number of octets that have arrived and wait in the reader's buffer: the rest of
  \<open>avail\<close> is still under way.
\<close>

definition frame_bytes_needed :: "bytes \<Rightarrow> nat option" where
  "frame_bytes_needed buf =
     (if length buf < 2 then None
      else
        let len_code = unat (buf ! 1 AND 0x7F);
            ext = (if len_code = 126 then 2 else if len_code = 127 then 8 else 0)
        in if length buf < 2 + ext + 4 then None
           else
             let payload_len = (if ext \<noteq> 0 then from_be (drop 2 (take (2 + ext) buf)) else len_code);
                 size = 2 + ext + 4 + payload_len
             in if length buf \<ge> size then Some size else None)"

definition leads_control :: "bytes \<Rightarrow> bool" where
  "leads_control buf \<longleftrightarrow> unat (buf ! 0 AND 0x0F) \<in> set CONTROL_OPS"

function service_loop :: "'z zlib \<Rightarrow> (nat \<Rightarrow> real) \<Rightarrow> nat \<Rightarrow> 'z ws_recipient \<Rightarrow> 'z ws_recipient" where
  "service_loop zl clock buffered r =
     (let buf = take buffered (avail (ws_in r))
      in if read_finished r \<or> reading r \<or> buf = [] then r
         else if frame_bytes_needed buf = None \<or> \<not> leads_control buf then r
         else
           (case drive_once zl (clock (inbound_seq r)) r of
              Parked r' \<Rightarrow> r'
            | Drove d r' \<Rightarrow>
                service_loop zl clock (buffered - (length (avail (ws_in r)) - length (avail (ws_in r'))))
                  (r'\<lparr>read_finished := d\<rparr>)))"
  by auto
termination
  by (relation "measure (\<lambda>(_, _, _, r). if read_finished r then 0 else Suc (length (avail (ws_in r))))")
    (auto dest: drive_once_shrinks)

declare service_loop.simps [simp del]

definition service_available_control_frames ::
  "'z zlib \<Rightarrow> (nat \<Rightarrow> real) \<Rightarrow> nat \<Rightarrow> 'z ws_recipient \<Rightarrow> 'z ws_recipient" where
  "service_available_control_frames zl clock buffered r =
     (if reading r \<or> read_finished r \<or> event_queue r \<noteq> None then r else service_loop zl clock buffered r)"

definition has_control_frames_buffered :: "nat \<Rightarrow> 'z ws_recipient \<Rightarrow> bool \<times> 'z ws_recipient" where
  "has_control_frames_buffered buffered r =
     (let buf = take buffered (avail (ws_in r))
      in if length buf < 2 then (False, r)
         else if leads_control buf then (True, r\<lparr>saw_control_frame := True\<rparr>)
         else (False, r))"

definition send_touch :: "'z ws_recipient \<Rightarrow> 'z ws_recipient" where
  "send_touch r = (if deferred_pending r \<or> saw_control_frame r then touch_watchdog r else r)"

definition disarm_watchdog :: "'z ws_recipient \<Rightarrow> 'z ws_recipient" where
  "disarm_watchdog r = r\<lparr>armed := False\<rparr>"

definition shutdown_recipient :: "'z ws_recipient \<Rightarrow> 'z ws_recipient" where
  "shutdown_recipient r = disarm_watchdog (r\<lparr>ws_closed := True\<rparr>)"

subsection \<open>Liveness\<close>

text \<open>What a tick leaves to run: \<^verbatim>\<open>create_task\<close> runs it once the tick is over.\<close>

datatype ws_task = ProbePeer | EndUnresponsive | ServiceControl

definition check_liveness :: "real \<Rightarrow> 'z ws_recipient \<Rightarrow> ws_task list \<times> 'z ws_recipient" where
  "check_liveness now r =
     (if ws_idle_timeout r \<le> 0 \<or> ws_closed r \<or> read_finished r then ([], r)
      else if inbound_seq r \<noteq> seq_at_last_check r
      then ([], r\<lparr>seq_at_last_check := inbound_seq r, last_inbound_at := now\<rparr>)
      else if last_inbound_at r = 0 then ([], r\<lparr>last_inbound_at := now\<rparr>)
      else
        (case ws_probe_sent_at r of
           Some t \<Rightarrow> (if now - t \<ge> ws_pong_timeout r then [EndUnresponsive] else [], r)
         | None \<Rightarrow>
             if now - last_inbound_at r \<ge> ws_idle_timeout r
             then ([ProbePeer], r\<lparr>ws_probe_sent_at := Some now\<rparr>)
             else ([], r)))"

definition probe_peer :: "'z ws_recipient \<Rightarrow> 'z ws_recipient" where
  "probe_peer r = snd (write_frame (encode_frame None [] OP_PING False) r)"

definition end_for_unresponsive_peer :: "'z ws_recipient \<Rightarrow> 'z ws_recipient" where
  "end_for_unresponsive_peer r =
     (if ws_closed r \<or> read_finished r then r
      else close_channel GOING_AWAY (disarm_watchdog (snd (write_frame (close_frame GOING_AWAY) r))))"

definition on_idle_tick :: "real \<Rightarrow> nat \<Rightarrow> 'z ws_recipient \<Rightarrow> ws_task list \<times> 'z ws_recipient" where
  "on_idle_tick now buffered r =
     (let (tasks, r) = check_liveness now r
      in if read_finished r \<or> reading r \<or> ws_closed r then (tasks, r)
         else if event_queue r \<noteq> None then (tasks, r)
         else if deferred_pending r then (tasks, start_deferred_reader r)
         else if buffered > 0 then
           let (control, r) = has_control_frames_buffered buffered r
           in (if control then tasks @ [ServiceControl] else tasks, r)
         else (tasks, r))"

fun run_ws_task :: "'z zlib \<Rightarrow> (nat \<Rightarrow> real) \<Rightarrow> nat \<Rightarrow> ws_task \<Rightarrow> 'z ws_recipient \<Rightarrow> 'z ws_recipient" where
  "run_ws_task zl clock buffered ProbePeer r = probe_peer r"
| "run_ws_task zl clock buffered EndUnresponsive r = end_for_unresponsive_peer r"
| "run_ws_task zl clock buffered ServiceControl r = service_available_control_frames zl clock buffered r"

text \<open>The scanner fires the watchdog of a connection that was quiet for a tick, while it is armed.\<close>

definition ws_tick :: "'z zlib \<Rightarrow> (nat \<Rightarrow> real) \<Rightarrow> real \<times> nat \<Rightarrow> 'z ws_recipient \<Rightarrow> 'z ws_recipient" where
  "ws_tick zl clock t r =
     (if armed r then
        let (tasks, r) = on_idle_tick (fst t) (snd t) r in fold (run_ws_task zl clock (snd t)) tasks r
      else r)"

end
