(* ===== verification/Ws_Modes.thy ===== *)
theory Ws_Modes
  imports Ws_Recipient "HOL-Library.Sublist"
begin

text \<open>
  The two read modes of \<^verbatim>\<open>WebSocketRecipient\<close>, inline and eager, against one reference: the items
  the octets of the connection give when they are read to the end.
\<close>

subsection \<open>A step does not depend on where its items go\<close>

text \<open>Where \<^verbatim>\<open>_emit\<close> puts an item, and two recipients that differ only in that and in the mode.\<close>

definition slot :: "'z ws_recipient \<Rightarrow> ws_item list" where
  "slot r = (case event_queue r of Some q \<Rightarrow> q | None \<Rightarrow> pending r)"

definition twin :: "ws_item list \<Rightarrow> 'z ws_recipient \<Rightarrow> 'z ws_recipient \<Rightarrow> bool" where
  "twin xs r s \<longleftrightarrow>
     ws_in r = ws_in s \<and> ws_out r = ws_out s \<and> fails_after r = fails_after s \<and> asm r = asm s
     \<and> deflate r = deflate s \<and> max_frame_payload r = max_frame_payload s
     \<and> max_message_size r = max_message_size s \<and> control_meter r = control_meter s
     \<and> terminal_code r = terminal_code s \<and> inbound_seq r = inbound_seq s
     \<and> reader_parked r = reader_parked s \<and> slot r = xs @ slot s"

fun step_twin :: "ws_item list \<Rightarrow> 'z step \<Rightarrow> 'z step \<Rightarrow> bool" where
  "step_twin xs (Steps d r) (Steps d' s) = (d = d' \<and> twin xs r s)"
| "step_twin xs (Parks r) (Parks s) = twin xs r s"
| "step_twin xs (Ends e r) (Ends e' s) = (e = e' \<and> twin xs r s)"
| "step_twin xs (Breaks r) (Breaks s) = twin xs r s"
| "step_twin xs _ _ = False"

lemma slot_update [simp]:
  "slot (r\<lparr>asm := a\<rparr>) = slot r" "slot (r\<lparr>deflate := d\<rparr>) = slot r" "slot (r\<lparr>ws_in := src\<rparr>) = slot r"
  "slot (r\<lparr>inbound_seq := n\<rparr>) = slot r" "slot (r\<lparr>ws_probe_sent_at := t\<rparr>) = slot r"
  "slot (r\<lparr>control_meter := m\<rparr>) = slot r" "slot (r\<lparr>terminal_code := c\<rparr>) = slot r"
  "slot (r\<lparr>ws_out := bs\<rparr>) = slot r" "slot (r\<lparr>read_finished := b\<rparr>) = slot r"
  "slot (r\<lparr>reader_parked := b\<rparr>) = slot r" "slot (r\<lparr>reading := b\<rparr>) = slot r"
  "slot (r\<lparr>terminal_delivered := b\<rparr>) = slot r" "slot (r\<lparr>connect_sent := b\<rparr>) = slot r"
  "slot (r\<lparr>deferred_pending := b\<rparr>) = slot r" "slot (r\<lparr>armed := b\<rparr>) = slot r"
  "slot (r\<lparr>saw_control_frame := b\<rparr>) = slot r"
  by (simp_all add: slot_def split: option.split)

lemma emit_item_twin: "twin xs r s \<Longrightarrow> twin xs (emit_item i r) (emit_item i s)"
  by (auto simp: twin_def emit_item_def Let_def slot_def split: ws_item.split ws_fault.split option.split)

lemma close_channel_twin: "twin xs r s \<Longrightarrow> twin xs (close_channel c r) (close_channel c s)"
  unfolding close_channel_def by (rule emit_item_twin) (simp add: twin_def)

lemma write_frame_twin:
  assumes "twin xs r s"
  shows "fst (write_frame f r) = fst (write_frame f s) \<and> twin xs (snd (write_frame f r)) (snd (write_frame f s))"
  using assms by (auto simp: twin_def write_frame_def split: option.split)

lemmas twin_intros = emit_item_twin close_channel_twin write_frame_twin [THEN conjunct2]

lemma deliver_message_twin:
  "twin xs r s \<Longrightarrow> step_twin xs (deliver_message op p r) (deliver_message op p s)"
  by (auto simp: deliver_message_def intro!: twin_intros split: option.split)

lemma asm_twin: "twin xs r s \<Longrightarrow> twin xs (r\<lparr>asm := a\<rparr>) (s\<lparr>asm := a\<rparr>)"
  and deflate_twin: "twin xs r s \<Longrightarrow> twin xs (r\<lparr>deflate := d\<rparr>) (s\<lparr>deflate := d\<rparr>)"
  and in_twin: "twin xs r s \<Longrightarrow> twin xs (r\<lparr>ws_in := src\<rparr>) (s\<lparr>ws_in := src\<rparr>)"
  and seq_twin: "twin xs r s \<Longrightarrow> twin xs (r\<lparr>inbound_seq := n, ws_probe_sent_at := t\<rparr>)
      (s\<lparr>inbound_seq := n, ws_probe_sent_at := t\<rparr>)"
  by (simp_all add: twin_def)

lemma twin_fields:
  assumes "twin xs r s"
  shows "deflate r = deflate s" "max_frame_payload r = max_frame_payload s" "ws_in r = ws_in s"
    "max_message_size r = max_message_size s" "control_meter r = control_meter s" "asm r = asm s"
    "inbound_seq r = inbound_seq s" "terminal_code r = terminal_code s" "slot r = xs @ slot s"
    "reader_parked r = reader_parked s"
  using assms by (simp_all add: twin_def)

lemma handle_data_frame_twin:
  assumes "twin xs r s"
  shows "step_twin xs (handle_data_frame zl op p fin rsv1 r) (handle_data_frame zl op p fin rsv1 s)"
  using assms twin_fields [OF assms]
  by (auto simp: handle_data_frame_def Let_def intro!: deliver_message_twin asm_twin deflate_twin
      split: sum.split ws_exn.split option.split prod.split inflated.split)

lemma handle_control_frame_twin:
  assumes "twin xs r s"
  shows "step_twin xs (handle_control_frame op p r) (handle_control_frame op p s)"
proof -
  let ?f = "encode_frame None p OP_PONG False"
  have "step_twin xs (case write_frame ?f r of (True, r) \<Rightarrow> Steps False r | (False, r) \<Rightarrow> Breaks r)
      (case write_frame ?f s of (True, r) \<Rightarrow> Steps False r | (False, r) \<Rightarrow> Breaks r)"
    using write_frame_twin [OF assms, of ?f] by (auto split: prod.split bool.split)
  with assms show ?thesis
    by (auto simp: handle_control_frame_def Let_def intro!: twin_intros split: prod.split)
qed

lemma check_header_twin:
  assumes "twin xs r s"
  shows "fst (check_header now h r) = fst (check_header now h s)
    \<and> twin xs (snd (check_header now h r)) (snd (check_header now h s))"
  using assms by (simp add: twin_def check_header_def Let_def split: prod.split)

lemma read_step_twin:
  assumes "twin xs r s"
  shows "step_twin xs (read_step zl now r) (read_step zl now s)"
proof (cases "read_frame_header (ws_in s)")
  case (Got h src)
  let ?u = "\<lambda>r :: 'a ws_recipient. r\<lparr>inbound_seq := Suc (inbound_seq r), ws_probe_sent_at := None\<rparr>"
  obtain e r1 where r1: "check_header now h (?u r) = (e, r1)" by fastforce
  obtain e' s1 where s1: "check_header now h (?u s) = (e', s1)" by fastforce
  have "twin xs (?u r) (?u s)" using assms twin_fields(7) [OF assms] by (simp add: seq_twin)
  from check_header_twin [OF this, of now h] r1 s1 have t: "e = e'" "twin xs r1 s1" by auto
  show ?thesis
    using Got r1 s1 t(1) twin_fields [OF assms] twin_fields [OF t(2)] t(2)
    by (auto simp: read_step_def Let_def handle_unknown_opcode_def
        intro!: handle_data_frame_twin handle_control_frame_twin in_twin twin_intros
        split: option.split rd.split ws_exn.split)
qed (use assms twin_fields [OF assms] in \<open>auto simp: read_step_def\<close>)

lemma drive_once_twin:
  assumes "twin xs r s"
  shows "case (drive_once zl now r, drive_once zl now s) of
      (Parked r', Parked s') \<Rightarrow> twin xs r' s'
    | (Drove d r', Drove d' s') \<Rightarrow> d = d' \<and> twin xs r' s'
    | _ \<Rightarrow> False"
  using read_step_twin [OF assms, of zl now]
  by (auto simp: drive_once_def intro!: twin_intros split: step.split ws_exn.split)

subsection \<open>What a step emits\<close>

fun is_message :: "ws_item \<Rightarrow> bool" where
  "is_message (Message m) = True"
| "is_message _ = False"

definition same_mode :: "'z ws_recipient \<Rightarrow> 'z ws_recipient \<Rightarrow> bool" where
  "same_mode r r' \<longleftrightarrow>
     (event_queue r' = None \<longleftrightarrow> event_queue r = None) \<and> (event_queue r \<noteq> None \<longrightarrow> pending r' = pending r)
     \<and> queue_bound r' = queue_bound r \<and> ws_queue_depth r' = ws_queue_depth r
     \<and> connect_sent r' = connect_sent r \<and> terminal_delivered r' = terminal_delivered r
     \<and> reading r' = reading r \<and> reader_parked r' = reader_parked r
     \<and> deferred_pending r' = deferred_pending r \<and> read_finished r' = read_finished r
     \<and> armed r' = armed r \<and> ws_idle_timeout r' = ws_idle_timeout r \<and> ws_closed r' = ws_closed r"

definition emits :: "ws_item list \<Rightarrow> 'z ws_recipient \<Rightarrow> 'z ws_recipient \<Rightarrow> bool" where
  "emits xs r r' \<longleftrightarrow> slot r' = slot r @ xs \<and> same_mode r r'"

lemma emits_refl: "emits [] r r"
  by (simp add: emits_def same_mode_def)

lemma emits_emit: "emits xs r r' \<Longrightarrow> emits (xs @ [i]) r (emit_item i r')"
  by (auto simp: emits_def same_mode_def slot_def emit_item_def Let_def split: ws_item.split ws_fault.split option.splits)

lemma emits_close: "emits xs r r' \<Longrightarrow> emits (xs @ [WS_CLOSED]) r (close_channel c r')"
  unfolding close_channel_def by (rule emits_emit) (simp add: emits_def same_mode_def)

lemma emits_write: "emits xs r r' \<Longrightarrow> emits xs r (snd (write_frame f r'))"
  by (simp add: emits_def same_mode_def write_frame_def split: option.split)

lemma emits_update:
  "emits xs r r' \<Longrightarrow> emits xs r (r'\<lparr>asm := a\<rparr>)" "emits xs r r' \<Longrightarrow> emits xs r (r'\<lparr>deflate := d\<rparr>)"
  "emits xs r r' \<Longrightarrow> emits xs r (r'\<lparr>ws_in := src\<rparr>)" "emits xs r r' \<Longrightarrow> emits xs r (r'\<lparr>inbound_seq := n\<rparr>)"
  "emits xs r r' \<Longrightarrow> emits xs r (r'\<lparr>ws_probe_sent_at := t\<rparr>)" "emits xs r r' \<Longrightarrow> emits xs r (r'\<lparr>control_meter := m\<rparr>)"
  by (simp_all add: emits_def same_mode_def)

lemmas emits_intros = emits_emit [where xs = "[]", simplified] emits_close [where xs = "[]", simplified]
  emits_write emits_update

text \<open>A step that goes on emits at most a message, one that ends the read side one other item.\<close>

fun step_emits :: "'z ws_recipient \<Rightarrow> 'z step \<Rightarrow> bool" where
  "step_emits r (Steps False r') = (emits [] r r' \<or> (\<exists>m. emits [Message m] r r'))"
| "step_emits r (Steps True r') = emits [WS_CLOSED] r r'"
| "step_emits r (Parks r') = emits [] r r'"
| "step_emits r (Ends e r') = emits [] r r'"
| "step_emits r (Breaks r') = emits [] r r'"

lemma deliver_message_emits: "emits [] r0 r \<Longrightarrow> step_emits r0 (deliver_message op p r)"
  by (auto simp: deliver_message_def intro: emits_intros split: option.split)

lemma handle_data_frame_emits: "emits [] r0 r \<Longrightarrow> step_emits r0 (handle_data_frame zl op p fin rsv1 r)"
  by (simp add: handle_data_frame_def Let_def deliver_message_emits emits_update
      split: sum.split ws_exn.split option.split prod.split inflated.split)

lemma handle_control_frame_emits: "emits [] r0 r \<Longrightarrow> step_emits r0 (handle_control_frame op p r)"
  using emits_write [of "[]" r0 r "encode_frame None p OP_PONG False"]
  by (auto simp: handle_control_frame_def Let_def intro!: emits_intros split: prod.split bool.split)

lemma check_header_emits: "emits [] r0 r \<Longrightarrow> emits [] r0 (snd (check_header now h r))"
  by (simp add: check_header_def Let_def emits_update split: prod.split)

lemma read_step_emits: "step_emits r (read_step zl now r)"
proof (cases "read_frame_header (ws_in r)")
  case (Got h src)
  let ?r = "r\<lparr>inbound_seq := Suc (inbound_seq r), ws_probe_sent_at := None\<rparr>"
  obtain e r1 where r1: "check_header now h ?r = (e, r1)" by fastforce
  have "emits [] r ?r" by (intro emits_update emits_refl)
  from check_header_emits [OF this, of now h] r1 have "emits [] r r1" by simp
  then show ?thesis
    by (auto simp: read_step_def Let_def Got r1 handle_unknown_opcode_def
        intro!: handle_data_frame_emits handle_control_frame_emits emits_intros
        split: option.split rd.split ws_exn.split)
qed (auto simp: read_step_def emits_refl)

lemma terminal_emits:
  "emits [WS_CLOSED] r r' \<Longrightarrow> \<exists>i. \<not> is_message i \<and> emits [i] r r'"
  "emits [] r r' \<Longrightarrow> \<exists>i. \<not> is_message i \<and> emits [i] r (emit_item (Failure f) r')"
  "emits [] r r' \<Longrightarrow> \<exists>i. \<not> is_message i \<and> emits [i] r (close_channel c r')"
  by (force intro: emits_intros)+

lemma drive_once_emits:
  "case drive_once zl now r of
     Parked r' \<Rightarrow> emits [] r r'
   | Drove False r' \<Rightarrow> emits [] r r' \<or> (\<exists>m. emits [Message m] r r')
   | Drove True r' \<Rightarrow> \<exists>i. \<not> is_message i \<and> emits [i] r r'"
  using read_step_emits [of r zl now]
  by (auto simp: drive_once_def split: step.split ws_exn.split bool.splits
      intro!: terminal_emits emits_write)

subsection \<open>The reference: everything the octets give\<close>

definition bare :: "'z ws_recipient \<Rightarrow> 'z ws_recipient" where
  "bare r = r\<lparr>event_queue := None, pending := []\<rparr>"

lemma bare_simps [simp]:
  "ws_in (bare r) = ws_in r" "read_finished (bare r) = read_finished r" "inbound_seq (bare r) = inbound_seq r"
  "slot (bare r) = []" "event_queue (bare r) = None"
  by (simp_all add: bare_def slot_def)

lemma twin_bare: "twin (slot r) r (bare r)"
  by (simp add: twin_def bare_def slot_def)

lemma twin_bare2: "twin xs r s \<Longrightarrow> twin [] (bare r) (bare s)"
  by (simp add: twin_def bare_def slot_def)

text \<open>The items, the terminal code at the end, and whether the read side has then finished.\<close>

function wire :: "'z zlib \<Rightarrow> (nat \<Rightarrow> real) \<Rightarrow> 'z ws_recipient \<Rightarrow> ws_item list \<times> nat option \<times> bool" where
  "wire zl clock r =
     (if read_finished r then ([], terminal_code r, True)
      else if reader_parked r then ([], None, False)
      else
        (case drive_once zl (clock (inbound_seq r)) (bare r) of
           Parked _ \<Rightarrow> ([], None, False)
         | Drove d r' \<Rightarrow>
             let (xs, c, f) = wire zl clock (r'\<lparr>read_finished := d\<rparr>) in (slot r' @ xs, c, f)))"
  by auto
termination
  by (relation "measure (\<lambda>(_, _, r). if read_finished r then 0 else Suc (length (avail (ws_in r))))")
    (auto dest: drive_once_shrinks [of _ _ "bare r" for r, unfolded bare_simps])

declare wire.simps [simp del]

definition future :: "'z zlib \<Rightarrow> (nat \<Rightarrow> real) \<Rightarrow> 'z ws_recipient \<Rightarrow> ws_item list \<times> nat option \<times> bool" where
  "future zl clock r = (let (xs, c, f) = wire zl clock r in (slot r @ xs, c, f))"

lemma twin_finished: "twin xs r s \<Longrightarrow> twin xs (r\<lparr>read_finished := d\<rparr>) (s\<lparr>read_finished := d\<rparr>)"
  by (simp add: twin_def)

lemma twin_drove:
  assumes "twin xs r s"
  shows "drive_once zl now s = Parked s' \<Longrightarrow> \<exists>r'. drive_once zl now r = Parked r'"
    "drive_once zl now s = Drove d s' \<Longrightarrow> \<exists>r'. drive_once zl now r = Drove d r' \<and> twin xs r' s'"
  using drive_once_twin [OF assms, of zl now] by (auto split: drive.splits)

lemma wire_twin: "twin xs r s \<Longrightarrow> read_finished r = read_finished s \<Longrightarrow> wire zl clock r = wire zl clock s"
proof (induction zl clock s arbitrary: xs r rule: wire.induct)
  case (1 zl clock s)
  note f = twin_fields(7,8,10) [OF 1(2)]
  show ?case
  proof (cases "read_finished s \<or> reader_parked s")
    case False
    note t = twin_bare2 [OF 1(2)]
    show ?thesis
    proof (cases "drive_once zl (clock (inbound_seq s)) (bare s)")
      case (Parked s')
      with twin_drove(1) [OF t Parked] False 1(3) f show ?thesis
        by (auto simp: wire.simps [of zl clock r] wire.simps [of zl clock s])
    next
      case (Drove d s')
      with twin_drove(2) [OF t Drove] obtain r' where
        r': "drive_once zl (clock (inbound_seq s)) (bare r) = Drove d r'" "twin [] r' s'" by auto
      from False 1(1) [OF _ _ Drove twin_finished [OF r'(2)]] have
        "wire zl clock (r'\<lparr>read_finished := d\<rparr>) = wire zl clock (s'\<lparr>read_finished := d\<rparr>)" by simp
      with r' Drove False 1(3) f twin_fields(9) [OF r'(2)] show ?thesis
        by (simp add: wire.simps [of zl clock r] wire.simps [of zl clock s])
    qed
  qed (use 1(3) f in \<open>auto simp: wire.simps\<close>)
qed

lemma future_twin:
  "twin [] r s \<Longrightarrow> read_finished r = read_finished s \<Longrightarrow> future zl clock r = future zl clock s"
  using wire_twin [of "[]" r s zl clock] twin_fields(9) [of "[]" r s] by (simp add: future_def)

lemma future_drove:
  assumes "\<not> read_finished r" "\<not> reader_parked r" "drive_once zl (clock (inbound_seq r)) r = Drove d r'"
  shows "future zl clock (r'\<lparr>read_finished := d\<rparr>) = future zl clock r"
proof -
  from drive_once_twin [OF twin_bare [of r], of zl "clock (inbound_seq r)"] assms(3) obtain s' where
    s': "drive_once zl (clock (inbound_seq r)) (bare r) = Drove d s'" "twin (slot r) r' s'"
    by (auto split: drive.splits)
  from wire_twin [OF twin_finished [OF s'(2)]]
  have "wire zl clock (r'\<lparr>read_finished := d\<rparr>) = wire zl clock (s'\<lparr>read_finished := d\<rparr>)" by simp
  with assms(1,2) s'(1) twin_fields(9) [OF s'(2)] show ?thesis
    by (simp add: future_def wire.simps [of zl clock r] split: prod.split)
qed

lemma future_parked:
  assumes "\<not> read_finished r" "drive_once zl (clock (inbound_seq r)) r = Parked r'"
  shows "future zl clock r = (slot r, None, False)"
  using assms twin_drove [OF twin_bare [of r], of zl "clock (inbound_seq r)"]
  by (cases "drive_once zl (clock (inbound_seq r)) (bare r)")
    (auto simp: future_def wire.simps [of zl clock r])

lemma future_finished: "read_finished r \<Longrightarrow> future zl clock r = (slot r, terminal_code r, True)"
  by (simp add: future_def wire.simps)

text \<open>Until the read side is done it has only given messages; then one last item that is none.\<close>

definition ws_ok :: "'z ws_recipient \<Rightarrow> bool" where
  "ws_ok r \<longleftrightarrow>
     (if read_finished r
      then if terminal_delivered r then slot r = []
           else slot r \<noteq> [] \<and> list_all is_message (butlast (slot r)) \<and> \<not> is_message (last (slot r))
      else \<not> terminal_delivered r \<and> list_all is_message (slot r))"

lemma ws_ok_drove:
  assumes "ws_ok r" "\<not> read_finished r" "drive_once zl now r = Drove d r'"
  shows "ws_ok (r'\<lparr>read_finished := d\<rparr>)"
proof -
  obtain xs where xs: "emits xs r r'"
    "if d then \<exists>i. \<not> is_message i \<and> xs = [i] else list_all is_message xs"
    using drive_once_emits [where zl = zl and now = now and r = r] assms(3)
    by (cases d) fastforce+
  then have "slot r' = slot r @ xs" "terminal_delivered r' = terminal_delivered r"
    by (simp_all add: emits_def same_mode_def)
  with assms(1,2) xs(2) show ?thesis by (cases d) (auto simp: ws_ok_def)
qed

text \<open>Two states the application and the wire cannot tell apart, and what driving the wire keeps.\<close>

definition same_read :: "'z ws_recipient \<Rightarrow> 'z ws_recipient \<Rightarrow> bool" where
  "same_read r r' \<longleftrightarrow>
     twin [] r' r \<and> read_finished r' = read_finished r \<and> terminal_delivered r' = terminal_delivered r
     \<and> reading r' = reading r \<and> ws_idle_timeout r' = ws_idle_timeout r"

lemma same_read_keeps:
  assumes "same_read r r'"
  shows "future zl clock r' = future zl clock r" "ws_ok r' = ws_ok r" "reading r' = reading r"
    "ws_idle_timeout r' = ws_idle_timeout r" "terminal_delivered r' = terminal_delivered r"
  using assms future_twin [of r' r] twin_fields(9) [of "[]" r' r] by (simp_all add: same_read_def ws_ok_def)

lemma same_read_trans: "same_read r s \<Longrightarrow> same_read s t \<Longrightarrow> same_read r t"
  by (simp add: same_read_def twin_def)

lemma same_read_mode:
  "same_read r r" "same_read r (touch_watchdog r)" "same_read r (r\<lparr>connect_sent := b\<rparr>)"
  "same_read r (r\<lparr>deferred_pending := b\<rparr>)" "same_read r (r\<lparr>saw_control_frame := b\<rparr>)"
  "event_queue r = None \<Longrightarrow> same_read r (start_reader n r)"
  by (simp_all add: same_read_def twin_def touch_watchdog_def start_reader_def slot_def split: option.split)

lemma same_read_ensure: "same_read r (ensure_reader_started obs r)"
  by (auto simp: ensure_reader_started_def intro: same_read_mode)

lemma same_read_mark: "same_read r (mark_connect_sent obs r)"
  unfolding mark_connect_sent_def by (rule same_read_trans [OF same_read_trans [OF same_read_mode(3,2)] same_read_ensure])

lemma same_read_deferred: "same_read r (start_deferred_reader r)"
  by (auto simp: start_deferred_reader_def intro: same_read_mode)

text \<open>One read by whichever driver; \<open>drives\<close> relates the state before and after any number of them.\<close>

definition drives :: "'z zlib \<Rightarrow> (nat \<Rightarrow> real) \<Rightarrow> 'z ws_recipient \<Rightarrow> 'z ws_recipient \<Rightarrow> bool" where
  "drives zl clock r r' \<longleftrightarrow>
     future zl clock r' = future zl clock r \<and> ws_ok r' \<and> same_mode (r\<lparr>read_finished := read_finished r'\<rparr>) r'"

lemma drives_refl: "ws_ok r \<Longrightarrow> drives zl clock r r"
  by (simp add: drives_def same_mode_def)

lemma drives_trans: "drives zl clock r s \<Longrightarrow> drives zl clock s t \<Longrightarrow> drives zl clock r t"
  by (auto simp: drives_def same_mode_def)

lemma drives_once:
  assumes "ws_ok r" "\<not> read_finished r" "\<not> reader_parked r" "drive_once zl (clock (inbound_seq r)) r = Drove d r'"
  shows "drives zl clock r (r'\<lparr>read_finished := d\<rparr>)"
proof -
  have "same_mode r r'"
    using drive_once_emits [where zl = zl and now = "clock (inbound_seq r)" and r = r] assms(4)
    by (auto simp: emits_def split: bool.splits)
  then show ?thesis
    using ws_ok_drove [OF assms(1,2,4)] future_drove [where clock = clock, OF assms(2-4)]
    by (simp add: drives_def same_mode_def)
qed

lemma inline_drive_result:
  assumes "ws_ok r" "event_queue r = None" "\<not> reader_parked r"
  shows "case inline_drive zl clock r of
      (True, r') \<Rightarrow> drives zl clock r r' \<and> (pending r' \<noteq> [] \<or> read_finished r')
    | (False, r') \<Rightarrow> fst (future zl clock r) = [] \<and> \<not> snd (snd (future zl clock r))
        \<and> event_queue r' = None \<and> reading r' = reading r \<and> ws_idle_timeout r' = ws_idle_timeout r"
  using assms
proof (induction zl clock r rule: inline_drive.induct)
  case (1 zl clock r)
  show ?case
  proof (cases "pending r = [] \<and> \<not> read_finished r")
    case busy: True
    show ?thesis
    proof (cases "drive_once zl (clock (inbound_seq r)) r")
      case (Parked r')
      with drive_once_emits [where zl = zl and now = "clock (inbound_seq r)" and r = r]
      have "same_mode r r'" by (simp add: emits_def)
      with busy Parked future_parked [where clock = clock, OF _ Parked] 1(3) show ?thesis
        by (simp add: inline_drive.simps [of zl clock r] same_mode_def slot_def)
    next
      case (Drove d r')
      from busy have nf: "\<not> read_finished r" by simp
      note d = drives_once [where clock = clock, OF 1(2) nf 1(4) Drove]
      from d 1(3,4) have "ws_ok (r'\<lparr>read_finished := d\<rparr>)" "event_queue (r'\<lparr>read_finished := d\<rparr>) = None"
        "\<not> reader_parked (r'\<lparr>read_finished := d\<rparr>)" "reading r' = reading r" "ws_idle_timeout r' = ws_idle_timeout r"
        "future zl clock (r'\<lparr>read_finished := d\<rparr>) = future zl clock r"
        by (simp_all add: drives_def same_mode_def)
      with 1(1) [OF busy Drove] busy Drove d show ?thesis
        by (auto simp: inline_drive.simps [of zl clock r] split: prod.splits bool.splits intro: drives_trans)
    qed
  qed (use 1(2) in \<open>auto simp: inline_drive.simps drives_refl\<close>)
qed

subsection \<open>Servicing never blocks\<close>

lemma read_exactly_enough:
  "n \<le> length (avail src) \<Longrightarrow> read_exactly n src = Got (take n (avail src)) (src\<lparr>avail := drop n (avail src)\<rparr>)"
  by (simp add: read_exactly_def)

lemma read_length_enough:
  assumes "ext = (if n = 126 then 2 else if n = 127 then 8 else 0)" "ext \<le> length (avail src)"
  shows "read_length n src =
    Got (if ext \<noteq> 0 then from_be (take ext (avail src)) else n) (src\<lparr>avail := drop ext (avail src)\<rparr>)"
  using assms by (auto simp: read_length_def read_exactly_enough)

lemma read_payload_enough:
  assumes "ext = (if n = 126 then 2 else if n = 127 then 8 else 0)"
    "len = (if ext \<noteq> 0 then from_be (take ext (avail src)) else n)" "ext + 4 + len \<le> length (avail src)"
  shows "read_payload masked n cap src \<noteq> Waits"
  using assms(2,3) by (auto simp: read_payload_def read_length_enough [OF assms(1)] read_exactly_enough)

lemma buffered_frame_size:
  assumes "frame_bytes_needed buf = Some sz" "buf = take b av"
    and ext: "ext = (if n = 126 then 2 else if n = 127 then 8 else 0)" and n: "n = unat (av ! 1 AND 0x7F)"
  shows "2 + ext + 4 + (if ext \<noteq> 0 then from_be (take ext (drop 2 av)) else n) \<le> length av"
proof -
  define e :: nat where "e = (if unat (buf ! 1 AND 0x7F) = 126 then 2 else if unat (buf ! 1 AND 0x7F) = 127 then 8 else 0)"
  define len where "len = (if e \<noteq> 0 then from_be (drop 2 (take (2 + e) buf)) else unat (buf ! 1 AND 0x7F))"
  from assms(1) have size: "2 + e + 4 \<le> length buf" "2 + e + 4 + len \<le> length buf" "\<not> length buf < 2"
    by (auto simp: frame_bytes_needed_def Let_def e_def len_def split: if_splits)
  then have one: "buf ! 1 = av ! 1" using assms(2) by simp
  then have e: "e = ext" by (simp add: e_def ext n)
  moreover have "take (2 + e) buf = take (2 + e) av" using size(1) assms(2) by (auto simp: min_def split: if_splits)
  ultimately have "len = (if ext \<noteq> 0 then from_be (take ext (drop 2 av)) else n)"
    using one by (simp add: len_def n take_drop add.commute)
  moreover have "length buf \<le> length av" using assms(2) by simp
  ultimately show ?thesis using size(2) e by simp
qed

lemma read_step_Parks:
  assumes "read_step zl now r = Parks r'" "read_frame_header (ws_in r) = Got h src"
  shows "\<exists>cap. read_payload (h_masked h) (h_length h) cap src = Waits"
proof -
  obtain e r1 where r1: "check_header now h (r\<lparr>inbound_seq := Suc (inbound_seq r), ws_probe_sent_at := None\<rparr>) = (e, r1)"
    by fastforce
  have not_parks: "handle_data_frame zl op p fin rsv1 s \<noteq> Parks t" "handle_control_frame op p s \<noteq> Parks t" for op p fin rsv1 s t
    by (auto simp: handle_data_frame_def handle_control_frame_def deliver_message_def Let_def
        split: sum.split ws_exn.split option.split prod.split inflated.split bool.split)
  from assms r1 not_parks show ?thesis
    by (auto simp: read_step_def Let_def split: option.splits rd.splits ws_exn.splits if_splits)
qed

lemma buffered_frame_never_parks:
  assumes "frame_bytes_needed (take b (avail (ws_in r))) \<noteq> None"
  shows "drive_once zl now r \<noteq> Parked r'"
proof
  let ?av = "avail (ws_in r)" let ?n = "unat (?av ! 1 AND 0x7F)"
  define ext :: nat where "ext = (if ?n = 126 then 2 else if ?n = 127 then 8 else 0)"
  assume "drive_once zl now r = Parked r'"
  then have p: "read_step zl now r = Parks r'" by (auto simp: drive_once_def split: step.splits ws_exn.splits)
  from assms obtain sz where "frame_bytes_needed (take b ?av) = Some sz" by auto
  from buffered_frame_size [OF this refl ext_def refl]
  have size: "2 + ext + 4 + (if ext \<noteq> 0 then from_be (take ext (drop 2 ?av)) else ?n) \<le> length ?av" .
  then have h: "read_frame_header (ws_in r) =
      Got (parse_frame_header (?av ! 0) (?av ! 1)) (ws_in r\<lparr>avail := drop 2 ?av\<rparr>)"
    by (simp add: read_frame_header_def read_exactly_enough)
  let ?src = "ws_in r\<lparr>avail := drop 2 ?av\<rparr>"
  from size have "ext + 4 + (if ext \<noteq> 0 then from_be (take ext (avail ?src)) else ?n) \<le> length (avail ?src)"
    by (simp split: if_splits)
  note enough = read_payload_enough [OF ext_def refl this]
  from read_step_Parks [OF p h] obtain m cap where "read_payload m ?n cap ?src = Waits"
    by (auto simp: parse_frame_header_def)
  with enough show False by blast
qed

lemma service_loop_drives:
  "ws_ok r \<Longrightarrow> \<not> reader_parked r \<Longrightarrow> drives zl clock r (service_loop zl clock buffered r)"
proof (induction zl clock buffered r rule: service_loop.induct)
  case (1 zl clock buffered r)
  let ?buf = "take buffered (avail (ws_in r))"
  show ?case
  proof (cases "read_finished r \<or> reading r \<or> ?buf = [] \<or> frame_bytes_needed ?buf = None \<or> \<not> leads_control ?buf")
    case True
    then show ?thesis using 1(2) by (auto simp: service_loop.simps [of zl clock buffered r] Let_def drives_refl)
  next
    case False
    with buffered_frame_never_parks [of buffered r] obtain d r' where d: "drive_once zl (clock (inbound_seq r)) r = Drove d r'"
      by (cases "drive_once zl (clock (inbound_seq r)) r") auto
    from False have nf: "\<not> read_finished r" by simp
    note dr = drives_once [where clock = clock, OF 1(2) nf 1(3) d]
    then have "ws_ok (r'\<lparr>read_finished := d\<rparr>)" "\<not> reader_parked (r'\<lparr>read_finished := d\<rparr>)"
      using 1(3) by (simp_all add: drives_def same_mode_def)
    with 1(1) [OF refl _ _ d] False d dr show ?thesis
      by (auto simp: service_loop.simps [of zl clock buffered r] Let_def intro: drives_trans)
  qed
qed

subsection \<open>Schedules\<close>

text \<open>
  What can happen on a connection, in any order: the application asks for the next message, the
  reader task gets a turn, the watchdog ticks. A read that waits in the application's own task stays
  there (\<open>reading\<close>); one that waits on the queue is asked again.
\<close>

datatype ws_event = AppReads bool | ReaderTurn | Tick real nat

fun ws_run :: "'z zlib \<Rightarrow> (nat \<Rightarrow> real) \<Rightarrow> ws_event list \<Rightarrow> 'z ws_recipient \<Rightarrow> received list \<times> 'z ws_recipient" where
  "ws_run zl clock [] r = ([], r)"
| "ws_run zl clock (AppReads observed # es) r =
     (if reading r then ws_run zl clock es r
      else
        (case next_message zl clock observed r of
           Returns x r' \<Rightarrow> let (xs, r'') = ws_run zl clock es r' in (x # xs, r'')
         | Waiting r' \<Rightarrow> ws_run zl clock es r'))"
| "ws_run zl clock (ReaderTurn # es) r = ws_run zl clock es (reader_turn zl clock r)"
| "ws_run zl clock (Tick now buffered # es) r = ws_run zl clock es (ws_tick zl clock (now, buffered) r)"

definition live :: "bool \<Rightarrow> 'z ws_recipient \<Rightarrow> bool" where
  "live off r \<longleftrightarrow> ws_ok r \<and> \<not> reading r \<and> (off \<longrightarrow> ws_idle_timeout r \<le> 0) \<and> (event_queue r = None \<longrightarrow> \<not> reader_parked r)"

definition stuck :: "bool \<Rightarrow> 'z ws_recipient \<Rightarrow> bool" where
  "stuck off r \<longleftrightarrow> reading r \<and> event_queue r = None \<and> (off \<longrightarrow> ws_idle_timeout r \<le> 0)"

text \<open>What the n-th read gets, and whether there is an n-th.\<close>

fun promised :: "ws_item list \<times> nat option \<times> bool \<Rightarrow> nat \<Rightarrow> received" where
  "promised (xs, c, f) n =
     (case (if n < length xs then xs ! n else WS_CLOSED) of
        Message m \<Rightarrow> Received m
      | Failure e \<Rightarrow> Raised e
      | WS_CLOSED \<Rightarrow> Disconnected (case c of Some c \<Rightarrow> if c = 0 then ABNORMAL else c | None \<Rightarrow> ABNORMAL))"

fun available :: "ws_item list \<times> nat option \<times> bool \<Rightarrow> nat \<Rightarrow> bool" where
  "available (xs, c, f) n \<longleftrightarrow> n < length xs \<or> f"

fun later :: "ws_item list \<times> nat option \<times> bool \<Rightarrow> ws_item list \<times> nat option \<times> bool" where
  "later (xs, c, f) = (tl xs, c, f)"

lemma promised_later: "promised (later F) n = promised F (Suc n)"
  by (cases F) (auto simp: nth_tl)

lemma available_later: "available (later F) n = available F (Suc n)"
  by (cases F) auto

lemma ensure_queue: "event_queue (ensure_reader_started obs r) = None \<Longrightarrow> event_queue r = None"
  by (auto simp: ensure_reader_started_def start_reader_def split: if_splits)

lemma hand_over_item:
  assumes ok: "ws_ok r" and td: "\<not> terminal_delivered r" and "slot r = i # q" "slot r' = q"
    and same: "read_finished r' = read_finished r" "terminal_delivered r' = terminal_delivered r"
    "terminal_code r' = terminal_code r" "wire zl clock r' = wire zl clock r"
    "reading r' = reading r" "ws_idle_timeout r' = ws_idle_timeout r" "reader_parked r' = reader_parked r"
    "event_queue r' = None \<longleftrightarrow> event_queue r = None"
    and lv: "\<not> reading r" "off \<longrightarrow> ws_idle_timeout r \<le> 0" "event_queue r = None \<longrightarrow> \<not> reader_parked r"
  shows "\<exists>x r''. hand_over (Item i r') = Returns x r'' \<and> live off r'' \<and> available (future zl clock r) 0
    \<and> x = promised (future zl clock r) 0 \<and> future zl clock r'' = later (future zl clock r)"
proof -
  obtain xs c f where w: "wire zl clock r = (xs, c, f)" by (cases "wire zl clock r")
  have F: "future zl clock r = (i # q @ xs, c, f)" using assms(3) w by (simp add: future_def)
  have tdw: "wire zl clock (r'\<lparr>terminal_delivered := b\<rparr>) = (xs, c, f)" for b
    using wire_twin [of "[]" "r'\<lparr>terminal_delivered := b\<rparr>" r' zl clock] same(4) w by (simp add: twin_def)
  show ?thesis
  proof (cases "is_message i")
    case True
    then obtain m where m: "i = Message m" by (cases i) auto
    with ok td assms(3,4) same lv have "live off r'" by (auto simp: live_def ws_ok_def split: if_splits)
    with F m assms(4) same(4) w show ?thesis by (simp add: hand_over_def future_def)
  next
    case False
    with ok td assms(3) have fin: "read_finished r" "q = []"
      by (auto simp: ws_ok_def list_all_iff split: if_splits)
    then have "xs = []" "c = terminal_code r" "f" using w by (auto simp: wire.simps)
    then show ?thesis
      using F False fin assms(4) same lv tdw [of True]
      by (cases i) (auto simp: hand_over_def live_def ws_ok_def future_def disconnect_code_def)
  qed
qed

text \<open>What one call of \<^verbatim>\<open>next_message\<close> gives, in either mode.\<close>

definition read_result :: "bool \<Rightarrow> 'z zlib \<Rightarrow> (nat \<Rightarrow> real) \<Rightarrow> 'z ws_recipient \<Rightarrow> 'z reception \<Rightarrow> bool" where
  "read_result off zl clock r out =
     (case out of
        Returns x r' \<Rightarrow> live off r' \<and> available (future zl clock r) 0 \<and> x = promised (future zl clock r) 0
          \<and> future zl clock r' = later (future zl clock r)
      | Waiting r' \<Rightarrow>
          stuck off r' \<and> \<not> available (future zl clock r) 0
          \<or> live off r' \<and> future zl clock r' = future zl clock r \<and> event_queue r' = Some [] \<and> \<not> terminal_delivered r')"

lemma wire_mode [simp]:
  "wire zl clock (r\<lparr>reading := b\<rparr>) = wire zl clock r"
  "wire zl clock (r\<lparr>terminal_delivered := b\<rparr>) = wire zl clock r"
  "wire zl clock (r\<lparr>pending := xs\<rparr>) = wire zl clock r"
  "wire zl clock (r\<lparr>event_queue := q\<rparr>) = wire zl clock r"
proof -
  have t: "twin (slot (r\<lparr>reading := b\<rparr>)) (r\<lparr>reading := b\<rparr>) (bare r)"
    "twin (slot (r\<lparr>terminal_delivered := b\<rparr>)) (r\<lparr>terminal_delivered := b\<rparr>) (bare r)"
    "twin (slot (r\<lparr>pending := xs\<rparr>)) (r\<lparr>pending := xs\<rparr>) (bare r)"
    "twin (slot (r\<lparr>event_queue := q\<rparr>)) (r\<lparr>event_queue := q\<rparr>) (bare r)"
    by (simp_all add: twin_def bare_def slot_def)
  have "wire zl clock (bare r) = wire zl clock r" using wire_twin [OF twin_bare [of r]] by simp
  then show "wire zl clock (r\<lparr>reading := b\<rparr>) = wire zl clock r"
    "wire zl clock (r\<lparr>terminal_delivered := b\<rparr>) = wire zl clock r"
    "wire zl clock (r\<lparr>pending := xs\<rparr>) = wire zl clock r"
    "wire zl clock (r\<lparr>event_queue := q\<rparr>) = wire zl clock r"
    using t [THEN wire_twin] by simp_all
qed

lemma inline_read:
  assumes lv: "live off r" and "\<not> terminal_delivered r" and q: "event_queue r = None"
  shows "read_result off zl clock r (hand_over
    (case inline_drive zl clock (r\<lparr>reading := True\<rparr>) of
       (False, r) \<Rightarrow> Blocked r
     | (True, r) \<Rightarrow>
         let r = r\<lparr>reading := False\<rparr>
         in (case pending r of
               [] \<Rightarrow> Item WS_CLOSED (r\<lparr>terminal_delivered := True\<rparr>)
             | i # p \<Rightarrow> Item i (r\<lparr>pending := p\<rparr>))))"
proof -
  let ?r = "r\<lparr>reading := True\<rparr>"
  have ok: "ws_ok ?r" "event_queue ?r = None" "\<not> reader_parked ?r" "future zl clock ?r = future zl clock r"
    using assms by (auto simp: live_def ws_ok_def future_def)
  obtain b r1 where r1: "inline_drive zl clock ?r = (b, r1)" by fastforce
  note res = inline_drive_result [OF ok(1-3), of zl clock, unfolded r1 ok(4), simplified]
  show ?thesis
  proof (cases b)
    case True
    let ?s = "r1\<lparr>reading := False\<rparr>"
    from res True assms have s: "ws_ok ?s" "future zl clock ?s = future zl clock r" "pending ?s \<noteq> [] \<or> read_finished ?s"
      "event_queue ?s = None" "\<not> terminal_delivered ?s" "\<not> reading ?s" "off \<longrightarrow> ws_idle_timeout ?s \<le> 0" "\<not> reader_parked ?s"
      by (auto simp: drives_def same_mode_def ws_ok_def future_def live_def ok(4))
    from s(1,3,4,5) obtain i p where p: "pending ?s = i # p" by (cases "pending ?s") (auto simp: ws_ok_def slot_def)
    from hand_over_item [where off = off, of ?s i p "?s\<lparr>pending := p\<rparr>" zl clock] s p
    have "\<exists>x r''. hand_over (Item i (?s\<lparr>pending := p\<rparr>)) = Returns x r'' \<and> live off r'' \<and> available (future zl clock r) 0
      \<and> x = promised (future zl clock r) 0 \<and> future zl clock r'' = later (future zl clock r)"
      by (simp add: slot_def)
    with r1 True p show ?thesis by (auto simp: read_result_def)
  next
    case False
    with res r1 lv show ?thesis
      by (cases "future zl clock r") (auto simp: read_result_def hand_over_def stuck_def live_def)
  qed
qed

text \<open>What happens before an item is taken changes the mode only.\<close>

definition before_read :: "bool \<Rightarrow> 'z ws_recipient \<Rightarrow> 'z ws_recipient" where
  "before_read obs r = begin_read obs (if connect_sent r then r else mark_connect_sent obs r)"

lemma next_message_eq: "next_message zl clock obs r = hand_over (take_next zl clock (before_read obs r))"
  by (simp add: next_message_def next_item_def before_read_def)

lemma same_read_begin: "same_read r (begin_read obs r)"
  by (auto simp: begin_read_def intro: same_read_trans same_read_mode same_read_ensure)

lemma same_read_before: "same_read r (before_read obs r)"
  unfolding before_read_def by (rule same_read_trans [OF _ same_read_begin]) (simp add: same_read_mark same_read_mode)

lemma before_read_queue: "event_queue (before_read obs r) = None \<Longrightarrow> event_queue r = None"
  by (auto simp: before_read_def begin_read_def mark_connect_sent_def touch_watchdog_def dest!: ensure_queue split: if_splits)

lemma take_next_result:
  assumes lv: "live off r"
  shows "read_result off zl clock r (hand_over (take_next zl clock r))"
proof (cases "terminal_delivered r")
  case True
  with lv have "read_finished r" "slot r = []" by (auto simp: live_def ws_ok_def split: if_splits)
  with True lv show ?thesis
    by (auto simp: take_next_def hand_over_def read_result_def future_finished disconnect_code_def live_def ws_ok_def)
next
  case td: False
  show ?thesis
  proof (cases "event_queue r")
    case None
    then show ?thesis using inline_read [OF lv td None, of zl clock] td by (simp add: take_next_def Let_def)
  next
    case (Some q)
    show ?thesis
    proof (cases q)
      case Nil
      with td Some lv show ?thesis by (simp add: take_next_def hand_over_def read_result_def)
    next
      case (Cons i p)
      from hand_over_item [where off = off, of r i p "r\<lparr>event_queue := Some p\<rparr>" zl clock] td Some Cons lv
      show ?thesis by (auto simp: take_next_def read_result_def slot_def live_def)
    qed
  qed
qed

lemma next_message_result:
  assumes "live off r"
  shows "read_result off zl clock r (next_message zl clock obs r)"
proof -
  let ?r = "before_read obs r"
  note sr = same_read_before [of r obs]
  have "reader_parked ?r = reader_parked r" using sr by (simp add: same_read_def twin_def)
  then have lv: "live off ?r"
    using assms same_read_keeps(2-4) [OF sr] before_read_queue [of obs r] by (auto simp: live_def)
  show ?thesis
    using take_next_result [OF lv, of zl clock]
    unfolding next_message_eq read_result_def same_read_keeps(1) [OF sr] .
qed

subsection \<open>Turns and ticks change nothing the application sees\<close>

definition keeps :: "bool \<Rightarrow> 'z zlib \<Rightarrow> (nat \<Rightarrow> real) \<Rightarrow> 'z ws_recipient \<Rightarrow> 'z ws_recipient \<Rightarrow> bool" where
  "keeps off zl clock r r' \<longleftrightarrow> live off r' \<and> future zl clock r' = future zl clock r"

lemma keeps_drives: "live off r \<Longrightarrow> drives zl clock r r' \<Longrightarrow> keeps off zl clock r r'"
  by (simp add: keeps_def drives_def same_mode_def live_def)

lemma keeps_same_read:
  assumes "live off r" "same_read r r'" "event_queue r' = None \<Longrightarrow> event_queue r = None"
  shows "keeps off zl clock r r'"
proof -
  have "reader_parked r' = reader_parked r" using assms(2) by (simp add: same_read_def twin_def)
  with assms(1,3) same_read_keeps [OF assms(2)] show ?thesis by (auto simp: keeps_def live_def)
qed

lemma reader_turn_keeps:
  assumes "live off r"
  shows "keeps off zl clock r (reader_turn zl clock r)"
proof (cases "event_queue r")
  case (Some q)
  show ?thesis
  proof (cases "length q > queue_bound r \<or> read_finished r \<or> reader_parked r")
    case idle: False
    then have nf: "\<not> read_finished r" "\<not> reader_parked r" by auto
    show ?thesis
    proof (cases "drive_once zl (clock (inbound_seq r)) r")
      case (Parked r')
      then have "emits [] r r'"
        using drive_once_emits [where zl = zl and now = "clock (inbound_seq r)" and r = r] by simp
      then have r': "slot r' = slot r" "same_mode r r'" by (simp_all add: emits_def)
      have "future zl clock (r'\<lparr>reader_parked := True\<rparr>) = (slot r, None, False)"
        using r' nf by (simp add: future_def wire.simps same_mode_def)
      with Some idle Parked r' assms future_parked [where clock = clock, OF nf(1) Parked] show ?thesis
        by (auto simp: reader_turn_def keeps_def live_def same_mode_def ws_ok_def)
    next
      case (Drove d r')
      with Some idle drives_once [where clock = clock, OF _ nf Drove] assms show ?thesis
        by (auto simp: reader_turn_def live_def intro!: keeps_drives)
    qed
  qed (use Some assms in \<open>auto simp: reader_turn_def keeps_def\<close>)
qed (use assms in \<open>auto simp: reader_turn_def keeps_def\<close>)

lemma on_idle_tick_keeps:
  assumes "live True r" "on_idle_tick now buffered r = (tasks, r')"
  shows "keeps True zl clock r r' \<and> (tasks = [] \<or> tasks = [ServiceControl])"
proof -
  have "check_liveness now r = ([], r)" using assms(1) by (simp add: check_liveness_def live_def)
  moreover have "keeps True zl clock r r" using assms(1) by (simp add: keeps_def)
  moreover have "keeps True zl clock r (start_deferred_reader r)"
    using assms(1) same_read_deferred
    by (rule keeps_same_read) (auto simp: start_deferred_reader_def start_reader_def split: if_splits)
  moreover have "keeps True zl clock r (r\<lparr>saw_control_frame := True\<rparr>)"
    using assms(1) same_read_mode(5) by (rule keeps_same_read) simp
  ultimately show ?thesis
    using assms(2)
    by (auto simp: on_idle_tick_def has_control_frames_buffered_def Let_def split: if_splits)
qed

lemma ws_tick_keeps:
  assumes "live True r"
  shows "keeps True zl clock r (ws_tick zl clock t r)"
proof (cases "armed r")
  case True
  obtain tasks r' where r': "on_idle_tick (fst t) (snd t) r = (tasks, r')" by fastforce
  from on_idle_tick_keeps [OF assms r', of zl clock] have k: "keeps True zl clock r r'" "tasks = [] \<or> tasks = [ServiceControl]"
    by auto
  have "keeps True zl clock r' (service_available_control_frames zl clock (snd t) r')"
  proof (cases "reading r' \<or> read_finished r' \<or> event_queue r' \<noteq> None")
    case False
    with k(1) have "live True r'" "ws_ok r'" "\<not> reader_parked r'" by (auto simp: keeps_def live_def)
    with keeps_drives [OF _ service_loop_drives, of True r' zl clock "snd t"] False show ?thesis
      by (simp add: service_available_control_frames_def)
  qed (use k(1) in \<open>auto simp: service_available_control_frames_def keeps_def\<close>)
  with k True r' show ?thesis by (auto simp: ws_tick_def keeps_def)
qed (use assms in \<open>simp add: ws_tick_def keeps_def\<close>)

lemma stuck_stays:
  assumes "stuck off r"
  shows "off \<Longrightarrow> stuck off (ws_tick zl clock t r)" "reader_turn zl clock r = r"
  using assms by (auto simp: stuck_def ws_tick_def on_idle_tick_def check_liveness_def reader_turn_def)

text \<open>Ticks are allowed while the liveness probe is off.\<close>

fun allowed :: "bool \<Rightarrow> ws_event \<Rightarrow> bool" where
  "allowed off (Tick now buffered) = off"
| "allowed off _ = True"

lemma stuck_run: "stuck off r \<Longrightarrow> list_all (allowed off) es \<Longrightarrow> fst (ws_run zl clock es r) = []"
proof (induction es arbitrary: r)
  case (Cons e es)
  then show ?case using stuck_stays [OF Cons.prems(1)] by (cases e) (auto simp: stuck_def)
qed simp

subsection \<open>Every schedule delivers what was promised\<close>

lemma ws_run_promised:
  "live off r \<Longrightarrow> list_all (allowed off) es \<Longrightarrow> n < length (fst (ws_run zl clock es r)) \<Longrightarrow>
    fst (ws_run zl clock es r) ! n = promised (future zl clock r) n \<and> available (future zl clock r) n"
proof (induction es arbitrary: r n)
  case (Cons e es)
  show ?case
  proof (cases e)
    case (AppReads obs)
    note res = next_message_result [OF Cons.prems(1), of zl clock obs]
    have nr: "\<not> reading r" using Cons.prems(1) by (simp add: live_def)
    show ?thesis
    proof (cases "next_message zl clock obs r")
      case (Returns x r')
      with res have r': "live off r'" "available (future zl clock r) 0" "x = promised (future zl clock r) 0"
        "future zl clock r' = later (future zl clock r)" by (simp_all add: read_result_def)
      show ?thesis
      proof (cases n)
        case 0
        with r' AppReads Returns nr show ?thesis by (simp split: prod.split)
      next
        case (Suc k)
        with Cons.prems(3) AppReads Returns nr have "k < length (fst (ws_run zl clock es r'))"
          by (simp split: prod.splits)
        from Cons.IH [OF r'(1) _ this] Cons.prems(2) r'(4) AppReads Returns nr Suc show ?thesis
          by (auto simp: promised_later available_later split: prod.splits)
      qed
    next
      case (Waiting r')
      with Cons.prems(3) AppReads nr have n: "n < length (fst (ws_run zl clock es r'))" by simp
      then have "\<not> stuck off r'" using stuck_run [of off r' es] Cons.prems(2) by auto
      with res Waiting have "live off r'" "future zl clock r' = future zl clock r" by (auto simp: read_result_def)
      with Cons.IH [OF _ _ n] Cons.prems(2) Waiting AppReads nr show ?thesis by simp
    qed
  next
    case ReaderTurn
    with Cons.IH [of "reader_turn zl clock r" n] Cons.prems reader_turn_keeps [OF Cons.prems(1), of zl clock]
    show ?thesis by (simp add: keeps_def)
  next
    case (Tick now buffered)
    with Cons.prems have "off" by simp
    with Cons.IH [of "ws_tick zl clock (now, buffered) r" n] Cons.prems ws_tick_keeps [of r zl clock] Tick
    show ?thesis by (simp add: keeps_def)
  qed
qed simp

lemma ws_run_append:
  "ws_run zl clock (es @ fs) r =
    (let (xs, r1) = ws_run zl clock es r; (ys, r2) = ws_run zl clock fs r1 in (xs @ ys, r2))"
proof (induction es arbitrary: r)
  case (Cons e es)
  then show ?case by (cases e) (auto split: prod.splits reception.splits)
qed (simp split: prod.split)

text \<open>A reader task that has turns fills an empty queue when there is something to come.\<close>

lemma reader_fills:
  assumes "live off r" "event_queue r = Some []" "\<not> terminal_delivered r" "available (future zl clock r) 0"
  shows "\<exists>n. let r' = snd (ws_run zl clock (replicate n ReaderTurn) r)
    in live off r' \<and> future zl clock r' = future zl clock r \<and> event_queue r' \<noteq> None \<and> event_queue r' \<noteq> Some []"
  using assms
proof (induction "length (avail (ws_in r))" arbitrary: r rule: less_induct)
  case less
  have nf: "\<not> read_finished r" using less.prems(1-3) by (auto simp: live_def ws_ok_def slot_def)
  have np: "\<not> reader_parked r"
    using less.prems(2,4) nf by (auto simp: future_def wire.simps [of zl clock r] slot_def)
  obtain d r' where d: "drive_once zl (clock (inbound_seq r)) r = Drove d r'"
    using future_parked [where clock = clock, OF nf] less.prems(2,4)
    by (cases "drive_once zl (clock (inbound_seq r)) r") (auto simp: slot_def)
  let ?r = "r'\<lparr>read_finished := d\<rparr>"
  have turn: "reader_turn zl clock r = ?r" using less.prems(2) nf np d by (simp add: reader_turn_def)
  have k: "live off ?r" "future zl clock ?r = future zl clock r"
    using reader_turn_keeps [OF less.prems(1), of zl clock] turn by (simp_all add: keeps_def)
  have q: "event_queue ?r \<noteq> None" "terminal_delivered ?r = terminal_delivered r"
    using drives_once [where clock = clock, OF _ nf np d] less.prems(1,2) by (auto simp: drives_def same_mode_def live_def)
  show ?case
  proof (cases "event_queue ?r = Some []")
    case False
    with k q turn show ?thesis by (intro exI [where x = 1]) simp
  next
    case True
    then have "\<not> d" using k(1) q(2) less.prems(3) by (auto simp: live_def ws_ok_def slot_def)
    with drive_once_shrinks d have "length (avail (ws_in ?r)) < length (avail (ws_in r))" by auto
    from less.hyps [OF this k(1) True] q(2) less.prems(3,4) k(2) obtain n where
      "let r' = snd (ws_run zl clock (replicate n ReaderTurn) ?r)
       in live off r' \<and> future zl clock r' = future zl clock r \<and> event_queue r' \<noteq> None \<and> event_queue r' \<noteq> Some []" by auto
    then show ?thesis using turn by (intro exI [where x = "Suc n"]) simp
  qed
qed

lemma next_message_queued:
  assumes "event_queue r \<noteq> None" "event_queue r \<noteq> Some []"
  shows "next_message zl clock obs r \<noteq> Waiting r'"
proof -
  have e: "ensure_reader_started obs s = s" if "event_queue s \<noteq> None" for s :: "'a ws_recipient"
    using that by (simp add: ensure_reader_started_def)
  obtain i q where "event_queue r = Some (i # q)" using assms by (cases "event_queue r") (auto simp: neq_Nil_conv)
  then show ?thesis
    by (cases i) (auto simp: next_message_eq before_read_def begin_read_def take_next_def hand_over_def e
        mark_connect_sent_def touch_watchdog_def)
qed

lemma next_read:
  assumes "live off r" "available (future zl clock r) 0"
  shows "\<exists>es x r'. ws_run zl clock es r = ([x], r') \<and> live off r' \<and> future zl clock r' = later (future zl clock r)"
proof (cases "next_message zl clock False r")
  case (Returns x r')
  with next_message_result [OF assms(1), of zl clock False] assms(1) show ?thesis
    by (intro exI [where x = "[AppReads False]"]) (auto simp: read_result_def live_def)
next
  case (Waiting r1)
  with next_message_result [OF assms(1), of zl clock False] assms(2)
  have r1: "live off r1" "future zl clock r1 = future zl clock r" "event_queue r1 = Some []" "\<not> terminal_delivered r1"
    by (auto simp: read_result_def)
  from reader_fills [OF r1(1,3,4), of zl clock] r1(2) assms(2) obtain n where
    n: "let r2 = snd (ws_run zl clock (replicate n ReaderTurn) r1)
      in live off r2 \<and> future zl clock r2 = future zl clock r \<and> event_queue r2 \<noteq> None \<and> event_queue r2 \<noteq> Some []" by auto
  define r2 where "r2 = snd (ws_run zl clock (replicate n ReaderTurn) r1)"
  have "fst (ws_run zl clock (replicate n ReaderTurn) s) = []" for s by (induction n arbitrary: s) auto
  then have run: "ws_run zl clock (replicate n ReaderTurn) r1 = ([], r2)" by (simp add: r2_def prod_eq_iff)
  from n have r2: "live off r2" "future zl clock r2 = future zl clock r" "event_queue r2 \<noteq> None" "event_queue r2 \<noteq> Some []"
    by (simp_all add: r2_def Let_def)
  from next_message_result [OF r2(1), of zl clock False] obtain x r3 where
    r3: "next_message zl clock False r2 = Returns x r3" "live off r3" "future zl clock r3 = later (future zl clock r)"
    using next_message_queued [OF r2(3,4), of zl clock False] r2(2)
    by (cases "next_message zl clock False r2") (auto simp: read_result_def)
  show ?thesis
    using run r3 Waiting r2(1) assms(1)
    by (intro exI [where x = "AppReads False # replicate n ReaderTurn @ [AppReads False]"])
      (simp add: ws_run_append live_def)
qed

lemma available_mono: "available F n \<Longrightarrow> m \<le> n \<Longrightarrow> available F m"
  by (cases F) auto

lemma enough_reads:
  "live off r \<Longrightarrow> (\<forall>k<n. available (future zl clock r) k) \<Longrightarrow> \<exists>es. length (fst (ws_run zl clock es r)) = n"
proof (induction n arbitrary: r)
  case 0
  show ?case by (rule exI [where x = "[]"]) simp
next
  case (Suc n)
  from next_read [OF Suc.prems(1), of zl clock] Suc.prems(2) obtain es x r' where
    r': "ws_run zl clock es r = ([x], r')" "live off r'" "future zl clock r' = later (future zl clock r)" by blast
  with Suc.IH [OF r'(2)] Suc.prems(2) obtain fs where "length (fst (ws_run zl clock fs r')) = n"
    by (auto simp: available_later)
  with r'(1) show ?case by (intro exI [where x = "es @ fs"]) (auto simp: ws_run_append split: prod.split)
qed

lemma new_live: "off \<longrightarrow> idle \<le> 0 \<Longrightarrow> live off (new_ws_recipient src fails dfl depth mf mm rate win idle pong)"
  by (simp add: live_def ws_ok_def new_ws_recipient_def slot_def)

lemma new_future:
  "future zl clock (new_ws_recipient src fails dfl depth mf mm rate win idle pong) =
   future zl clock (new_ws_recipient src fails dfl depth' mf mm rate win idle pong)"
  by (rule future_twin) (simp_all add: twin_def new_ws_recipient_def slot_def)


text \<open>A connection that sends the text message \<^verbatim>\<open>Hi\<close> and ends.\<close>

definition demo_zlib :: "unit zlib" where
  "demo_zlib = \<lparr>z_new = (), z_decompress = \<lambda>_ _ _. None\<rparr>"

definition demo_source :: source where
  "demo_source = \<lparr>avail = [0x81, 0x82, 1, 2, 3, 4, 0x49, 0x6B], ended = True\<rparr>"

definition demo_ws :: "nat \<Rightarrow> real \<Rightarrow> unit ws_recipient" where
  "demo_ws depth idle = new_ws_recipient demo_source None None depth 1000 1000 20 1 idle 0"

lemma demo_text: "utf8_decode [72, 105] = Some (str ''Hi'')"
  by (rule utf8_decode_encode) (simp add: utf8_char_def)

lemma demo_read: "read_step zl now r = Steps False (emit_item (Message (TextMessage (str ''Hi'')))
    (r\<lparr>inbound_seq := Suc (inbound_seq r), ws_probe_sent_at := None, ws_in := \<lparr>avail = [], ended = True\<rparr>\<rparr>))"
  if "ws_in r = demo_source" "asm r = new_assembler 1000" "max_frame_payload r = 1000" "max_message_size r = 1000" for r :: "'z ws_recipient"
proof -
  have h: "read_frame_header demo_source = Got \<lparr>h_opcode = 1, h_masked = True, h_length = 2, h_fin = True, h_rsv1 = False,
      h_rsv2 = False, h_rsv3 = False\<rparr> \<lparr>avail = [1, 2, 3, 4, 0x49, 0x6B], ended = True\<rparr>"
    by (simp add: read_frame_header_def read_exactly_def demo_source_def parse_frame_header_def)
  have p: "read_payload True 2 (Some 1000) \<lparr>avail = [1, 2, 3, 4, 0x49, 0x6B], ended = True\<rparr> = Got [72, 105] \<lparr>avail = [], ended = True\<rparr>"
    by (simp add: read_payload_def read_length_def read_exactly_def unmask_is_mask mask_payload_def)
  show ?thesis
    using that by (simp add: read_step_def h p check_header_def CONTROL_OPS_def opcode_defs handle_data_frame_def feed_def
      new_assembler_def deliver_message_def demo_text del: str_Cons)
qed

lemma demo_end: "read_step zl now r = Ends IncompleteRead r" if "ws_in r = \<lparr>avail = [], ended = True\<rparr>" for r :: "'z ws_recipient"
  using that by (simp add: read_step_def read_frame_header_def read_exactly_def)

lemma demo_inline:
  "fst (ws_run demo_zlib (\<lambda>_. 5) [AppReads False, AppReads False] (demo_ws 0 0)) =
     [Received (TextMessage (str ''Hi'')), Disconnected 1006]"
  by (simp add: demo_ws_def new_ws_recipient_def next_message_def next_item_def begin_read_def take_next_def mark_connect_sent_def ensure_reader_started_def
    touch_watchdog_def inline_drive.simps drive_once_def demo_read demo_end emit_item_def close_channel_def hand_over_def
    disconnect_code_def ABNORMAL_def del: str_Cons)


end
