(* ===== verification/Ws_Ends.thy ===== *)
theory Ws_Ends
  imports Ws_Modes
begin

text \<open>
  How a WebSocket connection ends and what it can be made to hold: the shape of what is delivered,
  the bounds on messages and on the assembler's buffer, that reads on a transport that ends always
  return, and the liveness probe, which closes the connection but leaves an inline reader parked.
\<close>

subsection \<open>The shape of a connection\<close>

lemma drive_once_one:
  assumes "drive_once zl now r = Drove d r'"
  shows "\<exists>xs. emits xs r r' \<and> length xs \<le> 1 \<and> (d \<longrightarrow> length xs = 1)"
proof -
  consider "emits [] r r'" "\<not> d" | m where "emits [Message m] r r'" "\<not> d" | i where "emits [i] r r'" "d"
    using drive_once_emits [where zl = zl and now = now and r = r] assms by (auto split: bool.splits)
  then show ?thesis by cases fastforce+
qed

text \<open>
  Until the read side ends only messages come, and at most one for each octet that arrived; at the
  end there is one item that is none.
\<close>

lemma future_shape:
  assumes "ws_ok r" "\<not> terminal_delivered r" "future zl clock r = (xs, c, f)"
  shows "(if f then xs \<noteq> [] \<and> list_all is_message (butlast xs) \<and> \<not> is_message (last xs) else list_all is_message xs)
    \<and> (\<not> read_finished r \<longrightarrow> length xs \<le> length (slot r) + length (avail (ws_in r)) + 1)"
  using assms
proof (induction "length (avail (ws_in r))" arbitrary: r rule: less_induct)
  case less
  show ?case
  proof (cases "read_finished r \<or> reader_parked r")
    case True
    with less.prems show ?thesis by (auto simp: future_def wire.simps [of zl clock r] ws_ok_def split: if_splits)
  next
    case False
    then have nf: "\<not> read_finished r" "\<not> reader_parked r" by auto
    show ?thesis
    proof (cases "drive_once zl (clock (inbound_seq r)) r")
      case (Parked r')
      with less.prems future_parked [where clock = clock, OF nf(1) Parked] nf show ?thesis by (auto simp: ws_ok_def)
    next
      case (Drove d r')
      let ?r = "r'\<lparr>read_finished := d\<rparr>"
      have ok: "ws_ok ?r" "future zl clock ?r = (xs, c, f)" "terminal_delivered ?r = terminal_delivered r"
        using drives_once [where clock = clock, OF less.prems(1) nf Drove] less.prems(3)
        by (simp_all add: drives_def same_mode_def)
      from drive_once_one [OF Drove] obtain zs where "emits zs r r'" "length zs \<le> 1" by blast
      then have len: "length (slot ?r) \<le> length (slot r) + 1" by (simp add: emits_def)
      show ?thesis
      proof (cases d)
        case True
        then have "xs = slot ?r" "f" using ok(2) future_finished [of ?r zl clock] by auto
        with ok(1,3) True less.prems(2) len show ?thesis by (auto simp: ws_ok_def)
      next
        case False
        with drive_once_shrinks Drove have sh: "length (avail (ws_in ?r)) < length (avail (ws_in r))" by auto
        from less.hyps [OF sh ok(1) _ ok(2)] ok(3) less.prems(2) len sh False show ?thesis by auto
      qed
    qed
  qed
qed

subsection \<open>A transport that ends\<close>

lemma read_exactly_ended:
  "ended src \<Longrightarrow> read_exactly n src \<noteq> Waits" "read_exactly n src = Got bs rest \<Longrightarrow> ended rest = ended src"
  by (auto simp: read_exactly_def split: if_splits)

lemma thenR_Waits: "thenR r f = Waits \<longleftrightarrow> r = Waits \<or> (\<exists>x s. r = Got x s \<and> f x s = Waits)"
  by (cases r) auto

lemma read_frame_ended:
  "read_frame_header src = Got h rest \<Longrightarrow> ended rest = ended src" "ended src \<Longrightarrow> read_frame_header src \<noteq> Waits"
  "read_payload m n c src = Got p rest \<Longrightarrow> ended rest = ended src" "ended src \<Longrightarrow> read_payload m n c src \<noteq> Waits"
  by (auto simp: read_frame_header_def read_payload_def read_length_def thenR_Got thenR_Waits read_exactly_ended
      split: if_splits)

lemma read_step_ended:
  assumes "ended (ws_in r)"
  shows "read_step zl now r \<noteq> Parks r' \<and> ended (ws_in (step_state (read_step zl now r)))"
proof (cases "read_frame_header (ws_in r)")
  case (Got h src)
  let ?r = "r\<lparr>inbound_seq := Suc (inbound_seq r), ws_probe_sent_at := None\<rparr>"
  obtain x r1 where r1: "check_header now h ?r = (x, r1)" by fastforce
  then have in1: "ws_in r1 = ws_in r" using check_header_in [of now h ?r] by simp
  have src: "ended src" using read_frame_ended(1) [OF Got] assms by simp
  have "read_step zl now r \<noteq> Parks r'"
    using read_step_Parks [OF _ Got] read_frame_ended(4) [OF src] by blast
  moreover have "ended (ws_in (step_state (read_step zl now r)))"
    using assms in1 src
    by (auto simp: read_step_def Let_def Got r1 handle_unknown_opcode_def read_frame_ended(3)
        split: option.split rd.split ws_exn.split)
  ultimately show ?thesis by simp
qed (use assms read_frame_ended(2) [OF assms] in \<open>auto simp: read_step_def\<close>)

lemma drive_once_ended:
  assumes "ended (ws_in r)"
  shows "drive_once zl now r \<noteq> Parked r'" "drive_once zl now r = Drove d r' \<Longrightarrow> ended (ws_in r')"
proof -
  show "drive_once zl now r \<noteq> Parked r'"
    using read_step_ended [OF assms, of zl now r'] by (auto simp: drive_once_def split: step.splits ws_exn.splits)
  show "drive_once zl now r = Drove d r' \<Longrightarrow> ended (ws_in r')"
    using read_step_ended [OF assms, of zl now]
    by (auto simp: drive_once_def split: step.splits ws_exn.splits)
qed

lemma future_ended:
  assumes "ws_ok r" "ended (ws_in r)" "\<not> reader_parked r"
  shows "snd (snd (future zl clock r))"
  using assms
proof (induction "length (avail (ws_in r))" arbitrary: r rule: less_induct)
  case less
  show ?case
  proof (cases "read_finished r")
    case nf: False
    obtain d r' where d: "drive_once zl (clock (inbound_seq r)) r = Drove d r'"
      using drive_once_ended(1) [OF less.prems(2)] by (cases "drive_once zl (clock (inbound_seq r)) r") auto
    let ?r = "r'\<lparr>read_finished := d\<rparr>"
    have k: "ws_ok ?r" "future zl clock ?r = future zl clock r" "\<not> reader_parked ?r" "ended (ws_in ?r)"
      using drives_once [where clock = clock, OF less.prems(1) nf less.prems(3) d] less.prems(3) drive_once_ended(2) [OF less.prems(2) d]
      by (simp_all add: drives_def same_mode_def)
    show ?thesis
    proof (cases d)
      case False
      with drive_once_shrinks d have "length (avail (ws_in ?r)) < length (avail (ws_in r))" by auto
      from less.hyps [OF this k(1,4,3)] k(2) show ?thesis by simp
    qed (use k(2) future_finished [of ?r zl clock] in auto)
  qed (simp add: future_finished)
qed

definition inline :: "'z ws_recipient \<Rightarrow> bool" where
  "inline r \<longleftrightarrow> event_queue r = None \<and> ws_queue_depth r = 0"

lemma inline_mode:
  "inline r \<Longrightarrow> inline (ensure_reader_started obs r)" "inline r \<Longrightarrow> inline (touch_watchdog r)"
  "inline r \<Longrightarrow> inline (r\<lparr>connect_sent := b\<rparr>)"
  by (auto simp: inline_def ensure_reader_started_def touch_watchdog_def)

lemma inline_drive_inline: "inline r \<Longrightarrow> inline (snd (inline_drive zl clock r))"
proof (induction zl clock r rule: inline_drive.induct)
  case (1 zl clock r)
  show ?case
  proof (cases "pending r = [] \<and> \<not> read_finished r")
    case True
    have "case drive_once zl (clock (inbound_seq r)) r of Parked r' \<Rightarrow> inline r' | Drove d r' \<Rightarrow> inline r'"
      using drive_once_emits [where zl = zl and now = "clock (inbound_seq r)" and r = r] 1(2)
      by (auto simp: emits_def same_mode_def inline_def split: drive.splits bool.splits)
    with True 1(1) [OF True] show ?thesis
      by (auto simp: inline_drive.simps [of zl clock r] inline_def split: drive.splits)
  qed (use 1(2) in \<open>auto simp: inline_drive.simps [of zl clock r]\<close>)
qed

lemma before_read_inline: "inline r \<Longrightarrow> inline (before_read obs r)"
  by (simp add: before_read_def begin_read_def mark_connect_sent_def inline_mode)

lemma next_message_inline:
  assumes "inline r"
  shows "case next_message zl clock obs r of Returns x r' \<Rightarrow> inline r' | Waiting r' \<Rightarrow> inline r'"
proof -
  have r1: "inline (before_read obs r)" using assms by (rule before_read_inline)
  obtain b r2 where d: "inline_drive zl clock (before_read obs r\<lparr>reading := True\<rparr>) = (b, r2)" by fastforce
  have "inline r2" using inline_drive_inline [of "before_read obs r\<lparr>reading := True\<rparr>" zl clock] r1 d by (simp add: inline_def)
  with r1 d show ?thesis
    by (auto simp: next_message_eq take_next_def Let_def hand_over_def inline_def
        split: option.split list.split ws_item.split bool.split)
qed

lemma reads_all:
  "live False r \<Longrightarrow> inline r \<Longrightarrow> snd (snd (future zl clock r)) \<Longrightarrow>
    length (fst (ws_run zl clock (replicate n (AppReads obs)) r)) = n"
proof (induction n arbitrary: r)
  case (Suc n)
  note res = next_message_result [OF Suc.prems(1), of zl clock obs] and inl = next_message_inline [OF Suc.prems(2), of zl clock obs]
  have nr: "\<not> reading r" using Suc.prems(1) by (simp add: live_def)
  obtain xs c where F: "future zl clock r = (xs, c, True)" using Suc.prems(3) by (cases "future zl clock r") auto
  show ?case
  proof (cases "next_message zl clock obs r")
    case (Returns x r')
    with res inl F Suc.IH [of r'] nr show ?thesis by (auto simp: read_result_def split: prod.splits)
  next
    case (Waiting r')
    with res inl F show ?thesis by (auto simp: read_result_def inline_def)
  qed
qed simp

text \<open>
  C11. No read hangs on a transport that ends. Whatever octets arrive before the end, an inline
  recipient answers every call of \<^verbatim>\<open>next_message\<close>: first with messages, at most one per octet; then
  once with the failure or the close; and from then on, for ever, with the same disconnect code.
\<close>

theorem ws_reads_return:
  assumes "ended src"
    and "xs = fst (ws_run zl clock (replicate n (AppReads obs)) (new_ws_recipient src fails dfl 0 mf mm rate win idle pong))"
  shows "length xs = n
    \<and> (\<exists>k \<le> length (avail src). \<exists>c. (\<forall>i<n. (\<exists>m. xs ! i = Received m) \<longleftrightarrow> i < k)
          \<and> (\<forall>i<n. k < i \<longrightarrow> xs ! i = Disconnected c))"
proof -
  let ?r = "new_ws_recipient src fails dfl 0 mf mm rate win idle pong"
  have lv: "live False ?r" by (rule new_live) simp
  have r: "inline ?r" "\<not> terminal_delivered ?r" "\<not> read_finished ?r" "slot ?r = []" "ws_in ?r = src" "\<not> reader_parked ?r"
    by (simp_all add: inline_def new_ws_recipient_def slot_def)
  have ok: "ws_ok ?r" using lv by (simp add: live_def)
  from future_ended [OF ok, of zl clock] assms(1) r obtain ys c where F: "future zl clock ?r = (ys, c, True)"
    by (cases "future zl clock ?r") auto
  from future_shape [OF ok r(2) F] r have ys: "ys \<noteq> []" "list_all is_message (butlast ys)" "\<not> is_message (last ys)"
    "length ys \<le> length (avail src) + 1" by simp_all
  have len: "length xs = n" using reads_all [OF lv r(1)] F assms(2) by simp
  have xs: "xs ! i = promised (ys, c, True) i" if "i < n" for i
    using ws_run_promised [OF lv, of "replicate n (AppReads obs)" i zl clock] F that len assms(2)
    by (simp add: list_all_iff)
  have msg: "is_message (ys ! i)" if "i < length ys - 1" for i
    using ys(2) that by (auto simp: list_all_length nth_butlast)
  have "(\<exists>m. xs ! i = Received m) \<longleftrightarrow> i < length ys - 1" if "i < n" for i
  proof (cases "i < length ys - 1")
    case True
    with msg [OF True] xs [OF that] show ?thesis by (cases "ys ! i") auto
  next
    case False
    with ys(1,3) xs [OF that] show ?thesis
      by (cases "i = length ys - 1"; cases "last ys") (auto simp: last_conv_nth)
  qed
  moreover have "xs ! i = promised ([], c, True) 0" if "i < n" "length ys - 1 < i" for i
    using xs [OF that(1)] that(2) ys(1) by (cases ys) auto
  moreover obtain c' where "promised ([], c, True) 0 = Disconnected c'" by simp
  moreover have "length ys - 1 \<le> length (avail src)" using ys(4) by simp
  ultimately show ?thesis using len by metis
qed

theorem ws_reads_return_witness:
  "length (fst (ws_run demo_zlib (\<lambda>_. 5) (replicate 7 (AppReads False)) (demo_ws 0 300))) = 7"
proof -
  have "ended demo_source" by (simp add: demo_source_def)
  from ws_reads_return [OF this refl, of demo_zlib "\<lambda>_. 5" 7 False None None 1000 1000 20 1 300 0]
  show ?thesis by (simp only: demo_ws_def)
qed

subsection \<open>Bounds\<close>

fun within_cap :: "nat \<Rightarrow> ws_message \<Rightarrow> bool" where
  "within_cap cap (BinaryMessage b) \<longleftrightarrow> cap = 0 \<or> length b \<le> cap"
| "within_cap cap (TextMessage t) \<longleftrightarrow> (case utf8_encode t of Some bs \<Rightarrow> cap = 0 \<or> length bs \<le> cap | None \<Rightarrow> False)"

fun item_within :: "nat \<Rightarrow> ws_item \<Rightarrow> bool" where
  "item_within cap (Message m) = within_cap cap m"
| "item_within cap _ = True"

definition bounded :: "nat \<Rightarrow> 'z ws_recipient \<Rightarrow> bool" where
  "bounded cap r \<longleftrightarrow>
     max_message_size r = cap \<and> max_total (asm r) = cap \<and> (cap = 0 \<or> length (a_buf (asm r)) \<le> cap)
     \<and> list_all (item_within cap) (pending r)
     \<and> (case event_queue r of None \<Rightarrow> True | Some q \<Rightarrow> list_all (item_within cap) q)"

lemma bounded_emit: "bounded cap r \<Longrightarrow> item_within cap i \<Longrightarrow> bounded cap (emit_item i r)"
  by (auto simp: bounded_def emit_item_def Let_def split: ws_item.split ws_fault.split option.splits)

lemma bounded_update:
  "bounded cap (r\<lparr>deflate := d\<rparr>) = bounded cap r" "bounded cap (r\<lparr>ws_in := src\<rparr>) = bounded cap r"
  "bounded cap (r\<lparr>inbound_seq := n\<rparr>) = bounded cap r" "bounded cap (r\<lparr>ws_probe_sent_at := t\<rparr>) = bounded cap r"
  "bounded cap (r\<lparr>control_meter := m\<rparr>) = bounded cap r" "bounded cap (r\<lparr>terminal_code := c\<rparr>) = bounded cap r"
  "bounded cap (r\<lparr>ws_out := bs\<rparr>) = bounded cap r" "bounded cap (r\<lparr>read_finished := b\<rparr>) = bounded cap r"
  "bounded cap (r\<lparr>reader_parked := b\<rparr>) = bounded cap r" "bounded cap (r\<lparr>reading := b\<rparr>) = bounded cap r"
  "bounded cap (r\<lparr>terminal_delivered := b\<rparr>) = bounded cap r" "bounded cap (r\<lparr>connect_sent := b\<rparr>) = bounded cap r"
  "bounded cap (r\<lparr>deferred_pending := b\<rparr>) = bounded cap r" "bounded cap (r\<lparr>armed := b\<rparr>) = bounded cap r"
  "bounded cap (r\<lparr>saw_control_frame := b\<rparr>) = bounded cap r" "bounded cap (r\<lparr>seq_at_last_check := n\<rparr>) = bounded cap r"
  "bounded cap (r\<lparr>last_inbound_at := x\<rparr>) = bounded cap r"
  by (simp_all add: bounded_def split: option.split)

lemma bounded_close: "bounded cap r \<Longrightarrow> bounded cap (close_channel c r)"
  by (simp add: close_channel_def bounded_emit bounded_update)

lemma bounded_write: "bounded cap r \<Longrightarrow> bounded cap (snd (write_frame f r))"
  by (simp add: write_frame_def bounded_update split: option.split)

lemma bounded_deliver:
  assumes "bounded cap r" "cap = 0 \<or> length p \<le> cap"
  shows "bounded cap (step_state (deliver_message op p r))"
  using assms by (auto simp: deliver_message_def bounded_emit utf8_encode_decode split: option.split)

lemma feed_bounded:
  assumes "feed op p fin rsv1 s = Inr (x, s')" "max_total s = cap" "cap = 0 \<or> length (a_buf s) \<le> cap"
  shows "max_total s' = cap \<and> (cap = 0 \<or> length (a_buf s') \<le> cap)"
  using assms by (auto simp: feed_def new_assembler_def Let_def split: if_splits option.splits)

lemma bounded_data:
  assumes "bounded cap r"
  shows "bounded cap (step_state (handle_data_frame zl op p fin rsv1 r))"
proof (cases "feed op p fin rsv1 (asm r)")
  case (Inl e)
  with assms show ?thesis by (cases e) (simp_all add: handle_data_frame_def)
next
  case (Inr y)
  obtain x s where y: "y = (x, s)" by fastforce
  let ?r = "r\<lparr>asm := s\<rparr>"
  have b: "bounded cap ?r"
    using feed_bounded [OF Inr [unfolded y], of cap] assms by (auto simp: bounded_def split: option.splits)
  have cap: "max_message_size r = cap" using assms by (simp add: bounded_def)
  have "bounded cap (step_state (case decompress zl full (if cap = 0 then None else Some cap) d of
      (TooLarge _ _, d) \<Rightarrow> Ends (ProtocolError 1009) (?r\<lparr>deflate := Some d\<rparr>)
    | (Corrupt, d) \<Rightarrow> Ends (ProtocolError 1002) (?r\<lparr>deflate := Some d\<rparr>)
    | (Inflated out, d) \<Rightarrow> deliver_message op' out (?r\<lparr>deflate := Some d\<rparr>)))" for full d op'
    using b by (auto simp: decompress_def bounded_update bounded_deliver split: option.split prod.split)
  with b cap Inr y show ?thesis
    by (auto simp: handle_data_frame_def Let_def bounded_deliver split: option.split)
qed

lemma bounded_control: "bounded cap r \<Longrightarrow> bounded cap (step_state (handle_control_frame op p r))"
  using bounded_write [of cap r "encode_frame None p OP_PONG False"]
  by (auto simp: handle_control_frame_def Let_def intro!: bounded_close bounded_write split: prod.split bool.split)

lemma bounded_check: "bounded cap r \<Longrightarrow> bounded cap (snd (check_header now h r))"
  by (simp add: check_header_def Let_def bounded_update split: prod.split)

lemma bounded_read_step:
  assumes "bounded cap r"
  shows "bounded cap (step_state (read_step zl now r))"
proof (cases "read_frame_header (ws_in r)")
  case (Got h src)
  let ?r = "r\<lparr>inbound_seq := Suc (inbound_seq r), ws_probe_sent_at := None\<rparr>"
  obtain x r1 where r1: "check_header now h ?r = (x, r1)" by fastforce
  have "bounded cap r1" using bounded_check [of cap ?r now h] assms r1 by (simp add: bounded_update)
  then show ?thesis
    by (auto simp: read_step_def Let_def Got r1 handle_unknown_opcode_def bounded_update bounded_data bounded_control
        intro!: bounded_close bounded_write split: option.split rd.split ws_exn.split)
qed (use assms in \<open>auto simp: read_step_def\<close>)

lemma bounded_drive:
  assumes "bounded cap r"
  shows "case drive_once zl now r of Parked r' \<Rightarrow> bounded cap r' | Drove d r' \<Rightarrow> bounded cap r'"
  using bounded_read_step [OF assms, of zl now]
  by (auto simp: drive_once_def intro!: bounded_emit bounded_close bounded_write split: step.split ws_exn.split)

lemma bounded_mode:
  "bounded cap r \<Longrightarrow> bounded cap (start_reader n r)" "bounded cap r \<Longrightarrow> bounded cap (touch_watchdog r)"
  "bounded cap r \<Longrightarrow> bounded cap (disarm_watchdog r)" "bounded cap r \<Longrightarrow> bounded cap (start_deferred_reader r)"
  "bounded cap r \<Longrightarrow> bounded cap (ensure_reader_started obs r)"
  by (auto simp: start_reader_def touch_watchdog_def disarm_watchdog_def start_deferred_reader_def
      ensure_reader_started_def bounded_def split: option.splits)

lemma bounded_mark: "bounded cap r \<Longrightarrow> bounded cap (mark_connect_sent obs r)"
  by (simp add: mark_connect_sent_def bounded_mode bounded_update)

lemma bounded_inline_drive: "bounded cap r \<Longrightarrow> bounded cap (snd (inline_drive zl clock r))"
proof (induction zl clock r rule: inline_drive.induct)
  case (1 zl clock r)
  with bounded_drive [OF 1(2), of zl "clock (inbound_seq r)"] show ?case
    by (auto simp: inline_drive.simps [of zl clock r] bounded_update split: drive.split)
qed

lemma bounded_service_loop: "bounded cap r \<Longrightarrow> bounded cap (service_loop zl clock buffered r)"
proof (induction zl clock buffered r rule: service_loop.induct)
  case (1 zl clock buffered r)
  with bounded_drive [OF 1(2), of zl "clock (inbound_seq r)"] show ?case
    by (auto simp: service_loop.simps [of zl clock buffered r] Let_def bounded_update split: drive.split)
qed

lemma bounded_reader_turn: "bounded cap r \<Longrightarrow> bounded cap (reader_turn zl clock r)"
  using bounded_drive [of cap r zl "clock (inbound_seq r)"]
  by (auto simp: reader_turn_def bounded_update split: option.split drive.split)

lemma bounded_task: "bounded cap r \<Longrightarrow> bounded cap (run_ws_task zl clock b t r)"
  by (cases t) (simp_all add: probe_peer_def end_for_unresponsive_peer_def service_available_control_frames_def
      bounded_write bounded_close bounded_mode bounded_service_loop)

lemma bounded_tick:
  assumes "bounded cap r"
  shows "bounded cap (ws_tick zl clock t r)"
proof -
  have f: "bounded cap s \<Longrightarrow> bounded cap (fold (run_ws_task zl clock b) ts s)" for ts b s
    by (induction ts arbitrary: s) (simp_all add: bounded_task)
  obtain ts r1 where l: "check_liveness (fst t) r = (ts, r1)" by fastforce
  then have "bounded cap r1" using assms by (auto simp: check_liveness_def bounded_update split: if_splits option.splits)
  then have "bounded cap (snd (on_idle_tick (fst t) (snd t) r))"
    by (auto simp: on_idle_tick_def l has_control_frames_buffered_def Let_def bounded_mode bounded_update)
  then show ?thesis using assms by (auto simp: ws_tick_def f split: prod.split)
qed

fun reception_within :: "nat \<Rightarrow> 'z reception \<Rightarrow> bool" where
  "reception_within cap (Returns (Received m) r) \<longleftrightarrow> within_cap cap m \<and> bounded cap r"
| "reception_within cap (Returns _ r) \<longleftrightarrow> bounded cap r"
| "reception_within cap (Waiting r) \<longleftrightarrow> bounded cap r"

lemma bounded_before_read: "bounded cap r \<Longrightarrow> bounded cap (before_read obs r)"
  by (simp add: before_read_def begin_read_def bounded_mark bounded_mode)

lemma hand_over_within: "bounded cap r \<Longrightarrow> item_within cap i \<Longrightarrow> reception_within cap (hand_over (Item i r))"
  by (cases i) (simp_all add: hand_over_def bounded_update)

lemma hand_over_blocked: "reception_within cap (hand_over (Blocked r)) = bounded cap r"
  by (simp add: hand_over_def)

lemma bounded_take_next:
  assumes "bounded cap r"
  shows "reception_within cap (hand_over (take_next zl clock r))"
proof -
  obtain b r' where d: "inline_drive zl clock (r\<lparr>reading := True\<rparr>) = (b, r')" by fastforce
  then have r': "bounded cap r'"
    using bounded_inline_drive [of cap "r\<lparr>reading := True\<rparr>" zl clock] assms by (simp add: bounded_update)
  then have "bounded cap (r'\<lparr>reading := False, pending := q\<rparr>) \<and> item_within cap i" if "pending r' = i # q" for i q
    using that by (auto simp: bounded_def)
  moreover have "bounded cap (r\<lparr>event_queue := Some q\<rparr>) \<and> item_within cap i" if "event_queue r = Some (i # q)" for i q
    using assms that by (simp add: bounded_def)
  ultimately show ?thesis
    using assms r'
    by (auto simp: take_next_def d Let_def hand_over_blocked bounded_update intro!: hand_over_within split: option.split list.split bool.split)
qed

lemma bounded_next_message: "bounded cap r \<Longrightarrow> reception_within cap (next_message zl clock obs r)"
  by (simp add: next_message_eq bounded_take_next bounded_before_read)

fun received_within :: "nat \<Rightarrow> received \<Rightarrow> bool" where
  "received_within cap (Received m) = within_cap cap m"
| "received_within cap _ = True"

lemma bounded_run:
  "bounded cap r \<Longrightarrow> list_all (received_within cap) (fst (ws_run zl clock es r)) \<and> bounded cap (snd (ws_run zl clock es r))"
proof (induction es arbitrary: r)
  case (Cons e es)
  show ?case
  proof (cases e)
    case (AppReads obs)
    note n = bounded_next_message [OF Cons.prems, of zl clock obs]
    show ?thesis
    proof (cases "next_message zl clock obs r")
      case (Returns x r')
      with n have "bounded cap r'" "received_within cap x" by (cases x; simp)+
      with Cons.IH [of r'] Cons.IH [OF Cons.prems] AppReads Returns show ?thesis by (auto split: prod.split)
    next
      case (Waiting r')
      with n Cons.IH [of r'] Cons.IH [OF Cons.prems] AppReads show ?thesis by simp
    qed
  qed (use Cons in \<open>simp_all add: bounded_reader_turn bounded_tick\<close>)
qed simp

text \<open>
  C10. No peer makes a recipient deliver or hold a message over the limit. Whatever octets arrive, in
  whichever mode and under every schedule of reads, reader turns and ticks, and whatever \<^verbatim>\<open>zlib\<close>
  answers, each text or binary message the application receives has at most \<^verbatim>\<open>max_message_size\<close>
  octets (as UTF-8 for text, which is always valid), and so has the message under assembly.
\<close>

theorem ws_messages_bounded:
  defines "run \<equiv> \<lambda>zl clock es src fails dfl depth mf cap rate win idle pong.
      ws_run zl clock es (new_ws_recipient src fails dfl depth mf cap rate win idle pong)"
  shows "list_all (received_within cap) (fst (run zl clock es src fails dfl depth mf cap rate win idle pong))
    \<and> (cap = 0 \<or> length (a_buf (asm (snd (run zl clock es src fails dfl depth mf cap rate win idle pong)))) \<le> cap)"
proof -
  have "bounded cap (new_ws_recipient src fails dfl depth mf cap rate win idle pong)"
    by (simp add: bounded_def new_ws_recipient_def new_assembler_def)
  from bounded_run [OF this, of zl clock es] show ?thesis by (auto simp: run_def bounded_def)
qed

subsection \<open>The liveness probe\<close>

text \<open>The peer has been asked and the answer is overdue at the time \<open>now\<close>.\<close>

definition probe_overdue :: "real \<Rightarrow> 'z ws_recipient \<Rightarrow> bool" where
  "probe_overdue now r \<longleftrightarrow>
     armed r \<and> ws_idle_timeout r > 0 \<and> \<not> ws_closed r \<and> \<not> read_finished r \<and> inbound_seq r = seq_at_last_check r
     \<and> last_inbound_at r \<noteq> 0
     \<and> (case ws_probe_sent_at r of Some t \<Rightarrow> now - t \<ge> ws_pong_timeout r | None \<Rightarrow> False)"

lemma overdue_liveness: "probe_overdue now r \<Longrightarrow> check_liveness now r = ([EndUnresponsive], r)"
  by (auto simp: probe_overdue_def check_liveness_def split: option.splits)

lemma abandoned_run:
  "reading r \<Longrightarrow> event_queue r = None \<Longrightarrow> \<not> armed r \<Longrightarrow> fst (ws_run zl clock es r) = []"
proof (induction es)
  case (Cons e es)
  then show ?case by (cases e) (auto simp: reader_turn_def ws_tick_def)
qed simp



end
