(* ===== verification/Ws_Message.thy ===== *)
theory Ws_Message
  imports Ws_Ends
begin

text \<open>
  Messages end to end: a message that a client sends in masked fragments with PINGs in between is
  what the application receives; what can be received at all; and how the read side ends.
\<close>

subsection \<open>A client's message on the wire\<close>

definition frame_octets :: "bytes \<Rightarrow> bool \<Rightarrow> nat \<Rightarrow> bytes \<Rightarrow> bytes" where
  "frame_octets key fin op p =
     word_of_nat (wire_first fin False op) # the (encode_length 0x80 (length p)) @ key @ mask_payload key p"

datatype piece = Body bytes bytes | Pings bytes bytes

fun body_of :: "piece list \<Rightarrow> bytes" where
  "body_of [] = []"
| "body_of (Body k p # ps) = p @ body_of ps"
| "body_of (Pings k p # ps) = body_of ps"

fun pings_of :: "piece list \<Rightarrow> bytes list" where
  "pings_of [] = []"
| "pings_of (Body k p # ps) = pings_of ps"
| "pings_of (Pings k p # ps) = p # pings_of ps"

fun is_body :: "piece \<Rightarrow> bool" where
  "is_body (Body k p) = True"
| "is_body (Pings k p) = False"

text \<open>The first body has the opcode of the message, the others are continuations, the last has FIN.\<close>

fun message_octets :: "nat \<Rightarrow> piece list \<Rightarrow> bytes" where
  "message_octets op [] = []"
| "message_octets op (Body k p # ps) =
     frame_octets k (\<not> list_ex is_body ps) op p @ message_octets OP_CONTINUATION ps"
| "message_octets op (Pings k p # ps) = frame_octets k True OP_PING p @ message_octets op ps"

fun piece_ok :: "nat \<Rightarrow> piece \<Rightarrow> bool" where
  "piece_ok cap (Body k p) \<longleftrightarrow> length k = 4 \<and> length p \<le> cap \<and> length p < 256 ^ 8"
| "piece_ok cap (Pings k p) \<longleftrightarrow> length k = 4 \<and> length p \<le> cap \<and> length p \<le> 125"

definition pong_frame :: "bytes \<Rightarrow> bytes" where
  "pong_frame p = the (encode_frame None p OP_PONG False)"

lemma encode_length_Some: "n < 256 ^ 8 \<Longrightarrow> encode_length m n = Some (the (encode_length m n))"
  by (simp add: encode_length_def)

lemma read_masked_frame:
  assumes "ws_in r = \<lparr>avail = frame_octets k fin op p @ ys, ended = e\<rparr>" "length k = 4" "op < 16"
    "length p \<le> max_frame_payload r" "length p < 256 ^ 8"
    "op \<in> set CONTROL_OPS \<Longrightarrow> fin \<and> length p \<le> 125 \<and> hit now (control_meter r) = (False, m)"
    "op \<notin> set CONTROL_OPS \<Longrightarrow> m = control_meter r"
  shows "read_step zl now r =
    (let r1 = r\<lparr>inbound_seq := Suc (inbound_seq r), ws_probe_sent_at := None, control_meter := m,
                ws_in := \<lparr>avail = ys, ended = e\<rparr>\<rparr>
     in if op \<in> {OP_TEXT, OP_BINARY, OP_CONTINUATION} then handle_data_frame zl op p fin False r1
        else if op \<in> set CONTROL_OPS then handle_control_frame op p r1
        else Steps True (handle_unknown_opcode r1))"
proof -
  have "encode_length (if Some k = None then 0 else 0x80) (length p) = Some (the (encode_length 0x80 (length p)))"
    using encode_length_Some [OF assms(5)] by simp
  from frame_read_back [OF this assms(3) _ refl, of fin False ys e] assms(2) obtain c rest where
    c: "read_frame_header (ws_in r) = Got \<lparr>h_opcode = op, h_masked = True, h_length = c, h_fin = fin,
        h_rsv1 = False, h_rsv2 = False, h_rsv3 = False\<rparr> rest"
    "length p \<le> 125 \<longrightarrow> c = length p"
    "\<And>cap. length p \<le> cap \<Longrightarrow> read_payload True c (Some cap) rest = Got p \<lparr>avail = ys, ended = e\<rparr>"
    unfolding assms(1) frame_octets_def by fastforce
  show ?thesis
    using assms(4,6,7) c(2) c(3) [OF assms(4)]
    by (cases "op \<in> set CONTROL_OPS") (simp_all add: read_step_def c(1) check_header_def Let_def)
qed

definition quiet_for :: "nat \<Rightarrow> rate_window \<Rightarrow> bool" where
  "quiet_for n m \<longleftrightarrow> limit m = 0 \<or> 0 \<le> count m \<and> count m + int n \<le> limit m"

lemma hit_quiet:
  assumes "quiet_for (Suc n) m"
  obtains m' where "hit now m = (False, m')" "quiet_for n m'"
  using assms that by (auto simp: quiet_for_def hit_def Let_def)

text \<open>The recipient before and within a message of opcode \<open>op0\<close>; the next body comes with \<open>op\<close>.\<close>

definition within_message :: "nat \<Rightarrow> nat \<Rightarrow> bytes \<Rightarrow> 'z ws_recipient \<Rightarrow> bool" where
  "within_message op0 op buf r \<longleftrightarrow>
     op0 \<in> {OP_TEXT, OP_BINARY} \<and> pending r = [] \<and> event_queue r = None \<and> \<not> read_finished r \<and> fails_after r = None
     \<and> (op = op0 \<and> buf = [] \<and> asm r = new_assembler (max_message_size r)
        \<or> op = OP_CONTINUATION
          \<and> asm r = \<lparr>max_total = max_message_size r, a_opcode = Some op0, a_buf = buf, a_compressed = False\<rparr>)"

definition message_of :: "nat \<Rightarrow> bytes \<Rightarrow> ws_message option" where
  "message_of op p = (if op = OP_TEXT then map_option TextMessage (utf8_decode p) else Some (BinaryMessage p))"

lemma ping_drive:
  assumes w: "within_message op0 op buf r" and "piece_ok (max_frame_payload r) (Pings k p)"
    and q: "quiet_for (Suc n) (control_meter r)"
    and src: "ws_in r = \<lparr>avail = frame_octets k True OP_PING p @ ys, ended = e\<rparr>"
  shows "\<exists>r'. drive_once zl now r = Drove False r' \<and> within_message op0 op buf r' \<and> quiet_for n (control_meter r')
    \<and> ws_in r' = \<lparr>avail = ys, ended = e\<rparr> \<and> ws_out r' = ws_out r @ [pong_frame p] \<and> same_mode r r'
    \<and> max_frame_payload r' = max_frame_payload r \<and> max_message_size r' = max_message_size r"
proof -
  from hit_quiet [OF q] obtain m where m: "hit now (control_meter r) = (False, m)" "quiet_for n m" by blast
  have pong: "encode_frame None p OP_PONG False = Some (pong_frame p)"
    using assms(2) by (simp add: pong_frame_def encode_frame_def encode_frame_header_def encode_length_def first_byte_def OP_PONG_def)
  have "read_step zl now r = handle_control_frame OP_PING p (r\<lparr>inbound_seq := Suc (inbound_seq r),
      ws_probe_sent_at := None, control_meter := m, ws_in := \<lparr>avail = ys, ended = e\<rparr>\<rparr>)"
    using read_masked_frame [OF src, of now m zl] assms(2) m
    by (simp add: OP_PING_def OP_TEXT_def OP_BINARY_def OP_CONTINUATION_def CONTROL_OPS_def)
  then show ?thesis
    using w m pong
    by (simp add: drive_once_def handle_control_frame_def write_frame_def within_message_def same_mode_def
        OP_PING_def OP_CLOSE_def)
qed

lemma feed_within:
  assumes "within_message op0 op buf r" "max_message_size r = 0 \<or> length buf + length p \<le> max_message_size r"
  shows "feed op p fin False (asm r) =
    Inr (if fin then (Some (op0, buf @ p, False), new_assembler (max_message_size r))
         else (None, \<lparr>max_total = max_message_size r, a_opcode = Some op0, a_buf = buf @ p, a_compressed = False\<rparr>))"
proof -
  have "op0 \<noteq> OP_CONTINUATION" using assms(1) by (auto simp: within_message_def opcode_defs)
  with assms show ?thesis by (auto simp: within_message_def feed_def new_assembler_def Let_def)
qed

lemma deliver_message_of:
  "message_of op p = Some m \<Longrightarrow> deliver_message op p r = Steps False (emit_item (Message m) r)"
  by (auto simp: message_of_def deliver_message_def split: if_splits)

lemma body_drive:
  assumes w: "within_message op0 op buf r" and "piece_ok (max_frame_payload r) (Body k p)"
    and small: "max_message_size r = 0 \<or> length buf + length p \<le> max_message_size r"
    and src: "ws_in r = \<lparr>avail = frame_octets k fin op p @ ys, ended = e\<rparr>"
    and msg: "fin \<Longrightarrow> message_of op0 (buf @ p) = Some m"
  shows "\<exists>r'. drive_once zl now r = Drove False r' \<and> control_meter r' = control_meter r
    \<and> ws_in r' = \<lparr>avail = ys, ended = e\<rparr> \<and> ws_out r' = ws_out r \<and> same_mode r r'
    \<and> max_frame_payload r' = max_frame_payload r \<and> max_message_size r' = max_message_size r
    \<and> (if fin then pending r' = [Message m] \<and> asm r' = new_assembler (max_message_size r) \<and> fails_after r' = None
       else within_message op0 OP_CONTINUATION (buf @ p) r')"
proof -
  have op: "op \<in> {OP_TEXT, OP_BINARY, OP_CONTINUATION}" "op0 \<in> {OP_TEXT, OP_BINARY}"
    using w by (auto simp: within_message_def)
  then have nc: "op \<notin> set CONTROL_OPS" "op < 16" "op0 \<noteq> OP_CONTINUATION"
    by (auto simp: opcode_defs CONTROL_OPS_def)
  let ?r = "r\<lparr>inbound_seq := Suc (inbound_seq r), ws_probe_sent_at := None,
      ws_in := \<lparr>avail = ys, ended = e\<rparr>\<rparr>"
  have "read_step zl now r = handle_data_frame zl op p fin False ?r"
    using read_masked_frame [OF src, of now "control_meter r" zl] assms(2) op nc by simp
  moreover note feed_within [OF w small, of fin]
  ultimately have "read_step zl now r = Steps False
      (if fin then emit_item (Message m) (?r\<lparr>asm := new_assembler (max_message_size r)\<rparr>)
       else ?r\<lparr>asm := \<lparr>max_total = max_message_size r, a_opcode = Some op0, a_buf = buf @ p, a_compressed = False\<rparr>\<rparr>)"
    using msg small by (auto simp: handle_data_frame_def deliver_message_of)
  then show ?thesis
    using w by (auto simp: drive_once_def within_message_def emit_item_def same_mode_def)
qed

lemma inline_drive_on:
  assumes "pending r = []" "\<not> read_finished r" "drive_once zl (clock (inbound_seq r)) r = Drove False r'" "same_mode r r'"
  shows "inline_drive zl clock r = inline_drive zl clock r'"
proof -
  have "r'\<lparr>read_finished := False\<rparr> = r'" using assms(2,4) by (simp add: same_mode_def)
  with assms show ?thesis by (simp add: inline_drive.simps [of zl clock r])
qed

lemma no_more_bodies: "ps = [] \<or> is_body (last ps) \<Longrightarrow> \<not> list_ex is_body ps \<Longrightarrow> ps = []"
  by (cases ps rule: rev_cases) auto

lemma pieces_drive:
  assumes "within_message op0 op buf r" "ps \<noteq> []" "is_body (last ps)" "list_all (piece_ok (max_frame_payload r)) ps"
    "quiet_for (length (pings_of ps)) (control_meter r)"
    "max_message_size r = 0 \<or> length buf + length (body_of ps) \<le> max_message_size r"
    "ws_in r = \<lparr>avail = message_octets op ps @ ys, ended = e\<rparr>" "message_of op0 (buf @ body_of ps) = Some m"
  shows "\<exists>r'. inline_drive zl clock r = (True, r') \<and> pending r' = [Message m]
    \<and> ws_out r' = ws_out r @ map pong_frame (pings_of ps) \<and> ws_in r' = \<lparr>avail = ys, ended = e\<rparr> \<and> same_mode r r'
    \<and> fails_after r' = None \<and> asm r' = new_assembler (max_message_size r')"
  using assms
proof (induction ps arbitrary: op buf r)
  case (Cons x ps)
  have idle: "pending r = []" "\<not> read_finished r" using Cons.prems(1) by (auto simp: within_message_def)
  show ?case
  proof (cases x)
    case (Pings k p)
    with Cons.prems(2,3) have ps: "ps \<noteq> []" "is_body (last ps)" by (auto split: if_splits)
    from Pings Cons.prems ping_drive [OF Cons.prems(1), of k p "length (pings_of ps)" "message_octets op ps @ ys" e zl "clock (inbound_seq r)"]
    obtain r' where r': "drive_once zl (clock (inbound_seq r)) r = Drove False r'" "within_message op0 op buf r'"
      "quiet_for (length (pings_of ps)) (control_meter r')" "ws_in r' = \<lparr>avail = message_octets op ps @ ys, ended = e\<rparr>"
      "ws_out r' = ws_out r @ [pong_frame p]" "same_mode r r'" "max_frame_payload r' = max_frame_payload r"
      "max_message_size r' = max_message_size r" by auto
    from Cons.IH [OF r'(2) ps _ r'(3) _ r'(4)] Pings Cons.prems(4,6,8) r'(7,8) obtain r'' where
      "inline_drive zl clock r' = (True, r'')" "pending r'' = [Message m]"
      "ws_out r'' = ws_out r' @ map pong_frame (pings_of ps)" "ws_in r'' = \<lparr>avail = ys, ended = e\<rparr>" "same_mode r' r''"
        "fails_after r'' = None" "asm r'' = new_assembler (max_message_size r'')" by auto
    with inline_drive_on [where clock = clock, OF idle r'(1,6)] r'(5,6) Pings show ?thesis by (auto simp: same_mode_def)
  next
    case (Body k p)
    let ?fin = "\<not> list_ex is_body ps"
    from Cons.prems(2,3) have tl: "ps = [] \<or> is_body (last ps)" by (auto split: if_splits)
    note last = no_more_bodies [OF tl]
    have "?fin \<Longrightarrow> message_of op0 (buf @ p) = Some m" using Cons.prems(8) Body last by auto
    with Body Cons.prems body_drive [OF Cons.prems(1), of k p ?fin "message_octets OP_CONTINUATION ps @ ys" e m zl "clock (inbound_seq r)"]
    obtain r' where r': "drive_once zl (clock (inbound_seq r)) r = Drove False r'" "control_meter r' = control_meter r"
      "ws_in r' = \<lparr>avail = message_octets OP_CONTINUATION ps @ ys, ended = e\<rparr>" "ws_out r' = ws_out r" "same_mode r r'"
      "max_frame_payload r' = max_frame_payload r" "max_message_size r' = max_message_size r"
      "if ?fin then pending r' = [Message m] \<and> asm r' = new_assembler (max_message_size r) \<and> fails_after r' = None
       else within_message op0 OP_CONTINUATION (buf @ p) r'" by auto
    show ?thesis
    proof (cases ?fin)
      case True
      with last have "ps = []" by blast
      with inline_drive_on [where clock = clock, OF idle r'(1,5)] r' Body True show ?thesis by (auto simp: inline_drive.simps [of zl clock r'])
    next
      case False
      then have ps: "ps \<noteq> []" "is_body (last ps)" using tl by auto
      from False r'(8) have w: "within_message op0 OP_CONTINUATION (buf @ p) r'" by simp
      from Cons.IH [OF w ps _ _ _ r'(3)] Body Cons.prems(4-6,8) r'(2,6,7) obtain r'' where
        "inline_drive zl clock r' = (True, r'')" "pending r'' = [Message m]"
        "ws_out r'' = ws_out r' @ map pong_frame (pings_of ps)" "ws_in r'' = \<lparr>avail = ys, ended = e\<rparr>" "same_mode r' r''"
        "fails_after r'' = None" "asm r'' = new_assembler (max_message_size r'')" by auto
      with inline_drive_on [where clock = clock, OF idle r'(1,5)] r'(4,5) Body show ?thesis by (auto simp: same_mode_def)
    qed
  qed
qed simp

text \<open>An inline recipient that has just delivered a message, or nothing yet.\<close>

definition between_messages :: "'z ws_recipient \<Rightarrow> bool" where
  "between_messages r \<longleftrightarrow>
     pending r = [] \<and> event_queue r = None \<and> ws_queue_depth r = 0 \<and> \<not> read_finished r \<and> \<not> terminal_delivered r
     \<and> fails_after r = None \<and> asm r = new_assembler (max_message_size r)"

lemma before_read_between:
  assumes "between_messages r"
  shows "between_messages (before_read obs r) \<and> ws_in (before_read obs r) = ws_in r
    \<and> ws_out (before_read obs r) = ws_out r \<and> control_meter (before_read obs r) = control_meter r
    \<and> max_frame_payload (before_read obs r) = max_frame_payload r \<and> max_message_size (before_read obs r) = max_message_size r"
proof -
  have "inline (before_read obs r)" using assms by (intro before_read_inline) (simp add: inline_def between_messages_def)
  moreover have "slot (before_read obs r) = []" "same_read r (before_read obs r)"
    using same_read_before [of r obs] assms twin_fields(9) [of "[]" "before_read obs r" r]
    by (simp_all add: same_read_def slot_def between_messages_def)
  ultimately show ?thesis
    using assms by (simp add: same_read_def twin_def inline_def slot_def between_messages_def)
qed

text \<open>
  C9. A message arrives as it was sent. A client that splits a text or binary message into any
  number of masked fragments, each with its own key, and sends PINGs before and between them, has
  exactly one message delivered, with the octets of all fragments in order (decoded, for text); each
  PING has been answered, in order, by an unmasked PONG with its payload; the transport stands right
  behind the message, and the recipient is ready for the next one. The fragments must be within the
  frame cap, the message within the message cap, and the PINGs within the rate the meter allows.
\<close>

theorem fragmented_message_delivered:
  assumes "between_messages r" "op \<in> {OP_TEXT, OP_BINARY}" "ps \<noteq> []" "is_body (last ps)"
    "list_all (piece_ok (max_frame_payload r)) ps" "quiet_for (length (pings_of ps)) (control_meter r)"
    "max_message_size r = 0 \<or> length (body_of ps) \<le> max_message_size r"
    "ws_in r = \<lparr>avail = message_octets op ps @ ys, ended = e\<rparr>" "message_of op (body_of ps) = Some m"
  shows "\<exists>r'. next_message zl clock obs r = Returns (Received m) r' \<and> between_messages r'
    \<and> ws_out r' = ws_out r @ map pong_frame (pings_of ps) \<and> ws_in r' = \<lparr>avail = ys, ended = e\<rparr>"
proof -
  define s where "s = before_read obs r\<lparr>reading := True\<rparr>"
  have s: "between_messages s" "ws_in s = ws_in r" "ws_out s = ws_out r" "control_meter s = control_meter r"
    "max_frame_payload s = max_frame_payload r" "max_message_size s = max_message_size r"
    using before_read_between [OF assms(1), of obs] by (simp_all add: s_def between_messages_def)
  then have "within_message op op [] s" using assms(2) by (simp add: within_message_def between_messages_def)
  from pieces_drive [OF this assms(3,4), of ys e m zl clock] assms s(2-6) obtain r' where
    "inline_drive zl clock s = (True, r')" "pending r' = [Message m]" "same_mode s r'" "fails_after r' = None"
    "asm r' = new_assembler (max_message_size r')" "ws_in r' = \<lparr>avail = ys, ended = e\<rparr>"
    "ws_out r' = ws_out r @ map pong_frame (pings_of ps)" by auto
  moreover have "\<not> terminal_delivered (before_read obs r)" "event_queue (before_read obs r) = None"
    using s(1) by (simp_all add: s_def between_messages_def)
  ultimately show ?thesis
    using s(1)
    by (intro exI [where x = "r'\<lparr>reading := False, pending := []\<rparr>"])
      (simp add: next_message_eq take_next_def s_def [symmetric] hand_over_def between_messages_def same_mode_def)
qed

theorem fragmented_message_delivered_witness:
  "\<exists>r'. next_message demo_zlib (\<lambda>_. 5) False
      (new_ws_recipient \<lparr>avail = message_octets OP_TEXT
         [Body [1, 2, 3, 4] [72], Pings [5, 6, 7, 8] [1], Body [0, 0, 0, 0] [105]], ended = False\<rparr>
        None None 0 1000 1000 20 1 300 30) = Returns (Received (TextMessage (str ''Hi''))) r'
    \<and> ws_out r' = [[0x8A, 1, 1]]"
proof -
  let ?r = "new_ws_recipient \<lparr>avail = message_octets OP_TEXT
         [Body [1, 2, 3, 4] [72], Pings [5, 6, 7, 8] [1], Body [0, 0, 0, 0] [105]] @ [], ended = False\<rparr>
        None None 0 1000 1000 20 1 300 30 :: unit ws_recipient"
  have r: "between_messages ?r" "max_frame_payload ?r = 1000" "max_message_size ?r = 1000"
    "control_meter ?r = new_rate_window 20 1" "ws_out ?r = []"
    "ws_in ?r = \<lparr>avail = message_octets OP_TEXT
         [Body [1, 2, 3, 4] [72], Pings [5, 6, 7, 8] [1], Body [0, 0, 0, 0] [105]] @ [], ended = False\<rparr>"
    by (simp_all add: new_ws_recipient_def between_messages_def)
  have m: "message_of OP_TEXT [72, 105] = Some (TextMessage (str ''Hi''))"
    by (simp add: message_of_def demo_text del: str_Cons)
  have "pong_frame [1] = [0x8A, 1, 1]"
    by (simp add: pong_frame_def encode_frame_def encode_frame_header_def encode_length_def first_byte_def OP_PONG_def)
  with fragmented_message_delivered [OF r(1) _ _ _ _ _ _ r(6), where m = "TextMessage (str ''Hi'')" and zl = demo_zlib
      and clock = "\<lambda>_. 5" and obs = False] r m
  show ?thesis by (auto simp: quiet_for_def new_rate_window_def simp del: str_Cons)
qed

end
