(* ===== verification/Mqtt_Codec.thy ===== *)
theory Mqtt_Codec
  imports Utf8
begin

text \<open>
  The MQTT 5.0 packet codec, \<^verbatim>\<open>src/blackbull/mqtt/messages.py\<close>: variable byte integers, strings,
  properties and the fifteen control packets. Decoders walk a buffer by position as the source does;
  indexing past its end is \<open>IndexErr\<close>, slices clamp. A property value has the Python type its
  property asks for, any other is \<open>TypeErr\<close>; a password is its octets.
\<close>

datatype mqtt_exn =
    MQTTDecodeError
  | IncompletePacket
  | IndexErr
  | ValueErr
  | UnicodeErr
  | OverflowErr
  | TypeErr

definition index :: "bytes \<Rightarrow> nat \<Rightarrow> mqtt_exn + nat" where
  "index data pos = (if pos < length data then Inr (unat (data ! pos)) else Inl IndexErr)"

definition to_bytes :: "nat \<Rightarrow> nat \<Rightarrow> mqtt_exn + bytes" where
  "to_bytes k n = (if n < 256 ^ k then Inr (to_be k n) else Inl OverflowErr)"

subsection \<open>Variable byte integers\<close>

function encode_vbi_loop :: "nat \<Rightarrow> bytes" where
  "encode_vbi_loop n =
     (let byte = n AND 0x7F; rest = drop_bit 7 n
      in if rest > 0 then word_of_nat (byte OR 0x80) # encode_vbi_loop rest else [word_of_nat byte])"
  by auto
termination
  by (relation "measure id") (auto simp: drop_bit_eq_div)

declare encode_vbi_loop.simps [simp del]

definition encode_variable_byte_integer :: "nat \<Rightarrow> mqtt_exn + bytes" where
  "encode_variable_byte_integer n = (if n > 268435455 then Inl MQTTDecodeError else Inr (encode_vbi_loop n))"

fun decode_vbi_loop :: "bytes \<Rightarrow> nat \<Rightarrow> nat \<Rightarrow> nat \<Rightarrow> mqtt_exn + nat \<times> nat" where
  "decode_vbi_loop [] multiplier n consumed = Inl IncompletePacket"
| "decode_vbi_loop (byte # data) multiplier n consumed =
     (let n = n + unat (byte AND 0x7F) * multiplier; consumed = consumed + 1
      in if multiplier > 128 * 128 * 128 then Inl MQTTDecodeError
         else if byte AND 0x80 = 0 then Inr (n, consumed)
         else decode_vbi_loop data (multiplier * 128) n consumed)"

definition decode_variable_byte_integer :: "bytes \<Rightarrow> mqtt_exn + nat \<times> nat" where
  "decode_variable_byte_integer data = decode_vbi_loop data 1 0 0"

subsection \<open>Strings\<close>

definition encode_utf8_field :: "pystr \<Rightarrow> mqtt_exn + bytes" where
  "encode_utf8_field s =
     (case utf8_encode s of
        None \<Rightarrow> Inl UnicodeErr
      | Some raw \<Rightarrow> andThen (to_bytes 2 (length raw)) (\<lambda>l. Inr (l @ raw)))"

definition encode_binary :: "bytes \<Rightarrow> mqtt_exn + bytes" where
  "encode_binary blob = andThen (to_bytes 2 (length blob)) (\<lambda>l. Inr (l @ blob))"

definition decode_binary :: "bytes \<Rightarrow> nat \<Rightarrow> mqtt_exn + bytes \<times> nat" where
  "decode_binary data offset =
     (if offset + 2 > length data then Inl IncompletePacket
      else
        let len = from_be (slice data offset (offset + 2));
            start = offset + 2;
            stop = start + len
        in if stop > length data then Inl IncompletePacket else Inr (slice data start stop, stop))"

definition decode_utf8_field :: "bytes \<Rightarrow> nat \<Rightarrow> mqtt_exn + pystr \<times> nat" where
  "decode_utf8_field data offset =
     andThen (decode_binary data offset) (\<lambda>(raw, stop).
       case utf8_decode raw of None \<Rightarrow> Inl UnicodeErr | Some s \<Rightarrow> Inr (s, stop))"

subsection \<open>Properties\<close>

datatype wire_type = WByte | WUint16 | WUint32 | WVbi | WUtf8 | WBinary | WPair

datatype prop_value = PInt nat | PText pystr | PBlob bytes | PPairs "(pystr \<times> pystr) list"

type_synonym props = "(string, prop_value) dict"

text \<open>Identifier, name, key in the dictionary, type.\<close>

definition PROPERTY_SPECS :: "(nat \<times> string \<times> string \<times> wire_type) list" where
  "PROPERTY_SPECS =
     [(0x01, ''payload_format_indicator'', ''payload_format_indicator'', WByte),
      (0x02, ''message_expiry_interval'', ''message_expiry_interval'', WUint32),
      (0x03, ''content_type'', ''content_type'', WUtf8),
      (0x08, ''response_topic'', ''response_topic'', WUtf8),
      (0x09, ''correlation_data'', ''correlation_data'', WBinary),
      (0x0B, ''subscription_identifier'', ''subscription_identifier'', WVbi),
      (0x11, ''session_expiry_interval'', ''session_expiry_interval'', WUint32),
      (0x12, ''assigned_client_identifier'', ''assigned_client_identifier'', WUtf8),
      (0x13, ''server_keep_alive'', ''server_keep_alive'', WUint16),
      (0x15, ''authentication_method'', ''authentication_method'', WUtf8),
      (0x16, ''authentication_data'', ''authentication_data'', WBinary),
      (0x17, ''request_problem_information'', ''request_problem_information'', WByte),
      (0x18, ''will_delay_interval'', ''will_delay_interval'', WUint32),
      (0x19, ''request_response_information'', ''request_response_information'', WByte),
      (0x1A, ''response_information'', ''response_information'', WUtf8),
      (0x1C, ''server_reference'', ''server_reference'', WUtf8),
      (0x1F, ''reason_string'', ''reason_string'', WUtf8),
      (0x21, ''receive_maximum'', ''receive_maximum'', WUint16),
      (0x22, ''topic_alias_maximum'', ''topic_alias_maximum'', WUint16),
      (0x23, ''topic_alias'', ''topic_alias'', WUint16),
      (0x24, ''maximum_qos'', ''maximum_qos'', WByte),
      (0x25, ''retain_available'', ''retain_available'', WByte),
      (0x26, ''user_property'', ''user_properties'', WPair),
      (0x27, ''maximum_packet_size'', ''maximum_packet_size'', WUint32),
      (0x28, ''wildcard_subscription_available'', ''wildcard_subscription_available'', WByte),
      (0x29, ''subscription_identifier_available'', ''subscription_identifier_available'', WByte),
      (0x2A, ''shared_subscription_available'', ''shared_subscription_available'', WByte)]"

text \<open>\<^verbatim>\<open>_PROP_BY_ID\<close> with \<^verbatim>\<open>_PROP_ID_TO_KEY\<close>, and \<^verbatim>\<open>_PROP_BY_KEY\<close>.\<close>

definition prop_by_id :: "nat \<Rightarrow> (string \<times> wire_type) option" where
  "prop_by_id pid = map_of (map (\<lambda>(i, n, k, w). (i, (k, w))) PROPERTY_SPECS) pid"

definition prop_by_key :: "string \<Rightarrow> (nat \<times> wire_type) option" where
  "prop_by_key key = map_of (map (\<lambda>(i, n, k, w). (k, (i, w))) PROPERTY_SPECS) key"

fun encode_prop_value :: "wire_type \<Rightarrow> prop_value \<Rightarrow> mqtt_exn + bytes" where
  "encode_prop_value WByte (PInt n) = Inr [word_of_nat (n AND 0xFF)]"
| "encode_prop_value WUint16 (PInt n) = to_bytes 2 n"
| "encode_prop_value WUint32 (PInt n) = to_bytes 4 n"
| "encode_prop_value WVbi (PInt n) = encode_variable_byte_integer n"
| "encode_prop_value WUtf8 (PText s) = encode_utf8_field s"
| "encode_prop_value WBinary (PBlob b) = encode_binary b"
| "encode_prop_value _ _ = Inl TypeErr"

fun encode_pairs :: "nat \<Rightarrow> (pystr \<times> pystr) list \<Rightarrow> mqtt_exn + bytes" where
  "encode_pairs pid [] = Inr []"
| "encode_pairs pid ((k, v) # ps) =
     andThen (encode_utf8_field k) (\<lambda>kb.
     andThen (encode_utf8_field v) (\<lambda>vb.
     andThen (encode_pairs pid ps) (\<lambda>rest. Inr (word_of_nat pid # kb @ vb @ rest))))"

fun encode_props_body :: "props \<Rightarrow> mqtt_exn + bytes" where
  "encode_props_body [] = Inr []"
| "encode_props_body ((key, v) # ps) =
     (case prop_by_key key of
        None \<Rightarrow> Inl MQTTDecodeError
      | Some (pid, wt) \<Rightarrow>
          andThen (if wt = WPair
                   then (case v of PPairs kvs \<Rightarrow> encode_pairs pid kvs | _ \<Rightarrow> Inl TypeErr)
                   else andThen (encode_prop_value wt v) (\<lambda>b. Inr (word_of_nat pid # b))) (\<lambda>b.
          andThen (encode_props_body ps) (\<lambda>rest. Inr (b @ rest))))"

definition encode_properties :: "props \<Rightarrow> mqtt_exn + bytes" where
  "encode_properties ps =
     andThen (encode_props_body ps) (\<lambda>body.
     andThen (encode_variable_byte_integer (length body)) (\<lambda>l. Inr (l @ body)))"

fun decode_prop_value :: "wire_type \<Rightarrow> bytes \<Rightarrow> nat \<Rightarrow> nat \<Rightarrow> mqtt_exn + prop_value \<times> nat" where
  "decode_prop_value WByte data pos stop = andThen (index data pos) (\<lambda>n. Inr (PInt n, pos + 1))"
| "decode_prop_value WUint16 data pos stop = Inr (PInt (from_be (slice data pos (pos + 2))), pos + 2)"
| "decode_prop_value WUint32 data pos stop = Inr (PInt (from_be (slice data pos (pos + 4))), pos + 4)"
| "decode_prop_value WVbi data pos stop =
     andThen (decode_variable_byte_integer (slice data pos stop)) (\<lambda>(n, consumed). Inr (PInt n, pos + consumed))"
| "decode_prop_value WUtf8 data pos stop = andThen (decode_utf8_field data pos) (\<lambda>(s, pos). Inr (PText s, pos))"
| "decode_prop_value WBinary data pos stop = andThen (decode_binary data pos) (\<lambda>(b, pos). Inr (PBlob b, pos))"
| "decode_prop_value WPair data pos stop = Inl MQTTDecodeError"

definition append_pair :: "string \<Rightarrow> pystr \<times> pystr \<Rightarrow> props \<Rightarrow> props" where
  "append_pair key kv ps =
     (case dict_get ps key of
        Some (PPairs kvs) \<Rightarrow> dict_set key (PPairs (kvs @ [kv])) ps
      | _ \<Rightarrow> dict_set key (PPairs [kv]) ps)"

definition decode_prop :: "bytes \<Rightarrow> nat \<Rightarrow> nat \<Rightarrow> props \<Rightarrow> mqtt_exn + props \<times> nat" where
  "decode_prop data pos stop ps =
     andThen (index data pos) (\<lambda>pid.
       case prop_by_id pid of
         None \<Rightarrow> Inl MQTTDecodeError
       | Some (key, wt) \<Rightarrow>
           if wt = WPair then
             andThen (decode_utf8_field data (pos + 1)) (\<lambda>(k, pos).
             andThen (decode_utf8_field data pos) (\<lambda>(v, pos).
               Inr (append_pair key (k, v) ps, pos)))
           else
             andThen (decode_prop_value wt data (pos + 1) stop) (\<lambda>(v, pos). Inr (dict_set key v ps, pos)))"

lemma decode_binary_pos: "decode_binary data pos = Inr (b, pos') \<Longrightarrow> pos < pos'"
  by (auto simp: decode_binary_def Let_def split: if_splits)

lemma decode_utf8_pos: "decode_utf8_field data pos = Inr (s, pos') \<Longrightarrow> pos < pos'"
  by (auto simp: decode_utf8_field_def andThen_eq_Inr_iff dest: decode_binary_pos split: option.splits)

lemma decode_prop_value_pos: "decode_prop_value wt data pos stop = Inr (v, pos') \<Longrightarrow> pos \<le> pos'"
  by (cases wt) (auto simp: andThen_eq_Inr_iff dest: decode_utf8_pos decode_binary_pos)

lemma decode_prop_pos:
  assumes "decode_prop data pos stop ps = Inr (ps', pos')"
  shows "pos < pos'"
proof -
  from assms obtain pid where pid: "index data pos = Inr pid" "prop_by_id pid \<noteq> None"
    by (auto simp: decode_prop_def andThen_eq_Inr_iff split: option.splits)
  then obtain key wt where "prop_by_id pid = Some (key, wt)" by auto
  with assms pid show ?thesis
    by (cases "wt = WPair") (auto simp: decode_prop_def andThen_eq_Inr_iff dest!: decode_utf8_pos decode_prop_value_pos)
qed

function decode_props_loop :: "bytes \<Rightarrow> nat \<Rightarrow> nat \<Rightarrow> props \<Rightarrow> mqtt_exn + props" where
  "decode_props_loop data pos stop ps =
     (if pos < stop
      then andThen (decode_prop data pos stop ps) (\<lambda>(ps, pos). decode_props_loop data pos stop ps)
      else Inr ps)"
  by auto
termination
  by (relation "measure (\<lambda>(_, pos, stop, _). stop - pos)") (auto dest: decode_prop_pos)

declare decode_props_loop.simps [simp del]

definition decode_properties :: "bytes \<Rightarrow> nat \<Rightarrow> mqtt_exn + props \<times> nat" where
  "decode_properties data offset =
     andThen (decode_variable_byte_integer (drop offset data)) (\<lambda>(len, len_consumed).
       let start = offset + len_consumed; stop = start + len
       in if stop > length data then Inl IncompletePacket
          else andThen (decode_props_loop data start stop []) (\<lambda>ps. Inr (ps, stop - offset)))"

subsection \<open>Packets\<close>

record mqtt_connect =
  client_id :: pystr
  clean_start :: bool
  keep_alive :: nat
  proto_level :: nat
  username :: "pystr option"
  password :: "bytes option"
  will_topic :: "pystr option"
  will_payload :: "bytes option"
  will_qos :: nat
  will_retain :: bool
  will_properties :: props
  c_properties :: props

record mqtt_publish =
  topic :: pystr
  payload :: bytes
  qos :: nat
  packet_id :: "nat option"
  retain :: bool
  dup :: bool
  p_properties :: props

text \<open>The dictionary of options of one subscription, whose missing keys read as false and zero.\<close>

record sub_options =
  so_qos :: nat
  no_local :: bool
  retain_as_published :: bool
  retain_handling :: nat

datatype mqtt_message =
    Connect mqtt_connect
  | Connack bool nat props
  | Publish mqtt_publish
  | Puback nat nat props
  | Pubrec nat nat props
  | Pubrel nat nat props
  | Pubcomp nat nat props
  | Subscribe nat "(pystr \<times> nat) list" props "sub_options list"
  | Suback nat "nat list" props
  | Unsubscribe nat "pystr list" props
  | Unsuback nat "nat list" props
  | Pingreq
  | Pingresp
  | Disconnect "nat option" props
  | Auth "nat option" props

text \<open>The constructors of CONNECT and PUBLISH with their \<^verbatim>\<open>__post_init__\<close>.\<close>

definition mk_connect :: "mqtt_connect \<Rightarrow> mqtt_exn + mqtt_message" where
  "mk_connect m =
     (if 0 \<in> set (client_id m) then Inl ValueErr
      else if password m \<noteq> None \<and> username m = None then Inl ValueErr
      else Inr (Connect m))"

definition mk_publish :: "mqtt_publish \<Rightarrow> mqtt_exn + mqtt_message" where
  "mk_publish m =
     (if qos m > 0 \<and> packet_id m = None then Inl ValueErr
      else if dict_get (p_properties m) ''topic_alias'' = Some (PInt 0) then Inl ValueErr
      else if dict_get (p_properties m) ''payload_format_indicator'' = Some (PInt 1)
              \<and> utf8_decode (payload m) = None then Inl ValueErr
      else Inr (Publish m))"

definition T_CONNECT :: nat where "T_CONNECT = 1"
definition T_CONNACK :: nat where "T_CONNACK = 2"
definition T_PUBLISH :: nat where "T_PUBLISH = 3"
definition T_PUBACK :: nat where "T_PUBACK = 4"
definition T_PUBREC :: nat where "T_PUBREC = 5"
definition T_PUBREL :: nat where "T_PUBREL = 6"
definition T_PUBCOMP :: nat where "T_PUBCOMP = 7"
definition T_SUBSCRIBE :: nat where "T_SUBSCRIBE = 8"
definition T_SUBACK :: nat where "T_SUBACK = 9"
definition T_UNSUBSCRIBE :: nat where "T_UNSUBSCRIBE = 10"
definition T_UNSUBACK :: nat where "T_UNSUBACK = 11"
definition T_PINGREQ :: nat where "T_PINGREQ = 12"
definition T_PINGRESP :: nat where "T_PINGRESP = 13"
definition T_DISCONNECT :: nat where "T_DISCONNECT = 14"
definition T_AUTH :: nat where "T_AUTH = 15"

lemmas packet_types = T_CONNECT_def T_CONNACK_def T_PUBLISH_def T_PUBACK_def T_PUBREC_def T_PUBREL_def
  T_PUBCOMP_def T_SUBSCRIBE_def T_SUBACK_def T_UNSUBSCRIBE_def T_UNSUBACK_def T_PINGREQ_def
  T_PINGRESP_def T_DISCONNECT_def T_AUTH_def

definition RESERVED_FLAGS_0010 :: nat where "RESERVED_FLAGS_0010 = 0x02"

subsection \<open>Encoder\<close>

definition mqtt_frame :: "nat \<Rightarrow> nat \<Rightarrow> bytes \<Rightarrow> mqtt_exn + bytes" where
  "mqtt_frame packet_type flags body =
     andThen (encode_variable_byte_integer (length body)) (\<lambda>l.
       Inr (word_of_nat (push_bit 4 packet_type OR (flags AND 0x0F)) # l @ body))"

definition byte_of :: "nat \<Rightarrow> mqtt_exn + bytes" where
  "byte_of n = (if n < 256 then Inr [word_of_nat n] else Inl ValueErr)"

definition connect_flags :: "mqtt_connect \<Rightarrow> nat" where
  "connect_flags m =
     (let flags = 0;
          flags = (if clean_start m then flags OR 0x02 else flags);
          flags = (if will_topic m \<noteq> None
                   then let flags = flags OR 0x04 OR push_bit 3 (will_qos m AND 0x03)
                        in if will_retain m then flags OR 0x20 else flags
                   else flags);
          flags = (if password m \<noteq> None then flags OR 0x40 else flags)
      in if username m \<noteq> None then flags OR 0x80 else flags)"

definition encode_opt :: "('a \<Rightarrow> mqtt_exn + bytes) \<Rightarrow> 'a option \<Rightarrow> mqtt_exn + bytes" where
  "encode_opt f x = (case x of None \<Rightarrow> Inr [] | Some y \<Rightarrow> f y)"

definition encode_will :: "mqtt_connect \<Rightarrow> mqtt_exn + bytes" where
  "encode_will m =
     encode_opt (\<lambda>t.
       andThen (encode_properties (will_properties m)) (\<lambda>p.
       andThen (encode_utf8_field t) (\<lambda>tb.
       andThen (encode_binary (case will_payload m of None \<Rightarrow> [] | Some b \<Rightarrow> b)) (\<lambda>b.
         Inr (p @ tb @ b))))) (will_topic m)"

definition encode_connect :: "mqtt_connect \<Rightarrow> mqtt_exn + bytes" where
  "encode_connect m =
     andThen (encode_utf8_field (str ''MQTT'')) (\<lambda>name.
     andThen (byte_of (proto_level m)) (\<lambda>level.
     andThen (byte_of (connect_flags m)) (\<lambda>flags.
     andThen (to_bytes 2 (keep_alive m)) (\<lambda>alive.
     andThen (encode_properties (c_properties m)) (\<lambda>p.
     andThen (encode_utf8_field (client_id m)) (\<lambda>cid.
     andThen (encode_will m) (\<lambda>will.
     andThen (encode_opt encode_utf8_field (username m)) (\<lambda>user.
     andThen (encode_opt encode_binary (password m)) (\<lambda>pw.
       mqtt_frame T_CONNECT 0 (name @ level @ flags @ alive @ p @ cid @ will @ user @ pw))))))))))"

definition encode_connack :: "bool \<Rightarrow> nat \<Rightarrow> props \<Rightarrow> mqtt_exn + bytes" where
  "encode_connack session_present reason_code ps =
     andThen (encode_properties ps) (\<lambda>p.
       mqtt_frame T_CONNACK 0
         ((if session_present then 0x01 else 0x00) # word_of_nat (reason_code AND 0xFF) # p))"

definition publish_flags :: "mqtt_publish \<Rightarrow> nat" where
  "publish_flags m =
     (let flags = push_bit 1 (qos m AND 0x03);
          flags = (if dup m then flags OR 0x08 else flags)
      in if retain m then flags OR 0x01 else flags)"

definition encode_publish :: "mqtt_publish \<Rightarrow> mqtt_exn + bytes" where
  "encode_publish m =
     andThen (encode_utf8_field (topic m)) (\<lambda>t.
     andThen (if qos m > 0 then to_bytes 2 (case packet_id m of None \<Rightarrow> 0 | Some i \<Rightarrow> i) else Inr []) (\<lambda>i.
     andThen (encode_properties (p_properties m)) (\<lambda>p.
       mqtt_frame T_PUBLISH (publish_flags m) (t @ i @ p @ payload m))))"

definition encode_packet_id_ack :: "nat \<Rightarrow> nat \<Rightarrow> nat \<Rightarrow> props \<Rightarrow> mqtt_exn + bytes" where
  "encode_packet_id_ack packet_type pid reason_code ps =
     andThen (to_bytes 2 pid) (\<lambda>i.
     andThen (encode_properties ps) (\<lambda>p.
       mqtt_frame packet_type (if packet_type = T_PUBREL then RESERVED_FLAGS_0010 else 0)
         (i @ word_of_nat (reason_code AND 0xFF) # p)))"

definition options_byte :: "nat \<Rightarrow> sub_options option \<Rightarrow> nat" where
  "options_byte q opts =
     (let options = q AND 0x03
      in case opts of
           None \<Rightarrow> options
         | Some so \<Rightarrow>
             let options = (if no_local so then options OR 0x04 else options);
                 options = (if retain_as_published so then options OR 0x08 else options)
             in options OR push_bit 4 (retain_handling so AND 0x03))"

fun encode_subscriptions :: "(pystr \<times> nat) list \<Rightarrow> sub_options list \<Rightarrow> mqtt_exn + bytes" where
  "encode_subscriptions [] sos = Inr []"
| "encode_subscriptions ((f, q) # subs) sos =
     andThen (encode_utf8_field f) (\<lambda>fb.
     andThen (encode_subscriptions subs (tl sos)) (\<lambda>rest.
       Inr (fb @ word_of_nat (options_byte q (case sos of [] \<Rightarrow> None | so # _ \<Rightarrow> Some so)) # rest)))"

definition encode_subscribe :: "nat \<Rightarrow> (pystr \<times> nat) list \<Rightarrow> props \<Rightarrow> sub_options list \<Rightarrow> mqtt_exn + bytes" where
  "encode_subscribe pid subs ps sos =
     andThen (to_bytes 2 pid) (\<lambda>i.
     andThen (encode_properties ps) (\<lambda>p.
     andThen (encode_subscriptions subs sos) (\<lambda>b.
       mqtt_frame T_SUBSCRIBE RESERVED_FLAGS_0010 (i @ p @ b))))"

fun encode_topics :: "pystr list \<Rightarrow> mqtt_exn + bytes" where
  "encode_topics [] = Inr []"
| "encode_topics (t # ts) =
     andThen (encode_utf8_field t) (\<lambda>b. andThen (encode_topics ts) (\<lambda>rest. Inr (b @ rest)))"

definition encode_unsubscribe :: "nat \<Rightarrow> pystr list \<Rightarrow> props \<Rightarrow> mqtt_exn + bytes" where
  "encode_unsubscribe pid ts ps =
     andThen (to_bytes 2 pid) (\<lambda>i.
     andThen (encode_properties ps) (\<lambda>p.
     andThen (encode_topics ts) (\<lambda>b.
       mqtt_frame T_UNSUBSCRIBE RESERVED_FLAGS_0010 (i @ p @ b))))"

text \<open>\<^verbatim>\<open>_encode_suback\<close> and \<^verbatim>\<open>_encode_unsuback\<close>.\<close>

definition encode_reason_codes :: "nat \<Rightarrow> nat \<Rightarrow> nat list \<Rightarrow> props \<Rightarrow> mqtt_exn + bytes" where
  "encode_reason_codes packet_type pid codes ps =
     andThen (to_bytes 2 pid) (\<lambda>i.
     andThen (encode_properties ps) (\<lambda>p.
       mqtt_frame packet_type 0 (i @ p @ map (\<lambda>c. word_of_nat (c AND 0xFF)) codes)))"

definition encode_reason_and_props :: "nat \<Rightarrow> nat option \<Rightarrow> props \<Rightarrow> mqtt_exn + bytes" where
  "encode_reason_and_props packet_type reason_code ps =
     (if reason_code = None \<and> ps = [] then mqtt_frame packet_type 0 []
      else
        andThen (encode_properties ps) (\<lambda>p.
          mqtt_frame packet_type 0
            (word_of_nat ((case reason_code of Some c \<Rightarrow> c | None \<Rightarrow> 0) AND 0xFF) # p)))"

fun encode_packet :: "mqtt_message \<Rightarrow> mqtt_exn + bytes" where
  "encode_packet (Connect m) = encode_connect m"
| "encode_packet (Connack sp rc ps) = encode_connack sp rc ps"
| "encode_packet (Publish m) = encode_publish m"
| "encode_packet (Puback pid rc ps) = encode_packet_id_ack T_PUBACK pid rc ps"
| "encode_packet (Pubrec pid rc ps) = encode_packet_id_ack T_PUBREC pid rc ps"
| "encode_packet (Pubrel pid rc ps) = encode_packet_id_ack T_PUBREL pid rc ps"
| "encode_packet (Pubcomp pid rc ps) = encode_packet_id_ack T_PUBCOMP pid rc ps"
| "encode_packet (Subscribe pid subs ps sos) = encode_subscribe pid subs ps sos"
| "encode_packet (Suback pid rcs ps) = encode_reason_codes T_SUBACK pid rcs ps"
| "encode_packet (Unsubscribe pid ts ps) = encode_unsubscribe pid ts ps"
| "encode_packet (Unsuback pid rcs ps) = encode_reason_codes T_UNSUBACK pid rcs ps"
| "encode_packet Pingreq = mqtt_frame T_PINGREQ 0 []"
| "encode_packet Pingresp = mqtt_frame T_PINGRESP 0 []"
| "encode_packet (Disconnect rc ps) = encode_reason_and_props T_DISCONNECT rc ps"
| "encode_packet (Auth rc ps) = encode_reason_and_props T_AUTH rc ps"

subsection \<open>Decoder\<close>

definition decode_opt :: "bool \<Rightarrow> (bytes \<Rightarrow> nat \<Rightarrow> mqtt_exn + 'a \<times> nat) \<Rightarrow> bytes \<Rightarrow> nat \<Rightarrow> mqtt_exn + 'a option \<times> nat" where
  "decode_opt present f body pos =
     (if present then andThen (f body pos) (\<lambda>(x, pos). Inr (Some x, pos)) else Inr (None, pos))"

text \<open>A properties block, where the protocol level has one.\<close>

definition decode_level_properties :: "nat \<Rightarrow> bytes \<Rightarrow> nat \<Rightarrow> mqtt_exn + props \<times> nat" where
  "decode_level_properties level body pos =
     (if level \<ge> 5 then andThen (decode_properties body pos) (\<lambda>(ps, c). Inr (ps, pos + c)) else Inr ([], pos))"

definition decode_will :: "nat \<Rightarrow> bytes \<Rightarrow> nat \<Rightarrow> mqtt_exn + (props \<times> pystr \<times> bytes) \<times> nat" where
  "decode_will level body pos =
     andThen (decode_level_properties level body pos) (\<lambda>(ps, pos).
     andThen (decode_utf8_field body pos) (\<lambda>(t, pos).
     andThen (decode_binary body pos) (\<lambda>(b, pos). Inr ((ps, t, b), pos))))"

definition decode_connect :: "bytes \<Rightarrow> mqtt_exn + mqtt_message" where
  "decode_connect body =
     andThen (decode_utf8_field body 0) (\<lambda>(_, pos).
     if pos + 4 > length body then Inl MQTTDecodeError
     else
       let level = unat (body ! pos); cflags = unat (body ! (pos + 1));
           alive = from_be (slice body (pos + 2) (pos + 4))
       in andThen (decode_level_properties level body (pos + 4)) (\<lambda>(ps, pos).
          andThen (decode_utf8_field body pos) (\<lambda>(cid, pos).
          andThen (decode_opt (cflags AND 0x04 \<noteq> 0) (decode_will level) body pos) (\<lambda>(will, pos).
          andThen (decode_opt (cflags AND 0x80 \<noteq> 0) decode_utf8_field body pos) (\<lambda>(user, pos).
          andThen (decode_opt (cflags AND 0x40 \<noteq> 0) decode_binary body pos) (\<lambda>(pw, pos).
            mk_connect
              \<lparr>client_id = cid, clean_start = (cflags AND 0x02 \<noteq> 0), keep_alive = alive, proto_level = level,
               username = user, password = pw, will_topic = map_option (fst \<circ> snd) will,
               will_payload = map_option (snd \<circ> snd) will, will_qos = drop_bit 3 cflags AND 0x03,
               will_retain = (cflags AND 0x20 \<noteq> 0),
               will_properties = (case will of None \<Rightarrow> [] | Some (wp, _) \<Rightarrow> wp), c_properties = ps\<rparr>))))))"

definition decode_connack :: "bytes \<Rightarrow> mqtt_exn + mqtt_message" where
  "decode_connack body =
     andThen (index body 0) (\<lambda>flags.
     andThen (index body 1) (\<lambda>rc.
     andThen (decode_properties body 2) (\<lambda>(ps, _). Inr (Connack (flags AND 0x01 \<noteq> 0) rc ps))))"

text \<open>QoS, DUP, RETAIN.\<close>

definition decode_publish_flags :: "nat \<Rightarrow> nat \<times> bool \<times> bool" where
  "decode_publish_flags flags = (drop_bit 1 flags AND 0x03, flags AND 0x08 \<noteq> 0, flags AND 0x01 \<noteq> 0)"

definition decode_publish :: "bytes \<Rightarrow> nat \<Rightarrow> mqtt_exn + mqtt_message" where
  "decode_publish body flags =
     (let (q, d, r) = decode_publish_flags flags
      in andThen (decode_utf8_field body 0) (\<lambda>(t, pos).
         let (pid, pos) = (if q > 0 then (Some (from_be (slice body pos (pos + 2))), pos + 2) else (None, pos))
         in andThen (decode_properties body pos) (\<lambda>(ps, c).
            mk_publish
              \<lparr>topic = t, payload = drop (pos + c) body, qos = q, packet_id = pid,
               retain = r, dup = d, p_properties = ps\<rparr>)))"

definition decode_packet_id_ack :: "(nat \<Rightarrow> nat \<Rightarrow> props \<Rightarrow> mqtt_message) \<Rightarrow> bytes \<Rightarrow> mqtt_exn + mqtt_message" where
  "decode_packet_id_ack cls body =
     (let pid = from_be (slice body 0 2)
      in if length body > 2 then
           andThen (index body 2) (\<lambda>rc.
             if length body > 3 then andThen (decode_properties body 3) (\<lambda>(ps, _). Inr (cls pid rc ps))
             else Inr (cls pid rc []))
         else Inr (cls pid 0 []))"

function decode_subscriptions :: "bytes \<Rightarrow> nat \<Rightarrow> mqtt_exn + ((pystr \<times> nat) \<times> sub_options) list" where
  "decode_subscriptions body pos =
     (if pos < length body then
        (case decode_utf8_field body pos of
           Inl e \<Rightarrow> Inl e
         | Inr (f, pos) \<Rightarrow>
             andThen (index body pos) (\<lambda>options.
             andThen (decode_subscriptions body (pos + 1)) (\<lambda>rest.
               Inr (((f, options AND 0x03),
                     \<lparr>so_qos = options AND 0x03, no_local = (options AND 0x04 \<noteq> 0),
                      retain_as_published = (options AND 0x08 \<noteq> 0),
                      retain_handling = drop_bit 4 options AND 0x03\<rparr>) # rest))))
      else Inr [])"
  by auto
termination
  by (relation "measure (\<lambda>(body, pos). length body - pos)") (auto dest!: decode_utf8_pos)

declare decode_subscriptions.simps [simp del]

definition decode_subscribe :: "bytes \<Rightarrow> mqtt_exn + mqtt_message" where
  "decode_subscribe body =
     andThen (decode_properties body 2) (\<lambda>(ps, c).
     andThen (decode_subscriptions body (2 + c)) (\<lambda>subs.
       Inr (Subscribe (from_be (slice body 0 2)) (map fst subs) ps (map snd subs))))"

function decode_topics :: "bytes \<Rightarrow> nat \<Rightarrow> mqtt_exn + pystr list" where
  "decode_topics body pos =
     (if pos < length body then
        (case decode_utf8_field body pos of
           Inl e \<Rightarrow> Inl e
         | Inr (t, pos) \<Rightarrow> andThen (decode_topics body pos) (\<lambda>rest. Inr (t # rest)))
      else Inr [])"
  by auto
termination
  by (relation "measure (\<lambda>(body, pos). length body - pos)") (auto dest!: decode_utf8_pos)

declare decode_topics.simps [simp del]

definition decode_unsubscribe :: "bytes \<Rightarrow> mqtt_exn + mqtt_message" where
  "decode_unsubscribe body =
     andThen (decode_properties body 2) (\<lambda>(ps, c).
     andThen (decode_topics body (2 + c)) (\<lambda>ts. Inr (Unsubscribe (from_be (slice body 0 2)) ts ps)))"

text \<open>\<^verbatim>\<open>_decode_suback\<close> and \<^verbatim>\<open>_decode_unsuback\<close>.\<close>

definition decode_reason_codes :: "(nat \<Rightarrow> nat list \<Rightarrow> props \<Rightarrow> mqtt_message) \<Rightarrow> bytes \<Rightarrow> mqtt_exn + mqtt_message" where
  "decode_reason_codes cls body =
     andThen (decode_properties body 2) (\<lambda>(ps, c).
       Inr (cls (from_be (slice body 0 2)) (map unat (drop (2 + c) body)) ps))"

definition decode_reason_and_props :: "(nat option \<Rightarrow> props \<Rightarrow> mqtt_message) \<Rightarrow> bytes \<Rightarrow> mqtt_exn + mqtt_message" where
  "decode_reason_and_props cls body =
     (if body = [] then Inr (cls None [])
      else if length body > 1
      then andThen (decode_properties body 1) (\<lambda>(ps, _). Inr (cls (Some (unat (body ! 0))) ps))
      else Inr (cls (Some (unat (body ! 0))) []))"

definition decode_body :: "nat \<Rightarrow> bytes \<Rightarrow> nat \<Rightarrow> mqtt_exn + mqtt_message" where
  "decode_body packet_type body flags =
     (if packet_type = T_CONNECT then decode_connect body
      else if packet_type = T_CONNACK then decode_connack body
      else if packet_type = T_PUBLISH then decode_publish body flags
      else if packet_type = T_PUBACK then decode_packet_id_ack Puback body
      else if packet_type = T_PUBREC then decode_packet_id_ack Pubrec body
      else if packet_type = T_PUBREL then decode_packet_id_ack Pubrel body
      else if packet_type = T_PUBCOMP then decode_packet_id_ack Pubcomp body
      else if packet_type = T_SUBSCRIBE then decode_subscribe body
      else if packet_type = T_SUBACK then decode_reason_codes Suback body
      else if packet_type = T_UNSUBSCRIBE then decode_unsubscribe body
      else if packet_type = T_UNSUBACK then decode_reason_codes Unsuback body
      else if packet_type = T_PINGREQ then Inr Pingreq
      else if packet_type = T_PINGRESP then Inr Pingresp
      else if packet_type = T_DISCONNECT then decode_reason_and_props Disconnect body
      else decode_reason_and_props Auth body)"

definition expected_flags :: "nat \<Rightarrow> nat" where
  "expected_flags packet_type =
     (if packet_type \<in> {T_PUBREL, T_SUBSCRIBE, T_UNSUBSCRIBE} then RESERVED_FLAGS_0010 else 0x00)"

definition decode_packet :: "bytes \<Rightarrow> mqtt_exn + mqtt_message \<times> nat" where
  "decode_packet data =
     (if length data < 2 then Inl IncompletePacket
      else
        let first_byte = unat (data ! 0);
            packet_type = drop_bit 4 first_byte AND 0x0F;
            flags = first_byte AND 0x0F
        in if packet_type = 0 then Inl MQTTDecodeError
           else if packet_type \<noteq> T_PUBLISH \<and> flags \<noteq> expected_flags packet_type then Inl MQTTDecodeError
           else
             andThen (decode_variable_byte_integer (drop 1 data)) (\<lambda>(remaining_length, rl_consumed).
               let header_len = 1 + rl_consumed; size = header_len + remaining_length
               in if size > length data then Inl IncompletePacket
                  else
                    (case decode_body packet_type (slice data header_len size) flags of
                       Inl IncompletePacket \<Rightarrow> Inl MQTTDecodeError
                     | Inl IndexErr \<Rightarrow> Inl MQTTDecodeError
                     | Inl e \<Rightarrow> Inl e
                     | Inr m \<Rightarrow> Inr (m, size))))"

end
