(* ===== verification/Mqtt_Roundtrip.thy ===== *)
theory Mqtt_Roundtrip
  imports Mqtt_Codec
begin

text \<open>
  The MQTT decoder inverts the encoder. Each decoder is shown to read, at the position where an
  encoding stands in a buffer, the value that was encoded and to stop behind it.
\<close>

named_theorems reads \<open>what a decoder reads at the position of an encoding\<close>

lemma slice_at: "drop pos data = b @ rest \<Longrightarrow> slice data pos (pos + length b) = b"
  by (simp add: slice_def)

lemma drop_at: "drop pos data = b @ rest \<Longrightarrow> drop (pos + length b) data = rest"
  by (metis add.commute append_eq_conv_conj drop_drop)

lemma length_at: "drop pos data = b @ rest \<Longrightarrow> b \<noteq> [] \<Longrightarrow> length data = pos + length b + length rest"
  by (metis add.assoc append_Nil drop_eq_Nil length_append length_drop le_add_diff_inverse linorder_le_cases Nil_is_append_conv)

lemma index_at [reads]: "drop pos data = x # rest \<Longrightarrow> index data pos = Inr (unat x)"
  using length_at [of pos data "[x]" rest] nth_via_drop [of pos data x rest] by (simp add: index_def)

lemma to_bytes_Inr [simp]: "to_bytes k n = Inr b \<longleftrightarrow> n < 256 ^ k \<and> b = to_be k n"
  by (auto simp: to_bytes_def)

lemma from_be_at:
  "drop pos data = to_be k n @ rest \<Longrightarrow> n < 256 ^ k \<Longrightarrow> from_be (slice data pos (pos + k)) = n"
  using slice_at [of pos data "to_be k n" rest] by simp

subsection \<open>Fields\<close>

lemma octet_low_bits: "unat ((word_of_nat i :: byte) AND 0x7F) = i mod 128"
proof -
  have "(word_of_nat i :: byte) AND 0x7F = take_bit 7 (word_of_nat i)"
    using take_bit_eq_mask [of 7 "word_of_nat i :: byte"] by (simp add: mask_eq_exp_minus_1)
  then show ?thesis by (simp only: unsigned_take_bit_eq) (simp add: take_bit_eq_mod unat_of_nat mod_mod_cancel)
qed

lemma octet_high_bit: "(word_of_nat i :: byte) AND 0x80 = 0 \<longleftrightarrow> \<not> bit i 7"
  using and_exp_eq_0_iff_not_bit [of "word_of_nat i :: byte" 7] by (simp add: bit_simps)

lemma vbi_group:
  assumes "i < 128"
  shows "unat ((word_of_nat i :: byte) AND 0x7F) = i" "(word_of_nat i :: byte) AND 0x80 = 0"
    "unat ((word_of_nat (i OR 0x80) :: byte) AND 0x7F) = i" "(word_of_nat (i OR 0x80) :: byte) AND 0x80 \<noteq> 0"
proof -
  have "(i OR 0x80) mod 128 = i"
    using take_bit_or [of 7 i 128] assms by (simp add: take_bit_eq_mod)
  moreover have "bit (0x80 :: nat) 7" "\<not> bit i 7" using assms by (simp_all add: bit_iff_odd)
  ultimately show "unat ((word_of_nat i :: byte) AND 0x7F) = i" "(word_of_nat i :: byte) AND 0x80 = 0"
    "unat ((word_of_nat (i OR 0x80) :: byte) AND 0x7F) = i" "(word_of_nat (i OR 0x80) :: byte) AND 0x80 \<noteq> 0"
    using assms by (simp_all add: octet_low_bits octet_high_bit bit_or_iff)
qed

lemma and_7F: "n AND 0x7F = n mod 128" for n :: nat
  using take_bit_eq_mask [of 7 n] by (simp add: take_bit_eq_mod mask_eq_exp_minus_1)

lemma encode_vbi_loop_eq:
  "encode_vbi_loop n =
     (if n < 128 then [word_of_nat n] else word_of_nat (n mod 128 OR 0x80) # encode_vbi_loop (n div 128))"
  by (subst encode_vbi_loop.simps) (auto simp: Let_def and_7F drop_bit_eq_div)

lemma encode_vbi_small: "n < 128 \<Longrightarrow> encode_vbi_loop n = [word_of_nat n]"
  by (subst encode_vbi_loop_eq) simp

lemma decode_vbi_loop_at:
  "n < 128 ^ Suc k \<Longrightarrow> m * 128 ^ k \<le> 128 ^ 3 \<Longrightarrow>
   decode_vbi_loop (encode_vbi_loop n @ rest) m v c = Inr (v + n * m, c + length (encode_vbi_loop n))"
proof (induction k arbitrary: n m v c)
  case 0
  then show ?case by (subst (1 2) encode_vbi_loop_eq) (simp add: Let_def vbi_group)
next
  case (Suc k)
  have m: "m \<le> 128 ^ 3"
    using Suc.prems(2) by (metis le_trans mult_le_mono2 mult.right_neutral one_le_numeral one_le_power)
  have IH: "decode_vbi_loop (encode_vbi_loop (n div 128) @ rest) (m * 128) (v + n mod 128 * m) (c + 1) =
      Inr (v + n mod 128 * m + n div 128 * (m * 128), c + 1 + length (encode_vbi_loop (n div 128)))"
    using Suc.prems by (intro Suc.IH) (auto simp: less_mult_imp_div_less mult.commute ac_simps)
  have "n mod 128 * m + n div 128 * (m * 128) = n * m"
    using mod_div_mult_eq [of n 128] by (metis add_mult_distrib mult.assoc mult.commute)
  then have sum: "v + n mod 128 * m + n div 128 * (m * 128) = v + n * m" by simp
  show ?case
  proof (cases "n < 128")
    case True
    then show ?thesis using m by (subst (1 2) encode_vbi_loop_eq) (simp add: Let_def vbi_group)
  next
    case False
    then show ?thesis
      using m IH sum by (subst (1 2) encode_vbi_loop_eq) (simp add: Let_def vbi_group)
  qed
qed

lemma decode_vbi_at [reads]:
  "encode_variable_byte_integer n = Inr b \<Longrightarrow> decode_variable_byte_integer (b @ rest) = Inr (n, length b)"
  using decode_vbi_loop_at [of n 3 1 rest 0 0]
  by (auto simp: encode_variable_byte_integer_def decode_variable_byte_integer_def split: if_splits)

lemma encode_vbi_ne [simp]: "encode_vbi_loop n \<noteq> []"
  by (subst encode_vbi_loop_eq) simp

lemma decode_binary_at [reads]:
  assumes "encode_binary b = Inr bs" and "drop pos data = bs @ rest"
  shows "decode_binary data pos = Inr (b, pos + length bs)"
proof -
  from assms(1) have b: "length b < 256 ^ 2" "bs = to_be 2 (length b) @ b"
    by (auto simp: encode_binary_def andThen_eq_Inr_iff)
  with assms(2) have at: "drop pos data = to_be 2 (length b) @ b @ rest" by simp
  moreover have "drop (pos + 2) data = b @ rest" using drop_at [OF at] by simp
  moreover have "length data = pos + 2 + length b + length rest"
    using length_at [OF assms(2)] b by (auto simp: to_be_2)
  ultimately show ?thesis
    using from_be_at [OF at b(1)] slice_at [of "pos + 2" data b rest] b
    by (simp add: decode_binary_def Let_def ac_simps)
qed

lemma decode_utf8_at [reads]:
  assumes "encode_utf8_field s = Inr bs" and "drop pos data = bs @ rest"
  shows "decode_utf8_field data pos = Inr (s, pos + length bs)"
proof -
  from assms(1) obtain raw where raw: "utf8_encode s = Some raw" "encode_binary raw = Inr bs"
    by (auto simp: encode_utf8_field_def encode_binary_def split: option.splits)
  then show ?thesis
    using decode_binary_at [OF raw(2) assms(2)] utf8_decode_encode by (simp add: decode_utf8_field_def)
qed

lemma encode_binary_ne: "encode_binary b = Inr bs \<Longrightarrow> bs \<noteq> []"
  by (auto simp: encode_binary_def andThen_eq_Inr_iff to_be_2)

lemma encode_utf8_ne: "encode_utf8_field s = Inr bs \<Longrightarrow> bs \<noteq> []"
  by (auto simp: encode_utf8_field_def andThen_eq_Inr_iff to_be_2 split: option.splits)

subsection \<open>Properties\<close>

text \<open>What the encoder keeps of a value: an octet is one octet, a list of pairs is not empty.\<close>

fun prop_fits :: "string \<times> prop_value \<Rightarrow> bool" where
  "prop_fits (key, v) =
     (case prop_by_key key of
        None \<Rightarrow> False
      | Some (_, WByte) \<Rightarrow> (case v of PInt n \<Rightarrow> n < 256 | _ \<Rightarrow> False)
      | Some (_, WPair) \<Rightarrow> v \<noteq> PPairs []
      | Some _ \<Rightarrow> True)"

definition props_fit :: "props \<Rightarrow> bool" where
  "props_fit ps = (dict_ok ps \<and> list_all prop_fits ps)"

lemma prop_ids: "list_all (\<lambda>(i, n, k, w). prop_by_id i = Some (k, w) \<and> i < 256) PROPERTY_SPECS"
  by code_simp

lemma prop_by_id_of_key: "prop_by_key key = Some (pid, wt) \<Longrightarrow> prop_by_id pid = Some (key, wt) \<and> pid < 256"
  using prop_ids by (auto simp: prop_by_key_def list_all_iff dest!: map_of_SomeD)

lemma and_FF: "n AND 0xFF = n mod 256" for n :: nat
  using take_bit_eq_mask [of 8 n] by (simp add: take_bit_eq_mod mask_eq_exp_minus_1)

lemma octet_of_nat [simp]: "n < 256 \<Longrightarrow> unat (word_of_nat n :: byte) = n"
  by (simp add: unat_of_nat take_bit_nat_eq_self)

lemma decode_prop_value_at [reads]:
  assumes "encode_prop_value wt v = Inr bs" and "drop pos data = bs @ rest" and "pos + length bs \<le> stop"
    and "\<And>n. wt = WByte \<Longrightarrow> v = PInt n \<Longrightarrow> n < 256"
  shows "decode_prop_value wt data pos stop = Inr (v, pos + length bs)"
proof (cases "(wt, v)" rule: encode_prop_value.cases)
  case (1 n)
  then show ?thesis using assms index_at [of pos data "word_of_nat n" rest] by (auto simp: and_FF)
next
  case (4 n)
  have "slice data pos stop = bs @ take (stop - pos - length bs) rest"
    using assms(2,3) by (simp add: slice_def)
  with 4 assms(1) show ?thesis by (simp add: decode_vbi_at)
next
  case (2 n)
  then show ?thesis using assms from_be_at [of pos data 2 n rest] by auto
qed (use assms in \<open>auto simp: decode_utf8_at decode_binary_at from_be_at\<close>)

lemma dict_set_last: "k \<notin> fst ` set d \<Longrightarrow> dict_set k v (d @ [(k, w)]) = d @ [(k, v)]"
  by (induction d) auto

lemma dict_get_last: "k \<notin> fst ` set d \<Longrightarrow> dict_get (d @ [(k, w)]) k = Some w"
  by (induction d) auto

lemma append_pair_fresh: "k \<notin> fst ` set d \<Longrightarrow> append_pair k kv d = d @ [(k, PPairs [kv])]"
  using map_of_eq_None_iff [of d k] by (simp add: append_pair_def dict_set_fresh)

lemma append_pair_last:
  "k \<notin> fst ` set d \<Longrightarrow> append_pair k kv (d @ [(k, PPairs kvs)]) = d @ [(k, PPairs (kvs @ [kv]))]"
  using dict_get_last [of k d] by (simp add: append_pair_def dict_set_last del: map_of_append)

lemma decode_pair_at:
  assumes "prop_by_key key = Some (pid, WPair)" and "encode_utf8_field k = Inr kb" and "encode_utf8_field v = Inr vb"
    and "drop pos data = word_of_nat pid # kb @ vb @ rest" and "pos < stop"
  shows "decode_props_loop data pos stop ps =
    decode_props_loop data (pos + 1 + length kb + length vb) stop (append_pair key (k, v) ps)"
proof -
  have k: "drop (pos + 1) data = kb @ vb @ rest"
    using drop_at [of pos data "[word_of_nat pid]"] assms(4) by simp
  then have v: "drop (pos + 1 + length kb) data = vb @ rest" by (rule drop_at)
  have "decode_prop data pos stop ps = Inr (append_pair key (k, v) ps, pos + 1 + length kb + length vb)"
    using decode_utf8_at [OF assms(2) k] decode_utf8_at [OF assms(3) v] index_at [OF assms(4)]
      prop_by_id_of_key [OF assms(1)]
    by (simp add: decode_prop_def)
  with assms(5) show ?thesis by (subst decode_props_loop.simps) simp
qed

lemma decode_pairs_at:
  assumes "prop_by_key key = Some (pid, WPair)" and "key \<notin> fst ` set ps"
  shows "encode_pairs pid kvs = Inr b \<Longrightarrow> drop pos data = b @ rest \<Longrightarrow> pos + length b \<le> stop \<Longrightarrow>
    decode_props_loop data pos stop (ps @ [(key, PPairs kvs0)]) =
    decode_props_loop data (pos + length b) stop (ps @ [(key, PPairs (kvs0 @ kvs))])"
proof (induction kvs arbitrary: pos b kvs0)
  case (Cons kv kvs)
  from Cons.prems(1) obtain kb vb b' where
    b: "encode_utf8_field (fst kv) = Inr kb" "encode_utf8_field (snd kv) = Inr vb" "encode_pairs pid kvs = Inr b'"
      "b = word_of_nat pid # kb @ vb @ b'"
    by (cases kv) (auto simp: andThen_eq_Inr_iff)
  have "drop (pos + 1 + length kb + length vb) data = b' @ rest"
    using drop_at [of pos data "word_of_nat pid # kb @ vb"] Cons.prems(2) b by (simp add: ac_simps)
  then show ?case
    using decode_pair_at [OF assms(1) b(1,2), of pos data "b' @ rest" stop] Cons.prems(2,3) b
      Cons.IH [OF b(3), of "pos + 1 + length kb + length vb" "kvs0 @ [kv]"]
    by (simp add: append_pair_last [OF assms(2)] ac_simps)
qed simp

lemma decode_value_at:
  assumes "prop_by_key key = Some (pid, wt)" and "wt \<noteq> WPair" and "encode_prop_value wt v = Inr b"
    and "drop pos data = word_of_nat pid # b @ rest" and "pos + 1 + length b \<le> stop"
    and "\<And>n. wt = WByte \<Longrightarrow> v = PInt n \<Longrightarrow> n < 256"
  shows "decode_props_loop data pos stop ps = decode_props_loop data (pos + 1 + length b) stop (dict_set key v ps)"
proof -
  have "drop (pos + 1) data = b @ rest"
    using drop_at [of pos data "[word_of_nat pid]"] assms(4) by simp
  from decode_prop_value_at [OF assms(3) this assms(5)] assms(6)
  have "decode_prop_value wt data (pos + 1) stop = Inr (v, pos + 1 + length b)" by simp
  then have "decode_prop data pos stop ps = Inr (dict_set key v ps, pos + 1 + length b)"
    using assms(2) index_at [OF assms(4)] prop_by_id_of_key [OF assms(1)] by (simp add: decode_prop_def)
  with assms(5) show ?thesis by (subst decode_props_loop.simps) simp
qed

lemma decode_props_loop_at:
  "encode_props_body ps = Inr b \<Longrightarrow> drop pos data = b @ rest \<Longrightarrow> list_all prop_fits ps \<Longrightarrow>
   dict_ok (ps0 @ ps) \<Longrightarrow> stop = pos + length b \<Longrightarrow> decode_props_loop data pos stop ps0 = Inr (ps0 @ ps)"
proof (induction ps arbitrary: pos b ps0)
  case Nil
  then show ?case by (subst decode_props_loop.simps) simp
next
  case (Cons p ps)
  obtain key v where p: "p = (key, v)" by (cases p)
  from Cons.prems(1) obtain pid wt where key: "prop_by_key key = Some (pid, wt)"
    by (auto simp: p split: option.splits)
  from Cons.prems(4) have fresh: "key \<notin> fst ` set ps0" by (auto simp: p)
  have step: "decode_props_loop data (pos + length c) stop (ps0 @ [p]) = Inr (ps0 @ p # ps)"
    if "b = c @ d" and "encode_props_body ps = Inr d" for c d
  proof -
    have "drop (pos + length c) data = d @ rest" using drop_at [of pos data c] Cons.prems(2) that by simp
    from Cons.IH [OF that(2) this, of "ps0 @ [p]"] Cons.prems(3-5) that(1) show ?thesis by simp
  qed
  show ?case
  proof (cases "wt = WPair")
    case True
    with Cons.prems(1) key obtain kvs' c d where
      v: "v = PPairs kvs'" and c: "encode_pairs pid kvs' = Inr c" "encode_props_body ps = Inr d" "b = c @ d"
      by (cases v) (auto simp: p andThen_eq_Inr_iff)
    from Cons.prems(3) key True have "kvs' \<noteq> []" by (simp add: p v)
    then obtain kv kvs where kvs: "kvs' = kv # kvs" by (cases kvs') auto
    from c(1) obtain kb vb c' where
      kv: "encode_utf8_field (fst kv) = Inr kb" "encode_utf8_field (snd kv) = Inr vb" "encode_pairs pid kvs = Inr c'"
        "c = word_of_nat pid # kb @ vb @ c'"
      by (cases kv) (auto simp: kvs andThen_eq_Inr_iff)
    have at: "drop (pos + 1 + length kb + length vb) data = c' @ d @ rest"
      using drop_at [of pos data "word_of_nat pid # kb @ vb"] Cons.prems(2) c kv by (simp add: ac_simps)
    have key': "prop_by_key key = Some (pid, WPair)" using key True by simp
    have "decode_props_loop data pos stop ps0 =
        decode_props_loop data (pos + 1 + length kb + length vb) stop (ps0 @ [(key, PPairs [kv])])"
      using decode_pair_at [OF key' kv(1,2), of pos data "c' @ d @ rest" stop ps0] Cons.prems(2,5) c kv
      by (simp add: append_pair_fresh [OF fresh])
    also have "\<dots> = decode_props_loop data (pos + length c) stop (ps0 @ [p])"
      using decode_pairs_at [OF key' fresh kv(3) at, of stop "[kv]"] Cons.prems(5) c(3) kv(4)
      by (simp add: p v kvs add.assoc)
    finally show ?thesis using step [OF c(3,2)] by simp
  next
    case False
    with Cons.prems(1) key obtain c d where
      c: "encode_prop_value wt v = Inr c" "encode_props_body ps = Inr d" "b = (word_of_nat pid # c) @ d"
      by (auto simp: p andThen_eq_Inr_iff)
    have "n < 256" if "wt = WByte" "v = PInt n" for n using Cons.prems(3) key that by (simp add: p)
    moreover have "drop pos data = word_of_nat pid # c @ d @ rest" using Cons.prems(2) c(3) by simp
    moreover have "pos + 1 + length c \<le> stop" using Cons.prems(5) c(3) by simp
    ultimately have "decode_props_loop data pos stop ps0 = decode_props_loop data (pos + 1 + length c) stop (dict_set key v ps0)"
      using decode_value_at [OF key False c(1)] by blast
    with step [OF c(3,2)] show ?thesis by (simp add: p dict_set_fresh [OF fresh])
  qed
qed

lemma decode_properties_at [reads]:
  assumes "encode_properties ps = Inr b" and "drop pos data = b @ rest" and "props_fit ps"
  shows "decode_properties data pos = Inr (ps, length b)"
proof -
  from assms(1) obtain body l where
    b: "encode_props_body ps = Inr body" "encode_variable_byte_integer (length body) = Inr l" "b = l @ body"
    by (auto simp: encode_properties_def andThen_eq_Inr_iff)
  have at: "drop (pos + length l) data = body @ rest" using drop_at [of pos data l] assms(2) b by simp
  have "length data = pos + length b + length rest"
    using b length_at [OF assms(2)] by (auto simp: encode_variable_byte_integer_def split: if_splits)
  with decode_props_loop_at [OF b(1) at, of "[]"] assms(3) show ?thesis
    using decode_vbi_at [OF b(2), of "body @ rest"] assms(2) b
    by (simp add: decode_properties_def props_fit_def Let_def)
qed

lemma encode_properties_ne: "encode_properties ps = Inr b \<Longrightarrow> b \<noteq> []"
  by (auto simp: encode_properties_def andThen_eq_Inr_iff encode_variable_byte_integer_def split: if_splits)

subsection \<open>Packets\<close>

text \<open>
  The packets the wire format can carry: the constructor accepts them, numbers fit their fields, what
  an absent flag hides has its default, and a CONNECT is of protocol level 5, since the encoder writes
  the properties blocks of that level always.
\<close>

definition connect_fits :: "mqtt_connect \<Rightarrow> bool" where
  "connect_fits m =
     (mk_connect m = Inr (Connect m) \<and> proto_level m \<ge> 5 \<and> will_qos m < 4
      \<and> props_fit (c_properties m) \<and> props_fit (will_properties m)
      \<and> (will_topic m = None) = (will_payload m = None)
      \<and> (if will_topic m = None then will_qos m = 0 \<and> \<not> will_retain m \<and> will_properties m = [] else True))"

definition publish_fits :: "mqtt_publish \<Rightarrow> bool" where
  "publish_fits m =
     (mk_publish m = Inr (Publish m) \<and> qos m < 4 \<and> (qos m = 0) = (packet_id m = None) \<and> props_fit (p_properties m))"

fun reason_fits :: "nat option \<Rightarrow> props \<Rightarrow> bool" where
  "reason_fits None ps = (ps = [])"
| "reason_fits (Some c) ps = (c < 256 \<and> props_fit ps)"

fun message_fits :: "mqtt_message \<Rightarrow> bool" where
  "message_fits (Connect m) = connect_fits m"
| "message_fits (Connack sp rc ps) = (rc < 256 \<and> props_fit ps)"
| "message_fits (Publish m) = publish_fits m"
| "message_fits (Puback pid rc ps) = (rc < 256 \<and> props_fit ps)"
| "message_fits (Pubrec pid rc ps) = (rc < 256 \<and> props_fit ps)"
| "message_fits (Pubrel pid rc ps) = (rc < 256 \<and> props_fit ps)"
| "message_fits (Pubcomp pid rc ps) = (rc < 256 \<and> props_fit ps)"
| "message_fits (Subscribe pid subs ps sos) =
     (props_fit ps \<and> map snd subs = map so_qos sos \<and> list_all (\<lambda>so. so_qos so < 4 \<and> retain_handling so < 4) sos)"
| "message_fits (Suback pid codes ps) = (props_fit ps \<and> list_all (\<lambda>c. c < 256) codes)"
| "message_fits (Unsubscribe pid ts ps) = props_fit ps"
| "message_fits (Unsuback pid codes ps) = (props_fit ps \<and> list_all (\<lambda>c. c < 256) codes)"
| "message_fits (Disconnect rc ps) = reason_fits rc ps"
| "message_fits (Auth rc ps) = reason_fits rc ps"
| "message_fits _ = True"

lemma packet_head:
  assumes "t < 16" and "fl < 16"
  shows "drop_bit 4 (push_bit 4 t OR fl AND 0x0F) AND 0x0F = (t :: nat)"
    and "(push_bit 4 t OR fl AND 0x0F) AND 0x0F = (fl :: nat)"
    and "push_bit 4 t OR fl AND 0x0F < (256 :: nat)"
proof -
  have low: "n AND 0x0F = take_bit 4 n" for n :: nat
    using take_bit_eq_mask [of 4 n] by (simp add: mask_eq_exp_minus_1)
  have fl: "take_bit 4 fl = fl" "drop_bit 4 fl = 0" and t: "take_bit 4 t = t"
    using assms by (simp_all add: take_bit_nat_eq_self drop_bit_eq_div)
  show "drop_bit 4 (push_bit 4 t OR fl AND 0x0F) AND 0x0F = t"
    by (simp add: low fl t drop_bit_push_bit)
  show "(push_bit 4 t OR fl AND 0x0F) AND 0x0F = fl"
    by (simp add: low fl take_bit_push_bit)
  have "push_bit 4 t < (2 ^ 8 :: nat)" "fl < 2 ^ 8" using assms by (simp_all add: push_bit_eq_mult)
  then have "take_bit 8 (push_bit 4 t OR fl) = push_bit 4 t OR fl"
    by (simp only: take_bit_or take_bit_nat_eq_self)
  then show "push_bit 4 t OR fl AND 0x0F < (256 :: nat)"
    by (simp only: low fl take_bit_nat_eq_self_iff) simp
qed

lemma decode_packet_frame:
  assumes "mqtt_frame t fl body = Inr bs" and "0 < t" and "t < 16" and "fl < 16"
    and "t = T_PUBLISH \<or> fl = expected_flags t" and "decode_body t body fl = Inr m"
  shows "decode_packet (bs @ rest) = Inr (m, length bs)"
proof -
  from assms(1) obtain l where
    l: "encode_variable_byte_integer (length body) = Inr l" "bs = word_of_nat (push_bit 4 t OR (fl AND 0x0F)) # l @ body"
    by (auto simp: mqtt_frame_def andThen_eq_Inr_iff)
  moreover have "l \<noteq> []" using l(1) by (auto simp: encode_variable_byte_integer_def split: if_splits)
  moreover have "slice (bs @ rest) (1 + length l) (1 + length l + length body) = body"
    using l(2) by (simp add: slice_def)
  ultimately show ?thesis
    using assms(2-6) decode_vbi_at [OF l(1), of "body @ rest"] packet_head [OF assms(3,4)]
    by (auto simp: decode_packet_def Let_def Suc_le_eq)
qed

text \<open>The bodies, one packet at a time.\<close>

lemma decode_level_properties_at:
  assumes "encode_properties ps = Inr b" and "drop pos data = b @ rest" and "props_fit ps" and "level \<ge> 5"
  shows "decode_level_properties level data pos = Inr (ps, pos + length b)"
  using decode_properties_at [OF assms(1-3)] assms(4) by (simp add: decode_level_properties_def)

lemma encode_opt_None [simp]: "encode_opt f None = Inr []"
  by (simp add: encode_opt_def)

lemma encode_opt_Some [simp]: "encode_opt f (Some x) = f x"
  by (simp add: encode_opt_def)

lemma decode_opt_at:
  assumes "encode_opt enc x = Inr b" and "drop pos data = b @ rest" and "present = (x \<noteq> None)"
    and "\<And>y. x = Some y \<Longrightarrow> enc y = Inr b \<Longrightarrow> dec data pos = Inr (g y, pos + length b)"
  shows "decode_opt present dec data pos = Inr (map_option g x, pos + length b)"
  using assms by (cases x) (auto simp: decode_opt_def)

definition will_of :: "mqtt_connect \<Rightarrow> (props \<times> pystr \<times> bytes) option" where
  "will_of m = (case (will_topic m, will_payload m) of (Some t, Some b) \<Rightarrow> Some (will_properties m, t, b) | _ \<Rightarrow> None)"

lemma decode_will_at:
  assumes "encode_will m = Inr b" and "drop pos data = b @ rest" and "connect_fits m"
    and "present = (will_topic m \<noteq> None)"
  shows "decode_opt present (decode_will (proto_level m)) data pos = Inr (will_of m, pos + length b)"
proof (cases "will_topic m")
  case None
  then show ?thesis using assms by (simp add: encode_will_def decode_opt_def will_of_def)
next
  case (Some t)
  with assms(3) obtain w where w: "will_payload m = Some w" by (auto simp: connect_fits_def)
  from assms(1) Some w obtain p tb wb where
    b: "encode_properties (will_properties m) = Inr p" "encode_utf8_field t = Inr tb" "encode_binary w = Inr wb"
      "b = p @ tb @ wb"
    by (auto simp: encode_will_def andThen_eq_Inr_iff)
  from assms(2) b have at: "drop pos data = p @ tb @ wb @ rest" by simp
  from drop_at [OF at] have at2: "drop (pos + length p) data = tb @ wb @ rest" .
  from drop_at [OF at2] have at3: "drop (pos + length p + length tb) data = wb @ rest" .
  have fit: "props_fit (will_properties m)" "proto_level m \<ge> 5" using assms(3) by (simp_all add: connect_fits_def)
  show ?thesis
    using decode_level_properties_at [OF b(1) at fit] decode_utf8_at [OF b(2) at2] decode_binary_at [OF b(3) at3]
      assms(4) Some w b(4)
    by (simp add: decode_will_def decode_opt_def will_of_def add.assoc)
qed

lemma connect_flags_bits:
  assumes "will_qos m < 4"
  shows "connect_flags m AND 0x02 \<noteq> 0 \<longleftrightarrow> clean_start m"
    and "connect_flags m AND 0x04 \<noteq> 0 \<longleftrightarrow> will_topic m \<noteq> None"
    and "connect_flags m AND 0x20 \<noteq> 0 \<longleftrightarrow> will_topic m \<noteq> None \<and> will_retain m"
    and "connect_flags m AND 0x40 \<noteq> 0 \<longleftrightarrow> password m \<noteq> None"
    and "connect_flags m AND 0x80 \<noteq> 0 \<longleftrightarrow> username m \<noteq> None"
    and "drop_bit 3 (connect_flags m) AND 0x03 = (if will_topic m \<noteq> None then will_qos m else 0)"
    and "connect_flags m < 256"
proof -
  from assms consider "will_qos m = 0" | "will_qos m = 1" | "will_qos m = 2" | "will_qos m = 3" by linarith
  note qos_cases = this
  show "connect_flags m AND 0x02 \<noteq> 0 \<longleftrightarrow> clean_start m"
    by (rule qos_cases) (auto simp: connect_flags_def Let_def)
  show "connect_flags m AND 0x04 \<noteq> 0 \<longleftrightarrow> will_topic m \<noteq> None"
    by (rule qos_cases) (auto simp: connect_flags_def Let_def)
  show "connect_flags m AND 0x20 \<noteq> 0 \<longleftrightarrow> will_topic m \<noteq> None \<and> will_retain m"
    by (rule qos_cases) (auto simp: connect_flags_def Let_def)
  show "connect_flags m AND 0x40 \<noteq> 0 \<longleftrightarrow> password m \<noteq> None"
    by (rule qos_cases) (auto simp: connect_flags_def Let_def)
  show "connect_flags m AND 0x80 \<noteq> 0 \<longleftrightarrow> username m \<noteq> None"
    by (rule qos_cases) (auto simp: connect_flags_def Let_def)
  show "drop_bit 3 (connect_flags m) AND 0x03 = (if will_topic m \<noteq> None then will_qos m else 0)"
    by (rule qos_cases) (auto simp: connect_flags_def Let_def)
  show "connect_flags m < 256"
    by (rule qos_cases) (auto simp: connect_flags_def Let_def)
qed

lemma decode_connect_fields:
  assumes "encode_utf8_field nm = Inr name" and "lv < 256" and "fl < 256" and "ka < 256 ^ 2"
    and "body = name @ word_of_nat lv # word_of_nat fl # to_be 2 ka @ tail"
  shows "decode_connect body =
    (let pos = length name + 4
     in andThen (decode_level_properties lv body pos) (\<lambda>(ps, pos).
        andThen (decode_utf8_field body pos) (\<lambda>(cid, pos).
        andThen (decode_opt (fl AND 0x04 \<noteq> 0) (decode_will lv) body pos) (\<lambda>(will, pos).
        andThen (decode_opt (fl AND 0x80 \<noteq> 0) decode_utf8_field body pos) (\<lambda>(user, pos).
        andThen (decode_opt (fl AND 0x40 \<noteq> 0) decode_binary body pos) (\<lambda>(pw, pos).
          mk_connect
            \<lparr>client_id = cid, clean_start = (fl AND 0x02 \<noteq> 0), keep_alive = ka, proto_level = lv,
             username = user, password = pw, will_topic = map_option (fst \<circ> snd) will,
             will_payload = map_option (snd \<circ> snd) will, will_qos = drop_bit 3 fl AND 0x03,
             will_retain = (fl AND 0x20 \<noteq> 0),
             will_properties = (case will of None \<Rightarrow> [] | Some (wp, _) \<Rightarrow> wp), c_properties = ps\<rparr>))))))"
proof -
  have name: "decode_utf8_field body 0 = Inr (nm, length name)"
    using decode_utf8_at [OF assms(1), of 0 body "word_of_nat lv # word_of_nat fl # to_be 2 ka @ tail"] assms(5) by simp
  have "body ! length name = word_of_nat lv" "body ! Suc (length name) = word_of_nat fl"
    by (simp_all add: assms(5) nth_append)
  moreover have "from_be (slice body (length name + 2) (length name + 2 + 2)) = ka"
    using assms(4,5) by (intro from_be_at [where rest = tail]) simp_all
  then have "from_be (slice body (length name + 2) (length name + 4)) = ka"
    by (simp only: add.assoc numeral_plus_numeral add_num_simps)
  moreover have "length name + 4 \<le> length body" by (simp add: assms(5))
  ultimately show ?thesis
    using name assms(2,3) by (simp add: decode_connect_def Let_def)
qed

lemma will_of_fields:
  assumes "connect_fits m"
  shows "map_option (fst \<circ> snd) (will_of m) = will_topic m" "map_option (snd \<circ> snd) (will_of m) = will_payload m"
    "(case will_of m of None \<Rightarrow> [] | Some (wp, _) \<Rightarrow> wp) = will_properties m"
    "(if will_topic m \<noteq> None then will_qos m else 0) = will_qos m"
    "(will_topic m \<noteq> None \<and> will_retain m) = will_retain m"
  using assms by (auto simp: connect_fits_def will_of_def split: option.splits if_splits)

lemma decode_connect_at:
  assumes "encode_connect m = Inr bs" and "connect_fits m"
  shows "\<exists>body. mqtt_frame T_CONNECT 0 body = Inr bs \<and> decode_connect body = Inr (Connect m)"
proof -
  have fits: "will_qos m < 4" "proto_level m \<ge> 5" "props_fit (c_properties m)" "mk_connect m = Inr (Connect m)"
    using assms(2) by (simp_all add: connect_fits_def)
  note bits = connect_flags_bits [OF fits(1)]
  from assms(1) bits(7) obtain name p cid will user pw body where
    e: "encode_utf8_field (str ''MQTT'') = Inr name" "proto_level m < 256" "keep_alive m < 256 ^ 2"
      "encode_properties (c_properties m) = Inr p" "encode_utf8_field (client_id m) = Inr cid"
      "encode_will m = Inr will" "encode_opt encode_utf8_field (username m) = Inr user"
      "encode_opt encode_binary (password m) = Inr pw"
    and body: "body = name @ word_of_nat (proto_level m) # word_of_nat (connect_flags m) # to_be 2 (keep_alive m) @
        p @ cid @ will @ user @ pw"
    and frame: "mqtt_frame T_CONNECT 0 body = Inr bs"
    unfolding encode_connect_def andThen_eq_Inr_iff byte_of_def to_bytes_Inr
    by (auto split: if_splits)
  define pos where "pos = length name + 4"
  have a1: "drop pos body = p @ cid @ will @ user @ pw" by (simp add: body pos_def)
  note a2 = drop_at [OF a1]
  note a3 = drop_at [OF a2]
  note a4 = drop_at [OF a3]
  have a5: "drop (pos + length p + length cid + length will + length user) body = pw @ []" using drop_at [OF a4] by simp
  have user: "decode_opt (connect_flags m AND 0x80 \<noteq> 0) decode_utf8_field body (pos + length p + length cid + length will) =
      Inr (username m, pos + length p + length cid + length will + length user)"
    using decode_opt_at [OF e(7) a4 bits(5), where g = id] decode_utf8_at [OF _ a4] by (simp add: option.map_id)
  have pw: "decode_opt (connect_flags m AND 0x40 \<noteq> 0) decode_binary body (pos + length p + length cid + length will + length user) =
      Inr (password m, pos + length p + length cid + length will + length user + length pw)"
    using decode_opt_at [OF e(8) a5 bits(4), where g = id] decode_binary_at [OF _ a5] by (simp add: option.map_id)
  have "decode_connect body = mk_connect m"
    unfolding decode_connect_fields [OF e(1,2) bits(7) e(3) body] pos_def [symmetric] Let_def
    using decode_level_properties_at [OF e(4) a1 fits(3,2)] decode_utf8_at [OF e(5) a2]
      decode_will_at [OF e(6) a3 assms(2) bits(2)] user pw bits will_of_fields [OF assms(2)]
    by simp (rule arg_cong [where f = mk_connect], simp)
  with fits(4) frame show ?thesis by auto
qed

lemma decode_connack_at:
  assumes "encode_connack sp rc ps = Inr bs" and "rc < 256" and "props_fit ps"
  shows "\<exists>body. mqtt_frame T_CONNACK 0 body = Inr bs \<and> decode_connack body = Inr (Connack sp rc ps)"
proof -
  from assms(1) obtain p where
    p: "encode_properties ps = Inr p"
      "mqtt_frame T_CONNACK 0 ((if sp then 0x01 else 0x00) # word_of_nat (rc AND 0xFF) # p) = Inr bs"
    by (auto simp: encode_connack_def andThen_eq_Inr_iff)
  let ?body = "(if sp then 0x01 else 0x00) # word_of_nat (rc AND 0xFF) # p"
  have "decode_properties ?body 2 = Inr (ps, length p)"
    using decode_properties_at [OF p(1), of 2 ?body "[]"] assms(3) by simp
  then have "decode_connack ?body = Inr (Connack sp rc ps)"
    using assms(2) by (auto simp: decode_connack_def index_def and_FF)
  with p(2) show ?thesis by blast
qed

lemma publish_flags_bits:
  assumes "qos m < 4"
  shows "decode_publish_flags (publish_flags m) = (qos m, dup m, retain m)" and "publish_flags m < 16"
proof -
  from assms consider "qos m = 0" | "qos m = 1" | "qos m = 2" | "qos m = 3" by linarith
  note qos_cases = this
  show "decode_publish_flags (publish_flags m) = (qos m, dup m, retain m)"
    by (rule qos_cases) (auto simp: decode_publish_flags_def publish_flags_def Let_def)
  show "publish_flags m < 16" by (rule qos_cases) (auto simp: publish_flags_def Let_def)
qed

lemma decode_publish_at:
  assumes "encode_publish m = Inr bs" and "publish_fits m"
  shows "\<exists>body. mqtt_frame T_PUBLISH (publish_flags m) body = Inr bs \<and>
    decode_publish body (publish_flags m) = Inr (Publish m)"
proof -
  have fits: "qos m < 4" "props_fit (p_properties m)" "mk_publish m = Inr (Publish m)"
    "(qos m = 0) = (packet_id m = None)"
    using assms(2) by (simp_all add: publish_fits_def)
  from assms(1) obtain t i p where
    e: "encode_utf8_field (topic m) = Inr t" "encode_properties (p_properties m) = Inr p"
    and i: "(if qos m > 0 then to_bytes 2 (case packet_id m of None \<Rightarrow> 0 | Some i \<Rightarrow> i) else Inr []) = Inr i"
    and frame: "mqtt_frame T_PUBLISH (publish_flags m) (t @ i @ p @ payload m) = Inr bs"
    by (auto simp: encode_publish_def andThen_eq_Inr_iff)
  define body where "body = t @ i @ p @ payload m"
  have a1: "drop 0 body = t @ i @ p @ payload m" by (simp add: body_def)
  have a2: "drop (length t) body = i @ p @ payload m" by (simp add: body_def)
  note a3 = drop_at [OF a2]
  note a4 = drop_at [OF a3]
  have pid: "(if 0 < qos m then (Some (from_be (slice body (length t) (length t + 2))), length t + 2)
      else (None, length t)) = (packet_id m, length t + length i)"
  proof (cases "packet_id m")
    case None
    with i fits(4) show ?thesis by simp
  next
    case (Some n)
    with i fits(4) have "i = to_be 2 n" "n < 256 ^ 2" by simp_all
    with from_be_at [of "length t" body 2 n] a2 Some fits(4) show ?thesis by simp
  qed
  have "decode_publish body (publish_flags m) = mk_publish m"
    using decode_utf8_at [OF e(1) a1] decode_properties_at [OF e(2) a3 fits(2)] a4
    by (simp add: decode_publish_def publish_flags_bits [OF fits(1)] pid)
      (rule arg_cong [where f = mk_publish], simp)
  with fits(3) frame show ?thesis by (auto simp: body_def)
qed

lemma decode_packet_id_ack_at:
  assumes "encode_packet_id_ack t pid rc ps = Inr bs" and "rc < 256" and "props_fit ps"
  shows "\<exists>body. mqtt_frame t (if t = T_PUBREL then RESERVED_FLAGS_0010 else 0) body = Inr bs \<and>
    decode_packet_id_ack cls body = Inr (cls pid rc ps)"
proof -
  from assms(1) obtain p where
    p: "encode_properties ps = Inr p" "pid < 256 ^ 2"
      "mqtt_frame t (if t = T_PUBREL then RESERVED_FLAGS_0010 else 0) (to_be 2 pid @ word_of_nat (rc AND 0xFF) # p) = Inr bs"
    by (auto simp: encode_packet_id_ack_def andThen_eq_Inr_iff)
  define body where "body = to_be 2 pid @ word_of_nat (rc AND 0xFF) # p"
  have "from_be (slice body 0 2) = pid" using p(2) by (simp add: body_def slice_def)
  moreover have "decode_properties body 3 = Inr (ps, length p)"
    using decode_properties_at [OF p(1), of 3 body "[]"] assms(3) by (simp add: body_def)
  moreover have "index body 2 = Inr rc" using assms(2) by (simp add: body_def index_def nth_append and_FF)
  moreover have "p \<noteq> []" using encode_properties_ne [OF p(1)] .
  ultimately have "decode_packet_id_ack cls body = Inr (cls pid rc ps)"
    by (simp add: decode_packet_id_ack_def Let_def body_def)
  with p(3) show ?thesis by (auto simp: body_def)
qed

lemma options_byte_bits:
  assumes "so_qos so < 4" and "retain_handling so < 4" and "n = options_byte (so_qos so) (Some so)"
  shows "\<lparr>so_qos = n AND 0x03, no_local = (n AND 0x04 \<noteq> 0), retain_as_published = (n AND 0x08 \<noteq> 0),
      retain_handling = drop_bit 4 n AND 0x03\<rparr> = so" and "n AND 0x03 = so_qos so" and "n < 256"
proof -
  from assms(1) consider "so_qos so = 0" | "so_qos so = 1" | "so_qos so = 2" | "so_qos so = 3" by linarith
  note qos_cases = this
  from assms(2) consider "retain_handling so = 0" | "retain_handling so = 1" | "retain_handling so = 2"
    | "retain_handling so = 3" by linarith
  note handling_cases = this
  show "\<lparr>so_qos = n AND 0x03, no_local = (n AND 0x04 \<noteq> 0), retain_as_published = (n AND 0x08 \<noteq> 0),
      retain_handling = drop_bit 4 n AND 0x03\<rparr> = so"
    by (rule qos_cases; rule handling_cases) (auto simp: assms(3) options_byte_def Let_def)
  show "n AND 0x03 = so_qos so" "n < 256"
    by (rule qos_cases; rule handling_cases; auto simp: assms(3) options_byte_def Let_def)+
qed

lemma decode_subscriptions_at:
  "encode_subscriptions subs sos = Inr b \<Longrightarrow> map snd subs = map so_qos sos \<Longrightarrow>
   list_all (\<lambda>so. so_qos so < 4 \<and> retain_handling so < 4) sos \<Longrightarrow> drop pos body = b \<Longrightarrow>
   decode_subscriptions body pos = Inr (zip subs sos)"
proof (induction subs arbitrary: sos b pos)
  case Nil
  then show ?case by (subst decode_subscriptions.simps) simp
next
  case (Cons sub subs)
  obtain f so sos' where sos: "sub = (f, so_qos so)" "sos = so # sos'" using Cons.prems(2) by (cases sub; cases sos) auto
  from Cons.prems(1) obtain fb b' n where
    b: "encode_utf8_field f = Inr fb" "encode_subscriptions subs sos' = Inr b'" "n = options_byte (so_qos so) (Some so)"
      "b = fb @ word_of_nat n # b'"
    by (auto simp: sos andThen_eq_Inr_iff)
  have n: "so_qos so < 4" "retain_handling so < 4" using Cons.prems(3) by (simp_all add: sos)
  note bits = options_byte_bits [OF n b(3)]
  have a1: "drop pos body = fb @ word_of_nat n # b'" using Cons.prems(4) b(4) by simp
  note a2 = drop_at [OF a1]
  have a3: "drop (pos + length fb + 1) body = b'" using drop_at [of "pos + length fb" body "[word_of_nat n]"] a2 by simp
  have "pos < length body" using length_at [OF a1] encode_utf8_ne [OF b(1)] by (cases fb) auto
  then show ?case
    using decode_utf8_at [OF b(1) a1] index_at [OF a2] bits Cons.IH [OF b(2) _ _ a3] Cons.prems(2,3)
    by (subst decode_subscriptions.simps) (simp add: sos)
qed

lemma decode_subscribe_at:
  assumes "encode_subscribe pid subs ps sos = Inr bs" and "message_fits (Subscribe pid subs ps sos)"
  shows "\<exists>body. mqtt_frame T_SUBSCRIBE RESERVED_FLAGS_0010 body = Inr bs \<and>
    decode_subscribe body = Inr (Subscribe pid subs ps sos)"
proof -
  from assms(1) obtain p b where
    e: "encode_properties ps = Inr p" "encode_subscriptions subs sos = Inr b" "pid < 256 ^ 2"
      "mqtt_frame T_SUBSCRIBE RESERVED_FLAGS_0010 (to_be 2 pid @ p @ b) = Inr bs"
    by (auto simp: encode_subscribe_def andThen_eq_Inr_iff)
  define body where "body = to_be 2 pid @ p @ b"
  have "from_be (slice body 0 2) = pid" using e(3) by (simp add: body_def slice_def)
  moreover have "decode_properties body 2 = Inr (ps, length p)"
    using decode_properties_at [OF e(1), of 2 body b] assms(2) by (simp add: body_def)
  moreover have "decode_subscriptions body (2 + length p) = Inr (zip subs sos)"
    using assms(2) by (intro decode_subscriptions_at [OF e(2)]) (simp_all add: body_def)
  moreover have "length subs = length sos" using assms(2) map_eq_imp_length_eq by auto
  ultimately have "decode_subscribe body = Inr (Subscribe pid subs ps sos)"
    by (simp add: decode_subscribe_def)
  with e(4) show ?thesis by (auto simp: body_def)
qed

lemma decode_topics_at:
  "encode_topics ts = Inr b \<Longrightarrow> drop pos body = b \<Longrightarrow> decode_topics body pos = Inr ts"
proof (induction ts arbitrary: b pos)
  case Nil
  then show ?case by (subst decode_topics.simps) simp
next
  case (Cons t ts)
  from Cons.prems(1) obtain tb b' where
    b: "encode_utf8_field t = Inr tb" "encode_topics ts = Inr b'" "b = tb @ b'"
    by (auto simp: andThen_eq_Inr_iff)
  have a1: "drop pos body = tb @ b'" using Cons.prems(2) b(3) by simp
  have "pos < length body" using length_at [OF a1] encode_utf8_ne [OF b(1)] by (cases tb) auto
  then show ?case
    using decode_utf8_at [OF b(1) a1] Cons.IH [OF b(2) drop_at [OF a1]]
    by (subst decode_topics.simps) simp
qed

lemma decode_unsubscribe_at:
  assumes "encode_unsubscribe pid ts ps = Inr bs" and "props_fit ps"
  shows "\<exists>body. mqtt_frame T_UNSUBSCRIBE RESERVED_FLAGS_0010 body = Inr bs \<and>
    decode_unsubscribe body = Inr (Unsubscribe pid ts ps)"
proof -
  from assms(1) obtain p b where
    e: "encode_properties ps = Inr p" "encode_topics ts = Inr b" "pid < 256 ^ 2"
      "mqtt_frame T_UNSUBSCRIBE RESERVED_FLAGS_0010 (to_be 2 pid @ p @ b) = Inr bs"
    by (auto simp: encode_unsubscribe_def andThen_eq_Inr_iff)
  define body where "body = to_be 2 pid @ p @ b"
  have "from_be (slice body 0 2) = pid" using e(3) by (simp add: body_def slice_def)
  moreover have "decode_properties body 2 = Inr (ps, length p)"
    using decode_properties_at [OF e(1), of 2 body b] assms(2) by (simp add: body_def)
  moreover have "decode_topics body (2 + length p) = Inr ts"
    by (intro decode_topics_at [OF e(2)]) (simp add: body_def)
  ultimately have "decode_unsubscribe body = Inr (Unsubscribe pid ts ps)"
    by (simp add: decode_unsubscribe_def)
  with e(4) show ?thesis by (auto simp: body_def)
qed

lemma decode_reason_codes_at:
  assumes "encode_reason_codes t pid codes ps = Inr bs" and "props_fit ps" and "list_all (\<lambda>c. c < 256) codes"
  shows "\<exists>body. mqtt_frame t 0 body = Inr bs \<and> decode_reason_codes cls body = Inr (cls pid codes ps)"
proof -
  from assms(1) obtain p where
    e: "encode_properties ps = Inr p" "pid < 256 ^ 2"
      "mqtt_frame t 0 (to_be 2 pid @ p @ map (\<lambda>c. word_of_nat (c AND 0xFF)) codes) = Inr bs"
    by (auto simp: encode_reason_codes_def andThen_eq_Inr_iff)
  define body where "body = to_be 2 pid @ p @ map (\<lambda>c. word_of_nat (c AND 0xFF)) codes"
  have "from_be (slice body 0 2) = pid" using e(2) by (simp add: body_def slice_def)
  moreover have "decode_properties body 2 = Inr (ps, length p)"
    using decode_properties_at [OF e(1), of 2 body "map (\<lambda>c. word_of_nat (c AND 0xFF)) codes"] assms(2)
    by (simp add: body_def)
  moreover have "map unat (drop (2 + length p) body) = codes"
    using assms(3) by (auto simp: body_def o_def and_FF list_all_iff intro: map_idI)
  ultimately have "decode_reason_codes cls body = Inr (cls pid codes ps)"
    by (simp add: decode_reason_codes_def)
  with e(3) show ?thesis by (auto simp: body_def)
qed

lemma decode_reason_and_props_at:
  assumes "encode_reason_and_props t rc ps = Inr bs" and "reason_fits rc ps"
  shows "\<exists>body. mqtt_frame t 0 body = Inr bs \<and> decode_reason_and_props cls body = Inr (cls rc ps)"
proof (cases rc)
  case None
  with assms show ?thesis by (auto simp: encode_reason_and_props_def decode_reason_and_props_def)
next
  case (Some c)
  with assms(1) obtain p where
    p: "encode_properties ps = Inr p" "mqtt_frame t 0 (word_of_nat (c AND 0xFF) # p) = Inr bs"
    by (auto simp: encode_reason_and_props_def andThen_eq_Inr_iff)
  have "decode_properties (word_of_nat (c AND 0xFF) # p) 1 = Inr (ps, length p)"
    using decode_properties_at [OF p(1), of 1 "word_of_nat (c AND 0xFF) # p" "[]"] assms(2) Some by simp
  moreover have "p \<noteq> []" using encode_properties_ne [OF p(1)] .
  ultimately have "decode_reason_and_props cls (word_of_nat (c AND 0xFF) # p) = Inr (cls rc ps)"
    using assms(2) Some by (simp add: decode_reason_and_props_def and_FF)
  with p(2) show ?thesis by blast
qed

fun head_of :: "mqtt_message \<Rightarrow> nat \<times> nat" where
  "head_of (Connect m) = (T_CONNECT, 0)"
| "head_of (Connack sp rc ps) = (T_CONNACK, 0)"
| "head_of (Publish m) = (T_PUBLISH, publish_flags m)"
| "head_of (Puback pid rc ps) = (T_PUBACK, 0)"
| "head_of (Pubrec pid rc ps) = (T_PUBREC, 0)"
| "head_of (Pubrel pid rc ps) = (T_PUBREL, RESERVED_FLAGS_0010)"
| "head_of (Pubcomp pid rc ps) = (T_PUBCOMP, 0)"
| "head_of (Subscribe pid subs ps sos) = (T_SUBSCRIBE, RESERVED_FLAGS_0010)"
| "head_of (Suback pid codes ps) = (T_SUBACK, 0)"
| "head_of (Unsubscribe pid ts ps) = (T_UNSUBSCRIBE, RESERVED_FLAGS_0010)"
| "head_of (Unsuback pid codes ps) = (T_UNSUBACK, 0)"
| "head_of Pingreq = (T_PINGREQ, 0)"
| "head_of Pingresp = (T_PINGRESP, 0)"
| "head_of (Disconnect rc ps) = (T_DISCONNECT, 0)"
| "head_of (Auth rc ps) = (T_AUTH, 0)"

definition framed :: "nat \<times> nat \<Rightarrow> bytes \<Rightarrow> mqtt_message \<Rightarrow> bool" where
  "framed head bs m =
     (case head of (t, fl) \<Rightarrow> 0 < t \<and> t < 16 \<and> fl < 16 \<and> (t = T_PUBLISH \<or> fl = expected_flags t) \<and>
      (\<exists>body. mqtt_frame t fl body = Inr bs \<and> decode_body t body fl = Inr m))"

lemmas framed_simps = framed_def decode_body_def expected_flags_def packet_types RESERVED_FLAGS_0010_def publish_fits_def

lemma encode_packet_framed:
  assumes "encode_packet m = Inr bs" and "message_fits m"
  shows "framed (head_of m) bs m"
proof (cases m)
  case (Connect c)
  with assms decode_connect_at [of c bs]
  show ?thesis by (simp add: framed_simps)
next
  case (Connack sp rc ps)
  with assms decode_connack_at [of sp rc ps bs]
  show ?thesis by (simp add: framed_simps)
next
  case (Publish p)
  with assms decode_publish_at [of p bs] publish_flags_bits [of p]
  show ?thesis by (simp add: framed_simps)
next
  case (Puback pid rc ps)
  with assms decode_packet_id_ack_at [of T_PUBACK pid rc ps bs Puback]
  show ?thesis by (simp add: framed_simps)
next
  case (Pubrec pid rc ps)
  with assms decode_packet_id_ack_at [of T_PUBREC pid rc ps bs Pubrec]
  show ?thesis by (simp add: framed_simps)
next
  case (Pubrel pid rc ps)
  with assms decode_packet_id_ack_at [of T_PUBREL pid rc ps bs Pubrel]
  show ?thesis by (simp add: framed_simps)
next
  case (Pubcomp pid rc ps)
  with assms decode_packet_id_ack_at [of T_PUBCOMP pid rc ps bs Pubcomp]
  show ?thesis by (simp add: framed_simps)
next
  case (Subscribe pid subs ps sos)
  with assms decode_subscribe_at [of pid subs ps sos bs]
  show ?thesis by (simp add: framed_simps)
next
  case (Suback pid codes ps)
  with assms decode_reason_codes_at [of T_SUBACK pid codes ps bs Suback]
  show ?thesis by (simp add: framed_simps)
next
  case (Unsubscribe pid ts ps)
  with assms decode_unsubscribe_at [of pid ts ps bs]
  show ?thesis by (simp add: framed_simps)
next
  case (Unsuback pid codes ps)
  with assms decode_reason_codes_at [of T_UNSUBACK pid codes ps bs Unsuback]
  show ?thesis by (simp add: framed_simps)
next
  case (Disconnect rc ps)
  with assms decode_reason_and_props_at [of T_DISCONNECT rc ps bs Disconnect]
  show ?thesis by (simp add: framed_simps)
next
  case (Auth rc ps)
  with assms decode_reason_and_props_at [of T_AUTH rc ps bs Auth]
  show ?thesis by (simp add: framed_simps)
qed (use assms in \<open>auto simp: framed_simps\<close>)

lemma decode_encoded_packet:
  assumes "encode_packet m = Inr bs" and "message_fits m"
  shows "decode_packet (bs @ rest) = Inr (m, length bs)"
  using encode_packet_framed [OF assms] decode_packet_frame [of _ _ _ bs m rest]
  by (auto simp: framed_def split: prod.splits)

text \<open>
  C14. MQTT packets round trip: decoding what \<^verbatim>\<open>encode_packet\<close> wrote gives the same packet of any of the
  fifteen kinds and consumes exactly its octets, whatever follows in the buffer, for every packet the
  wire format can carry.
\<close>

theorem mqtt_packet_roundtrip:
  assumes "message_fits m" and "encode_packet m = Inr bs"
  shows "decode_packet (bs @ rest) = Inr (m, length bs)"
  by (rule decode_encoded_packet [OF assms(2,1)])

definition demo_publish :: mqtt_publish where
  "demo_publish =
     \<lparr>topic = str ''a/b'', payload = octets ''hi'', qos = 2, packet_id = Some 7, retain = True, dup = False,
      p_properties = [(''message_expiry_interval'', PInt 60), (''user_properties'', PPairs [(str ''k'', str ''v'')])]\<rparr>"

lemmas encode_simps = encode_publish_def encode_utf8_field_def utf8_char_def to_bytes_def codec_simps
  encode_properties_def prop_by_key_def PROPERTY_SPECS_def encode_variable_byte_integer_def encode_vbi_small Let_def
  mqtt_frame_def packet_types publish_flags_def

theorem mqtt_packet_roundtrip_witness:
  "\<exists>bs. message_fits (Publish demo_publish) \<and> encode_packet (Publish demo_publish) = Inr bs \<and> length bs = 24 \<and>
     decode_packet (bs @ [0xC0, 0x00]) = Inr (Publish demo_publish, length bs)"
proof -
  have fits: "message_fits (Publish demo_publish)" by code_simp
  moreover obtain bs where bs: "encode_packet (Publish demo_publish) = Inr bs" "length bs = 24"
  proof
    show "encode_packet (Publish demo_publish) =
        Inr [0x35, 22, 0, 3, 0x61, 0x2F, 0x62, 0, 7, 12, 2, 0, 0, 0, 60, 0x26, 0, 1, 0x6B, 0, 1, 0x76, 0x68, 0x69]"
      by (simp add: demo_publish_def encode_simps)
  qed simp
  ultimately show ?thesis using mqtt_packet_roundtrip [OF fits bs(1), of "[0xC0, 0x00]"] by blast
qed

end
