(* ===== verification/Mqtt_Framer.thy ===== *)
theory Mqtt_Framer
  imports Mqtt_Roundtrip
begin

text \<open>
  \<^verbatim>\<open>PacketFramer\<close> of \<^verbatim>\<open>src/blackbull/mqtt/connection.py\<close>: octets arrive in chunks, packets are cut out of
  the buffer, junk is skipped, and a packet whose declared size is over the limit is refused from its
  fixed header. \<^verbatim>\<open>__iter__\<close> is a generator; \<open>framer_next\<close> runs it to its next yield or its end.
\<close>

record packet_framer =
  f_buffer :: bytes
  f_max_packet_size :: nat
  synced :: bool

definition new_framer :: "nat \<Rightarrow> packet_framer" where
  "new_framer max_packet_size = \<lparr>f_buffer = [], f_max_packet_size = max_packet_size, synced = True\<rparr>"

definition framer_feed :: "bytes \<Rightarrow> packet_framer \<Rightarrow> packet_framer" where
  "framer_feed data fr = fr\<lparr>f_buffer := f_buffer fr @ data\<rparr>"

text \<open>\<^verbatim>\<open>Some declared\<close>: \<^verbatim>\<open>PacketTooLarge\<close> is raised. The buffer is not empty.\<close>

definition check_declared_size :: "packet_framer \<Rightarrow> nat option" where
  "check_declared_size fr =
     (if f_max_packet_size fr = 0 \<or> \<not> synced fr then None
      else if drop_bit 4 (unat (hd (f_buffer fr))) = 0 then None
      else
        (case decode_variable_byte_integer (slice (f_buffer fr) 1 5) of
           Inl _ \<Rightarrow> None
         | Inr (remaining_length, rl_consumed) \<Rightarrow>
             let declared = 1 + rl_consumed + remaining_length
             in if declared > f_max_packet_size fr then Some declared else None))"

text \<open>\<^verbatim>\<open>_resync\<close>: on to the next octet whose high nibble is not zero, behind the first.\<close>

definition resync :: "bytes \<Rightarrow> bytes" where
  "resync buffer = dropWhile (\<lambda>b. drop_bit 4 (unat b) = 0) (tl buffer)"

datatype framed_item = Packet mqtt_message | Too_Large nat | Need_More | Uncaught mqtt_exn

lemma resync_shorter: "buffer \<noteq> [] \<Longrightarrow> length (resync buffer) < length buffer"
  using length_dropWhile_le [of "\<lambda>b. drop_bit 4 (unat b) = 0" "tl buffer"] by (cases buffer) (auto simp: resync_def)

function framer_next :: "packet_framer \<Rightarrow> framed_item \<times> packet_framer" where
  "framer_next fr =
     (if f_buffer fr = [] then (Need_More, fr)
      else
        case check_declared_size fr of
          Some declared \<Rightarrow> (Too_Large declared, fr)
        | None \<Rightarrow>
            (case decode_packet (f_buffer fr) of
               Inl e \<Rightarrow>
                 if e = IncompletePacket then (Need_More, fr)
                 else if e \<in> {MQTTDecodeError, ValueErr, UnicodeErr}
                 then framer_next (fr\<lparr>synced := False, f_buffer := resync (f_buffer fr)\<rparr>)
                 else (Uncaught e, fr)
             | Inr (m, consumed) \<Rightarrow> (Packet m, fr\<lparr>f_buffer := drop consumed (f_buffer fr), synced := True\<rparr>)))"
  by auto
termination
  by (relation "measure (\<lambda>fr. length (f_buffer fr))") (auto simp: resync_shorter)

declare framer_next.simps [simp del]

subsection \<open>What the decoder raises\<close>

definition raised :: "mqtt_exn set" where
  "raised = {MQTTDecodeError, IncompletePacket, IndexErr, ValueErr, UnicodeErr}"

lemma raised_members [simp]:
  "MQTTDecodeError \<in> raised" "IncompletePacket \<in> raised" "IndexErr \<in> raised" "ValueErr \<in> raised" "UnicodeErr \<in> raised"
  by (simp_all add: raised_def)

lemma index_raises: "index d p = Inl e \<Longrightarrow> e \<in> raised"
  by (auto simp: index_def raised_def split: if_splits)

lemma decode_vbi_loop_raises: "decode_vbi_loop d m n c = Inl e \<Longrightarrow> e \<in> {MQTTDecodeError, IncompletePacket}"
  by (induction d m n c rule: decode_vbi_loop.induct) (auto simp: Let_def split: if_splits)

lemma decode_vbi_raises: "decode_variable_byte_integer d = Inl e \<Longrightarrow> e \<in> {MQTTDecodeError, IncompletePacket}"
  unfolding decode_variable_byte_integer_def by (rule decode_vbi_loop_raises)

lemma decode_vbi_raises': "decode_variable_byte_integer d = Inl e \<Longrightarrow> e \<in> raised"
  using decode_vbi_raises by (fastforce simp: raised_def)

lemma decode_binary_raises: "decode_binary d p = Inl e \<Longrightarrow> e \<in> raised"
  by (auto simp: decode_binary_def raised_def Let_def split: if_splits)

lemma decode_utf8_raises: "decode_utf8_field d p = Inl e \<Longrightarrow> e \<in> raised"
  by (auto simp: decode_utf8_field_def andThen_eq_Inl_iff raised_def split: option.splits
      dest: decode_binary_raises [unfolded raised_def])

lemma decode_prop_value_raises: "decode_prop_value wt d p q = Inl e \<Longrightarrow> e \<in> raised"
  by (cases "(wt, d, p, q)" rule: decode_prop_value.cases)
    (auto simp: andThen_eq_Inl_iff dest: index_raises decode_utf8_raises decode_binary_raises decode_vbi_raises')
   

lemma decode_prop_raises: "decode_prop d p q ps = Inl e \<Longrightarrow> e \<in> raised"
  by (auto simp: decode_prop_def andThen_eq_Inl_iff split: option.splits if_splits
      dest: index_raises decode_utf8_raises decode_prop_value_raises)

lemma decode_props_loop_raises: "decode_props_loop d p q ps = Inl e \<Longrightarrow> e \<in> raised"
proof (induction d p q ps rule: decode_props_loop.induct)
  case (1 d p q ps)
  from 1(2) have "p < q" by (subst (asm) decode_props_loop.simps) (simp split: if_splits)
  with 1(2) have "andThen (decode_prop d p q ps) (\<lambda>(ps, p). decode_props_loop d p q ps) = Inl e"
    by (subst (asm) decode_props_loop.simps) simp
  with 1(1) [OF \<open>p < q\<close>] show ?case
    by (auto simp: andThen_eq_Inl_iff dest: decode_prop_raises)
qed

lemma decode_properties_raises: "decode_properties d p = Inl e \<Longrightarrow> e \<in> raised"
  by (auto simp: decode_properties_def andThen_eq_Inl_iff Let_def split: if_splits
      dest: decode_vbi_raises' decode_props_loop_raises)

lemmas field_raises = index_raises decode_utf8_raises decode_binary_raises decode_properties_raises

lemma decode_level_properties_raises: "decode_level_properties l d p = Inl e \<Longrightarrow> e \<in> raised"
  by (auto simp: decode_level_properties_def andThen_eq_Inl_iff split: if_splits dest: field_raises)

lemma decode_opt_raises:
  "decode_opt b f d p = Inl e \<Longrightarrow> (\<And>d p. f d p = Inl e \<Longrightarrow> e \<in> raised) \<Longrightarrow> e \<in> raised"
  by (auto simp: decode_opt_def andThen_eq_Inl_iff split: if_splits)

lemma decode_will_raises: "decode_will l d p = Inl e \<Longrightarrow> e \<in> raised"
  by (auto simp: decode_will_def andThen_eq_Inl_iff dest: field_raises decode_level_properties_raises)

lemma constructor_raises: "mk_connect c = Inl e \<Longrightarrow> e \<in> raised" "mk_publish p = Inl e \<Longrightarrow> e \<in> raised"
  by (auto simp: mk_connect_def mk_publish_def raised_def split: if_splits)

lemma decode_connect_raises: "decode_connect body = Inl e \<Longrightarrow> e \<in> raised"
  unfolding decode_connect_def Let_def
  by (auto simp: andThen_eq_Inl_iff split: if_splits
      dest: field_raises decode_level_properties_raises constructor_raises
      elim!: decode_opt_raises intro: decode_will_raises)

lemma decode_subscriptions_raises: "decode_subscriptions d p = Inl e \<Longrightarrow> e \<in> raised"
proof (induction d p rule: decode_subscriptions.induct)
  case (1 d p)
  from 1(2) have less: "p < length d" by (subst (asm) decode_subscriptions.simps) (simp split: if_splits)
  show ?case
  proof (cases "decode_utf8_field d p")
    case (Inl e')
    with 1(2) less have "e' = e" by (subst (asm) decode_subscriptions.simps) simp
    with Inl show ?thesis by (simp add: decode_utf8_raises)
  next
    case (Inr r)
    obtain f q where r: "r = (f, q)" by (cases r)
    from 1(2) less Inr r have "index d q = Inl e \<or> (\<exists>n. index d q = Inr n) \<and> decode_subscriptions d (q + 1) = Inl e"
      by (subst (asm) decode_subscriptions.simps) (auto simp: andThen_eq_Inl_iff)
    with 1(1) [OF less Inr r [symmetric]] show ?thesis by (auto dest: index_raises)
  qed
qed

lemma decode_topics_raises: "decode_topics d p = Inl e \<Longrightarrow> e \<in> raised"
proof (induction d p rule: decode_topics.induct)
  case (1 d p)
  from 1(2) have less: "p < length d" by (subst (asm) decode_topics.simps) (simp split: if_splits)
  show ?case
  proof (cases "decode_utf8_field d p")
    case (Inl e')
    with 1(2) less have "e' = e" by (subst (asm) decode_topics.simps) simp
    with Inl show ?thesis by (simp add: decode_utf8_raises)
  next
    case (Inr r)
    obtain f q where r: "r = (f, q)" by (cases r)
    from 1(2) less Inr r have "decode_topics d q = Inl e"
      by (subst (asm) decode_topics.simps) (auto simp: andThen_eq_Inl_iff)
    with 1(1) [OF less Inr r [symmetric]] show ?thesis by simp
  qed
qed

lemma decode_publish_raises: "decode_publish body fl = Inl e \<Longrightarrow> e \<in> raised"
  unfolding decode_publish_def Let_def
  by (auto simp: andThen_eq_Inl_iff split: prod.splits if_splits dest: field_raises constructor_raises)

lemma decode_body_raises: "decode_body t body fl = Inl e \<Longrightarrow> e \<in> raised"
  by (auto simp: decode_body_def decode_connack_def decode_packet_id_ack_def decode_subscribe_def decode_unsubscribe_def
      decode_reason_codes_def decode_reason_and_props_def andThen_eq_Inl_iff Let_def split: if_splits
      dest: decode_connect_raises decode_publish_raises decode_subscriptions_raises decode_topics_raises field_raises)

lemma decode_packet_raises:
  assumes "decode_packet data = Inl e" and "e \<noteq> IncompletePacket"
  shows "e \<in> {MQTTDecodeError, ValueErr, UnicodeErr}"
  using assms
  by (auto simp: decode_packet_def Let_def andThen_eq_Inl_iff split: if_splits sum.splits mqtt_exn.splits
      dest!: decode_vbi_raises decode_body_raises simp: raised_def)

lemma decode_packet_consumed:
  assumes "decode_packet data = Inr (m, n)"
  shows "0 < n" and "n \<le> length data"
  using assms
  by (auto simp: decode_packet_def Let_def andThen_eq_Inr_iff split: if_splits sum.splits mqtt_exn.splits)

text \<open>The iteration as a whole: the packets, how it ended, and the framer.\<close>

lemma framer_next_eq:
  "framer_next fr =
     (if f_buffer fr = [] then (Need_More, fr)
      else
        case check_declared_size fr of
          Some declared \<Rightarrow> (Too_Large declared, fr)
        | None \<Rightarrow>
            (case decode_packet (f_buffer fr) of
               Inl e \<Rightarrow>
                 if e = IncompletePacket then (Need_More, fr)
                 else framer_next (fr\<lparr>synced := False, f_buffer := resync (f_buffer fr)\<rparr>)
             | Inr (m, consumed) \<Rightarrow> (Packet m, fr\<lparr>f_buffer := drop consumed (f_buffer fr), synced := True\<rparr>)))"
  by (subst framer_next.simps) (auto split: option.splits sum.splits dest: decode_packet_raises)

lemma framer_induct [case_names step]:
  assumes "\<And>fr. (f_buffer fr \<noteq> [] \<Longrightarrow> P (fr\<lparr>synced := False, f_buffer := resync (f_buffer fr)\<rparr>)) \<Longrightarrow> P fr"
  shows "P fr"
proof (induction "length (f_buffer fr)" arbitrary: fr rule: less_induct)
  case less
  show ?case by (rule assms) (rule less, simp add: resync_shorter)
qed

lemma framer_next_cases:
  assumes "framer_next fr = (x, fr')"
  obtains (empty) "f_buffer fr = []" "x = Need_More" "fr' = fr"
  | (refused) declared where "x = Too_Large declared" "fr' = fr"
  | (partial) "x = Need_More" "fr' = fr" "check_declared_size fr = None" "decode_packet (f_buffer fr) = Inl IncompletePacket"
  | (packet) m n where "x = Packet m" "decode_packet (f_buffer fr) = Inr (m, n)" "f_buffer fr \<noteq> []"
      "fr' = fr\<lparr>f_buffer := drop n (f_buffer fr), synced := True\<rparr>"
  | (junk) "f_buffer fr \<noteq> []"
      "framer_next (fr\<lparr>synced := False, f_buffer := resync (f_buffer fr)\<rparr>) = (x, fr')"
proof (cases "f_buffer fr = []")
  case True
  with assms show ?thesis by (subst (asm) framer_next_eq) (simp add: empty)
next
  case False
  show ?thesis
  proof (cases "check_declared_size fr")
    case (Some declared)
    with False assms have "x = Too_Large declared" "fr' = fr" by (subst (asm) framer_next_eq, simp)+
    then show ?thesis by (rule refused)
  next
    case None
    show ?thesis
    proof (cases "decode_packet (f_buffer fr)")
      case (Inl e)
      then show ?thesis
        using None False assms partial junk by (cases "e = IncompletePacket"; subst (asm) framer_next_eq) simp_all
    next
      case (Inr r)
      obtain m n where r: "r = (m, n)" by (cases r)
      with Inr None False assms have "x = Packet m" "fr' = fr\<lparr>f_buffer := drop n (f_buffer fr), synced := True\<rparr>"
        by (subst (asm) framer_next_eq, simp)+
      with Inr r False show ?thesis by (intro packet) simp_all
    qed
  qed
qed

lemma framer_next_shorter:
  "framer_next fr = (Packet m, fr') \<Longrightarrow> length (f_buffer fr') < length (f_buffer fr)"
proof (induction fr rule: framer_induct)
  case (step fr)
  from step(2) show ?case
  proof (cases rule: framer_next_cases)
    case (packet m' n)
    then show ?thesis using decode_packet_consumed [of "f_buffer fr"] by (cases "f_buffer fr") auto
  next
    case junk
    from step(1) [OF junk] resync_shorter [OF junk(1)] show ?thesis by simp
  qed simp_all
qed

function framer_drain :: "packet_framer \<Rightarrow> mqtt_message list \<times> framed_item \<times> packet_framer" where
  "framer_drain fr =
     (case framer_next fr of
        (Packet m, fr') \<Rightarrow> (case framer_drain fr' of (ms, r) \<Rightarrow> (m # ms, r))
      | (x, fr') \<Rightarrow> ([], x, fr'))"
  by auto
termination
  by (relation "measure (\<lambda>fr. length (f_buffer fr))") (auto dest!: framer_next_shorter [OF sym])

declare framer_drain.simps [simp del]

subsection \<open>A stream of packets in arbitrary chunks\<close>

definition carries :: "mqtt_message \<Rightarrow> bytes \<Rightarrow> bool" where
  "carries m bs = (message_fits m \<and> encode_packet m = Inr bs)"

lemma carries_head:
  assumes "carries m bs"
  obtains b l tail where "bs = b # l @ tail" and "drop_bit 4 (unat b) AND 0x0F \<noteq> 0"
    and "drop_bit 4 (unat b) AND 0x0F = T_PUBLISH \<or> unat b AND 0x0F = expected_flags (drop_bit 4 (unat b) AND 0x0F)"
    and "encode_variable_byte_integer (length tail) = Inr l"
proof -
  from assms encode_packet_framed [of m bs] obtain t fl body where
    f: "mqtt_frame t fl body = Inr bs" "0 < t" "t < 16" "fl < 16" "t = T_PUBLISH \<or> fl = expected_flags t"
    by (auto simp: carries_def framed_def split: prod.splits)
  then obtain l where l: "encode_variable_byte_integer (length body) = Inr l"
      "bs = word_of_nat (push_bit 4 t OR (fl AND 0x0F)) # l @ body"
    by (auto simp: mqtt_frame_def andThen_eq_Inr_iff)
  show ?thesis
    by (rule that [of "word_of_nat (push_bit 4 t OR (fl AND 0x0F))" l body])
      (use l f packet_head [OF f(3,4)] in \<open>auto\<close>)
qed

lemma carries_ne: "carries m bs \<Longrightarrow> bs \<noteq> []"
  by (erule carries_head) auto

lemma decode_vbi_loop_prefix:
  "n < 128 ^ Suc k \<Longrightarrow> m * 128 ^ k \<le> 128 ^ 3 \<Longrightarrow> i < length (encode_vbi_loop n) \<Longrightarrow>
   decode_vbi_loop (take i (encode_vbi_loop n)) m v c = Inl IncompletePacket"
proof (induction k arbitrary: n m v c i)
  case 0
  then show ?case by (simp add: encode_vbi_small)
next
  case (Suc k)
  have m: "m \<le> 128 ^ 3"
    using Suc.prems(2) by (metis le_trans mult_le_mono2 mult.right_neutral one_le_numeral one_le_power)
  show ?case
  proof (cases "n < 128 \<or> i = 0")
    case True
    with Suc.prems(3) show ?thesis by (auto simp: encode_vbi_small)
  next
    case False
    then obtain j where i: "i = Suc j" by (cases i) auto
    have eq: "encode_vbi_loop n = word_of_nat (n mod 128 OR 0x80) # encode_vbi_loop (n div 128)"
      using False by (subst encode_vbi_loop_eq) simp
    have "n div 128 < 128 ^ Suc k" "m * 128 * 128 ^ k \<le> 128 ^ 3"
      using Suc.prems by (simp_all add: less_mult_imp_div_less mult.commute ac_simps)
    from Suc.IH [OF this, of j] Suc.prems(3) m show ?thesis
      by (simp add: eq i Let_def vbi_group)
  qed
qed

lemma decode_vbi_prefix:
  "encode_variable_byte_integer n = Inr l \<Longrightarrow> i < length l \<Longrightarrow>
   decode_variable_byte_integer (take i l) = Inl IncompletePacket"
  using decode_vbi_loop_prefix [of n 3 1 i 0 0]
  by (auto simp: encode_variable_byte_integer_def decode_variable_byte_integer_def split: if_splits)

lemma decode_vbi_take:
  assumes "encode_variable_byte_integer n = Inr l"
  shows "decode_variable_byte_integer (take j (l @ more_octets)) =
    (if j < length l then Inl IncompletePacket else Inr (n, length l))"
  using decode_vbi_prefix [OF assms, of j] decode_vbi_at [OF assms] by simp

lemma decode_packet_prefix:
  assumes "carries m bs" and "i < length bs"
  shows "decode_packet (take i bs) = Inl IncompletePacket"
proof (cases "i < 2")
  case True
  then have "length (take i bs) < 2" by simp
  then show ?thesis unfolding decode_packet_def by (simp only: if_True)
next
  case False
  from assms(1) obtain b l tail where h: "bs = b # l @ tail" "drop_bit 4 (unat b) AND 0x0F \<noteq> 0"
      "drop_bit 4 (unat b) AND 0x0F = T_PUBLISH \<or> unat b AND 0x0F = expected_flags (drop_bit 4 (unat b) AND 0x0F)"
      "encode_variable_byte_integer (length tail) = Inr l"
    by (rule carries_head)
  from False obtain j where j: "i = Suc j" "0 < j" by (cases i) auto
  have short: "take i bs = b # take j (l @ tail)" "length (take j (l @ tail)) = j" "j < length l + length tail"
    using h(1) j assms(2) by simp_all
  show ?thesis
    unfolding decode_packet_def short(1)
    using h(2,3) j(2) short(2,3) decode_vbi_take [OF h(4), of j tail]
    by (simp add: Let_def del: take_append)
qed

lemma gate_passes:
  assumes "carries m bs" and "f_max_packet_size fr = 0 \<or> length bs \<le> f_max_packet_size fr"
    and "f_buffer fr = take i (bs @ rest)" and "0 < i"
  shows "check_declared_size fr = None"
proof -
  from assms(1) obtain b l tail where h: "bs = b # l @ tail" "encode_variable_byte_integer (length tail) = Inr l"
    by (rule carries_head)
  from assms(4) obtain j where j: "i = Suc j" by (cases i) auto
  have "slice (f_buffer fr) 1 5 = take (min 4 j) (l @ tail @ rest)"
    by (simp add: assms(3) h j slice_def take_take del: take_append)
  with decode_vbi_take [OF h(2), of "min 4 j" "tail @ rest"] assms(2) h(1) show ?thesis
    by (auto simp: check_declared_size_def Let_def split: if_splits)
qed

lemma framer_next_packet:
  assumes "carries m bs" and "f_max_packet_size fr = 0 \<or> length bs \<le> f_max_packet_size fr"
    and "f_buffer fr = bs @ rest"
  shows "framer_next fr = (Packet m, fr\<lparr>f_buffer := rest, synced := True\<rparr>)"
proof -
  have "check_declared_size fr = None"
    using gate_passes [OF assms(1,2), of "length (bs @ rest)" rest] assms(3) carries_ne [OF assms(1)] by simp
  moreover have "decode_packet (bs @ rest) = Inr (m, length bs)"
    using assms(1) decode_encoded_packet by (simp add: carries_def)
  ultimately show ?thesis
    using carries_ne [OF assms(1)] assms(3) by (subst framer_next_eq) simp
qed

lemma framer_next_partial:
  assumes "carries m bs" and "f_max_packet_size fr = 0 \<or> length bs \<le> f_max_packet_size fr"
    and "f_buffer fr = take i bs" and "i < length bs"
  shows "framer_next fr = (Need_More, fr)"
proof (cases "i = 0")
  case True
  then show ?thesis using assms(3) by (subst framer_next_eq) simp
next
  case False
  then have "check_declared_size fr = None" using gate_passes [OF assms(1,2), of i "[]"] assms(3) by simp
  with decode_packet_prefix [OF assms(1,4)] False assms(3,4) show ?thesis
    by (subst framer_next_eq) auto
qed

definition fits_limit :: "nat \<Rightarrow> bytes list \<Rightarrow> bool" where
  "fits_limit limit encs = (limit = 0 \<or> list_all (\<lambda>bs. length bs \<le> limit) encs)"

lemma split_long: "xs @ ys = us @ vs \<Longrightarrow> length us \<le> length xs \<Longrightarrow> \<exists>r. xs = us @ r \<and> r @ ys = vs"
  by (auto simp: append_eq_append_conv2)

lemma split_short: "xs @ ys = us @ vs \<Longrightarrow> length xs < length us \<Longrightarrow> xs = take (length xs) us"
  by (metis append_eq_append_conv_if less_imp_le_nat)

lemma framer_drain_stream:
  assumes "list_all2 carries ms encs" and "fits_limit (f_max_packet_size fr) encs"
    and "f_buffer fr @ later = concat encs" and "synced fr"
  shows "\<exists>ms1 ms2 encs2 buf. ms = ms1 @ ms2 \<and> list_all2 carries ms2 encs2 \<and>
    fits_limit (f_max_packet_size fr) encs2 \<and> buf @ later = concat encs2 \<and> (later = [] \<longrightarrow> ms2 = []) \<and>
    framer_drain fr = (ms1, Need_More, fr\<lparr>f_buffer := buf\<rparr>)"
  using assms
proof (induction ms encs arbitrary: fr rule: list_all2_induct)
  case Nil
  then have "framer_drain fr = ([], Need_More, fr\<lparr>f_buffer := []\<rparr>)"
    by (subst framer_drain.simps, subst framer_next_eq) simp
  with Nil show ?case by auto
next
  case (Cons m ms bs encs)
  have limit: "f_max_packet_size fr = 0 \<or> length bs \<le> f_max_packet_size fr"
    and limit': "fits_limit (f_max_packet_size fr) encs"
    using Cons.prems(1) by (auto simp: fits_limit_def)
  show ?case
  proof (cases "length bs \<le> length (f_buffer fr)")
    case True
    with Cons.prems(2) obtain rest where rest: "f_buffer fr = bs @ rest" "rest @ later = concat encs"
      using split_long [of "f_buffer fr" later bs "concat encs"] by auto
    let ?fr = "fr\<lparr>f_buffer := rest\<rparr>"
    have "framer_next fr = (Packet m, ?fr)"
      using framer_next_packet [OF Cons.hyps(1) limit rest(1)] Cons.prems(3) by simp
    then have "framer_drain fr = (m # fst (framer_drain ?fr), snd (framer_drain ?fr))"
      by (subst framer_drain.simps) (simp split: prod.split)
    moreover from Cons.IH [of ?fr] limit' rest Cons.prems(3) obtain ms1 ms2 encs2 buf where
      "ms = ms1 @ ms2" "list_all2 carries ms2 encs2" "fits_limit (f_max_packet_size fr) encs2"
      "buf @ later = concat encs2" "later = [] \<longrightarrow> ms2 = []" "framer_drain ?fr = (ms1, Need_More, fr\<lparr>f_buffer := buf\<rparr>)"
      by auto
    ultimately show ?thesis by (intro exI [of _ "m # ms1"] exI [of _ ms2] exI [of _ encs2] exI [of _ buf]) simp
  next
    case False
    then have part: "f_buffer fr = take (length (f_buffer fr)) bs" "length (f_buffer fr) < length bs"
      using split_short [of "f_buffer fr" later bs "concat encs"] Cons.prems(2) by auto
    then have "framer_drain fr = ([], Need_More, fr)"
      using framer_next_partial [OF Cons.hyps(1) limit part] by (subst framer_drain.simps) simp
    moreover have "later \<noteq> []" using False Cons.prems(2) by auto
    ultimately show ?thesis
      using Cons.hyps Cons.prems(1,2)
      by (intro exI [of _ "[]"] exI [of _ "m # ms"] exI [of _ "bs # encs"] exI [of _ "f_buffer fr"]) simp
  qed
qed

text \<open>Chunks fed one after another, the packets read after each.\<close>

fun framer_feeds :: "packet_framer \<Rightarrow> bytes list \<Rightarrow> mqtt_message list \<times> packet_framer" where
  "framer_feeds fr [] = ([], fr)"
| "framer_feeds fr (c # cs) =
     (case framer_drain (framer_feed c fr) of
        (ms, _, fr') \<Rightarrow> (case framer_feeds fr' cs of (ms', fr'') \<Rightarrow> (ms @ ms', fr'')))"

lemma framer_feeds_stream:
  assumes "list_all2 carries ms encs" and "fits_limit (f_max_packet_size fr) encs"
    and "f_buffer fr @ concat chunks = concat encs" and "synced fr" and "chunks \<noteq> [] \<or> ms = []"
  shows "framer_feeds fr chunks = (ms, fr\<lparr>f_buffer := []\<rparr>)"
  using assms
proof (induction chunks arbitrary: fr ms encs)
  case Nil
  then show ?case by (cases fr) auto
next
  case (Cons c chunks)
  let ?fr = "framer_feed c fr"
  have "fits_limit (f_max_packet_size ?fr) encs" "f_buffer ?fr @ concat chunks = concat encs" "synced ?fr"
    using Cons.prems by (simp_all add: framer_feed_def)
  from framer_drain_stream [OF Cons.prems(1) this] obtain ms1 ms2 encs2 buf where
    d: "ms = ms1 @ ms2" "list_all2 carries ms2 encs2" "fits_limit (f_max_packet_size ?fr) encs2"
      "buf @ concat chunks = concat encs2" "concat chunks = [] \<longrightarrow> ms2 = []"
      "framer_drain ?fr = (ms1, Need_More, ?fr\<lparr>f_buffer := buf\<rparr>)"
    by blast
  have "framer_feeds (?fr\<lparr>f_buffer := buf\<rparr>) chunks = (ms2, ?fr\<lparr>f_buffer := buf, f_buffer := []\<rparr>)"
    using d Cons.prems(4) by (intro Cons.IH [OF d(2)]) (auto simp: framer_feed_def)
  with d show ?case by (simp add: framer_feed_def)
qed

text \<open>
  C15. Framing: whatever chunks the octets of a sequence of encoded packets arrive in, the framer yields
  exactly these packets in order, never refuses one within the size limit, and keeps nothing behind.
\<close>

theorem mqtt_stream_framed:
  assumes "list_all2 carries ms encs" and "fits_limit limit encs" and "concat chunks = concat encs"
  shows "framer_feeds (new_framer limit) chunks = (ms, new_framer limit)"
proof -
  have "chunks \<noteq> [] \<or> ms = []"
    using assms(1,3) carries_ne by (cases ms; cases encs; cases chunks) auto
  with framer_feeds_stream [OF assms(1), of "new_framer limit" chunks] assms(2,3) show ?thesis
    by (simp add: new_framer_def)
qed

lemma demo_carries:
  "carries Pingreq [0xC0, 0x00]" "carries (Puback 7 0 []) [0x40, 0x04, 0x00, 0x07, 0x00, 0x00]"
  by (simp_all add: carries_def encode_packet_id_ack_def props_fit_def encode_simps)

theorem mqtt_stream_framed_witness:
  "framer_feeds (new_framer 6) [[0xC0], [0x00, 0x40, 0x04, 0x00], [], [0x07, 0x00, 0x00, 0xC0], [0x00]] =
     ([Pingreq, Puback 7 0 [], Pingreq], new_framer 6)"
  by (rule mqtt_stream_framed [where encs = "[[0xC0, 0x00], [0x40, 0x04, 0x00, 0x07, 0x00, 0x00], [0xC0, 0x00]]"])
    (simp_all add: demo_carries fits_limit_def)

subsection \<open>What a partial packet may occupy\<close>

lemma framer_next_needs:
  "framer_next fr = (Need_More, fr') \<Longrightarrow>
     f_buffer fr' = [] \<or> check_declared_size fr' = None \<and> decode_packet (f_buffer fr') = Inl IncompletePacket"
proof (induction fr rule: framer_induct)
  case (step fr)
  from step(2) show ?case
  proof (cases rule: framer_next_cases)
    case junk
    from step(1) [OF junk] show ?thesis .
  qed simp_all
qed

lemma framer_next_limit: "framer_next fr = (x, fr') \<Longrightarrow> f_max_packet_size fr' = f_max_packet_size fr"
proof (induction fr rule: framer_induct)
  case (step fr)
  from step(2) show ?case
  proof (cases rule: framer_next_cases)
    case junk
    from step(1) [OF junk] show ?thesis by simp
  qed simp_all
qed

lemma framer_drain_needs:
  "framer_drain fr = (ms, Need_More, fr') \<Longrightarrow> f_max_packet_size fr' = f_max_packet_size fr \<and>
     (f_buffer fr' = [] \<or> check_declared_size fr' = None \<and> decode_packet (f_buffer fr') = Inl IncompletePacket)"
proof (induction fr arbitrary: ms rule: framer_drain.induct)
  case (1 fr)
  obtain x fr1 where n: "framer_next fr = (x, fr1)" by (cases "framer_next fr")
  show ?case
  proof (cases x)
    case (Packet m)
    with 1(2) n obtain ms1 where "framer_drain fr1 = (ms1, Need_More, fr')"
      by (subst (asm) framer_drain.simps) (auto split: prod.splits)
    with 1(1) [OF n [symmetric] Packet] framer_next_limit [OF n] show ?thesis by simp
  next
    case Need_More
    with 1(2) n have "fr1 = fr'" by (subst (asm) framer_drain.simps) simp
    with framer_next_needs [of fr fr'] framer_next_limit [OF n] n Need_More show ?thesis by simp
  qed (use 1(2) n in \<open>subst (asm) framer_drain.simps, simp\<close>)+
qed

lemma vbi_loop_reads_four:
  "j \<le> 4 \<Longrightarrow>
     (decode_vbi_loop d (128 ^ j) n c = Inl IncompletePacket \<longrightarrow> j + length d \<le> 4) \<and>
     (\<forall>r. decode_vbi_loop d (128 ^ j) n c = Inr r \<longrightarrow> decode_vbi_loop (take (4 - j) d) (128 ^ j) n c = Inr r)"
proof (induction d arbitrary: j n c)
  case (Cons b d)
  show ?case
  proof (cases "j = 4")
    case False
    with Cons.prems have "(128 :: nat) ^ j \<le> 128 ^ 3" by (intro power_increasing) auto
    moreover from False Cons.prems have "4 - j = Suc (4 - Suc j)" by simp
    ultimately show ?thesis
      using False Cons.prems Cons.IH [of "Suc j" "n + unat (b AND 0x7F) * 128 ^ j" "c + 1"]
      by (auto simp: Let_def mult.commute)
  qed (simp add: Let_def)
qed simp

lemma vbi_incomplete_short: "decode_variable_byte_integer d = Inl IncompletePacket \<Longrightarrow> length d \<le> 4"
  using vbi_loop_reads_four [of 0 d 0 0] by (simp add: decode_variable_byte_integer_def)

lemma vbi_reads_four: "decode_variable_byte_integer d = Inr r \<Longrightarrow> decode_variable_byte_integer (take 4 d) = Inr r"
  using vbi_loop_reads_four [of 0 d 0 0] by (simp add: decode_variable_byte_integer_def)

lemma incomplete_cases:
  assumes "decode_packet buf = Inl IncompletePacket"
  obtains "length buf \<le> 5"
  | rl c where "decode_variable_byte_integer (drop 1 buf) = Inr (rl, c)" "length buf < 1 + c + rl"
      "drop_bit 4 (unat (hd buf)) \<noteq> 0"
proof (cases "length buf \<le> 5")
  case False
  let ?t = "drop_bit 4 (unat (buf ! 0)) AND 0x0F"
  from assms False have t: "?t \<noteq> 0"
    unfolding decode_packet_def Let_def by (simp split: if_splits)
  from assms False t have flags: "?t = T_PUBLISH \<or> unat (buf ! 0) AND 0x0F = expected_flags ?t"
    unfolding decode_packet_def Let_def by (simp split: if_splits)
  show ?thesis
  proof (cases "decode_variable_byte_integer (drop 1 buf)")
    case (Inl e)
    with assms False t flags have "e = IncompletePacket" by (auto simp: decode_packet_def Let_def)
    with vbi_incomplete_short [of "drop 1 buf"] Inl False show ?thesis by simp
  next
    case (Inr r)
    obtain rl c where r: "r = (rl, c)" by (cases r)
    have "length buf < 1 + c + rl"
      using assms False t flags Inr r
      by (auto simp: decode_packet_def Let_def split: if_splits sum.splits mqtt_exn.splits)
    moreover have "drop_bit 4 (unat (hd buf)) \<noteq> 0"
    proof
      assume "drop_bit 4 (unat (hd buf)) = 0"
      with t False show False by (cases buf) auto
    qed
    ultimately show ?thesis using Inr r that(2) by simp
  qed
qed

lemma synced_partial_bounded:
  assumes "check_declared_size fr = None" and "decode_packet (f_buffer fr) = Inl IncompletePacket"
    and "synced fr" and "f_max_packet_size fr \<noteq> 0"
  shows "length (f_buffer fr) \<le> max (f_max_packet_size fr - 1) 5"
  using assms(2)
proof (cases rule: incomplete_cases)
  case (2 rl c)
  have "slice (f_buffer fr) 1 5 = take 4 (drop 1 (f_buffer fr))" by (simp add: slice_def)
  with vbi_reads_four [OF 2(1)] assms(1,3,4) 2(3) have "1 + c + rl \<le> f_max_packet_size fr"
    by (simp add: check_declared_size_def Let_def split: if_splits)
  with 2(2) show ?thesis by simp
qed simp



text \<open>
  C19. The size limit does not hold after junk: one octet that starts no packet takes the framer off the
  boundary, and a PUBLISH header that then declares 268435455 octets is waited for, whatever the limit;
  every octet that arrives is kept, and no packet is refused.
\<close>

theorem size_gate_bypassed:
  assumes "length data < 268435455"
  shows "framer_drain (framer_feed ([0x00, 0x30, 0xFF, 0xFF, 0xFF, 0x7F] @ data) (new_framer limit)) =
    ([], Need_More, \<lparr>f_buffer = [0x30, 0xFF, 0xFF, 0xFF, 0x7F] @ data, f_max_packet_size = limit, synced = False\<rparr>)"
proof -
  define fr0 where "fr0 = framer_feed ([0x00, 0x30, 0xFF, 0xFF, 0xFF, 0x7F] @ data) (new_framer limit)"
  let ?buf = "[0x30, 0xFF, 0xFF, 0xFF, 0x7F] @ data"
  let ?fr = "\<lparr>f_buffer = ?buf, f_max_packet_size = limit, synced = False\<rparr>"
  have "check_declared_size fr0 = None" "decode_packet (f_buffer fr0) = Inl MQTTDecodeError" "f_buffer fr0 \<noteq> []"
    by (simp_all add: fr0_def check_declared_size_def framer_feed_def new_framer_def decode_packet_def)
  moreover have "fr0\<lparr>synced := False, f_buffer := resync (f_buffer fr0)\<rparr> = ?fr"
    by (simp add: fr0_def framer_feed_def new_framer_def resync_def)
  ultimately have "framer_next fr0 = framer_next ?fr"
    by (subst framer_next_eq) simp
  also have "decode_packet ?buf = Inl IncompletePacket"
    using assms by (simp add: decode_packet_def decode_variable_byte_integer_def Let_def packet_types)
  then have "framer_next ?fr = (Need_More, ?fr)"
    by (subst framer_next_eq) (simp add: check_declared_size_def)
  finally show ?thesis unfolding fr0_def [symmetric] by (subst framer_drain.simps) simp
qed

theorem size_gate_bypassed_witness:
  "framer_drain (framer_feed ([0x00, 0x30, 0xFF, 0xFF, 0xFF, 0x7F] @ replicate 1000000 0) (new_framer 16)) =
    ([], Need_More, \<lparr>f_buffer = [0x30, 0xFF, 0xFF, 0xFF, 0x7F] @ replicate 1000000 0, f_max_packet_size = 16, synced = False\<rparr>)"
  by (rule size_gate_bypassed) simp

end
