(* ===== verification/Mqtt_Topic.thy ===== *)
theory Mqtt_Topic
  imports Mqtt_Codec
begin

text \<open>
  Topic names and filters: \<^verbatim>\<open>topic_matches_filter\<close>, \<^verbatim>\<open>validate_topic_name\<close> and
  \<^verbatim>\<open>validate_topic_filter\<close> of \<^verbatim>\<open>src/blackbull/mqtt/messages.py\<close>, \<^verbatim>\<open>_valid_filter\<close> and \<^verbatim>\<open>_parse_share\<close> of
  \<^verbatim>\<open>broker.py\<close>, with the matching rules of MQTT 5.0 section 4.7 as an inductive specification.
\<close>

abbreviation SLASH :: nat where "SLASH \<equiv> 0x2F"
abbreviation HASH :: nat where "HASH \<equiv> 0x23"
abbreviation PLUS :: nat where "PLUS \<equiv> 0x2B"
abbreviation DOLLAR :: nat where "DOLLAR \<equiv> 0x24"

text \<open>\<^verbatim>\<open>s.split('/', n)\<close> and \<^verbatim>\<open>s.startswith('$share/')\<close>.\<close>

fun split_max :: "nat \<Rightarrow> 'a \<Rightarrow> 'a list \<Rightarrow> 'a list list" where
  "split_max 0 c s = [s]"
| "split_max (Suc n) c s =
     (if c \<in> set s then takeWhile (\<lambda>x. x \<noteq> c) s # split_max n c (tl (dropWhile (\<lambda>x. x \<noteq> c) s)) else [s])"

definition share_prefix :: "pystr \<Rightarrow> bool" where
  "share_prefix s = (take 7 s = str ''$share/'')"

fun match_loop :: "nat \<Rightarrow> pystr list \<Rightarrow> pystr list \<Rightarrow> pystr list \<Rightarrow> bool" where
  "match_loop i [] topic_levels filter_levels = (length topic_levels = length filter_levels)"
| "match_loop i (flevel # flevels) topic_levels filter_levels =
     (if flevel = [HASH] then i = length filter_levels - 1
      else if i \<ge> length topic_levels then False
      else if flevel = [PLUS] then match_loop (i + 1) flevels topic_levels filter_levels
      else if flevel \<noteq> topic_levels ! i then False
      else match_loop (i + 1) flevels topic_levels filter_levels)"

definition match_levels :: "pystr \<Rightarrow> pystr \<Rightarrow> bool" where
  "match_levels name flt =
     (let topic_levels = split_on SLASH name; filter_levels = split_on SLASH flt
      in if take 1 (hd topic_levels) = [DOLLAR] \<and> (hd filter_levels = [HASH] \<or> hd filter_levels = [PLUS]) then False
         else match_loop 0 filter_levels topic_levels filter_levels)"

definition topic_matches_filter :: "pystr \<Rightarrow> pystr \<Rightarrow> bool" where
  "topic_matches_filter name filter_str =
     (if name = [] then False
      else if share_prefix filter_str then
        (let parts = split_max 2 SLASH filter_str
         in if length parts < 3 then False else match_levels name (parts ! 2))
      else match_levels name filter_str)"

definition validate_topic_name :: "pystr \<Rightarrow> bool" where
  "validate_topic_name name =
     (if name = [] then False
      else if 0 \<in> set name then False
      else if PLUS \<in> set name \<or> HASH \<in> set name then False
      else True)"

fun validate_levels :: "nat \<Rightarrow> pystr list \<Rightarrow> nat \<Rightarrow> mqtt_exn + bool" where
  "validate_levels i [] n = Inr True"
| "validate_levels i (level # levels) n =
     (if HASH \<in> set level \<and> level \<noteq> [HASH] then Inl ValueErr
      else if HASH \<in> set level \<and> i \<noteq> n - 1 then Inl ValueErr
      else if PLUS \<in> set level \<and> level \<noteq> [PLUS] then Inl ValueErr
      else validate_levels (i + 1) levels n)"

definition validate_work :: "pystr \<Rightarrow> mqtt_exn + bool" where
  "validate_work work =
     (if count_list work HASH > 1 then Inl ValueErr
      else let levels = split_on SLASH work in validate_levels 0 levels (length levels))"

definition validate_topic_filter :: "pystr \<Rightarrow> mqtt_exn + bool" where
  "validate_topic_filter filter_str =
     (if filter_str = [] then Inl ValueErr
      else if 0 \<in> set filter_str then Inr False
      else if share_prefix filter_str then
        (let parts = split_max 2 SLASH filter_str
         in if length parts < 3 \<or> parts ! 1 = [] then Inl ValueErr
            else if PLUS \<in> set (parts ! 1) \<or> HASH \<in> set (parts ! 1) then Inl ValueErr
            else if parts ! 2 = [] then Inl ValueErr
            else validate_work (parts ! 2))
      else validate_work filter_str)"

definition valid_filter :: "pystr \<Rightarrow> bool" where
  "valid_filter topic_filter = (case validate_topic_filter topic_filter of Inl _ \<Rightarrow> False | Inr b \<Rightarrow> b)"

definition parse_share :: "pystr \<Rightarrow> (pystr \<times> pystr) option" where
  "parse_share topic_filter =
     (if \<not> share_prefix topic_filter then None
      else
        let parts = split_max 2 SLASH topic_filter
        in if length parts < 3 then None else Some (parts ! 1, parts ! 2))"

subsection \<open>Shared subscriptions\<close>

lemma split_max_1: "split_max (Suc 0) c s =
    (if c \<in> set s then [takeWhile (\<lambda>x. x \<noteq> c) s, tl (dropWhile (\<lambda>x. x \<noteq> c) s)] else [s])"
  by simp

lemma split_at: "c \<in> set s \<Longrightarrow> s = takeWhile (\<lambda>x. x \<noteq> c) s @ c # tl (dropWhile (\<lambda>x. x \<noteq> c) s)"
  by (induction s) auto

lemma split_at_append:
  "c \<notin> set g \<Longrightarrow> takeWhile (\<lambda>x. x \<noteq> c) (g @ c # r) = g \<and> tl (dropWhile (\<lambda>x. x \<noteq> c) (g @ c # r)) = r"
  by (induction g) auto

lemma share_parts:
  "split_max 2 SLASH (str ''$share/'' @ s) = str ''$share'' # split_max 1 SLASH s"
  by (simp add: numeral_2_eq_2)

lemma parse_share_Some_iff:
  "parse_share f = Some (g, flt) \<longleftrightarrow> SLASH \<notin> set g \<and> f = str ''$share/'' @ g @ SLASH # flt"
proof (cases "share_prefix f")
  case False
  then show ?thesis by (auto simp: parse_share_def share_prefix_def)
next
  case True
  then obtain s where s: "f = str ''$share/'' @ s"
    unfolding share_prefix_def by (metis append_take_drop_id)
  have "parse_share f = (if SLASH \<in> set s then Some (takeWhile (\<lambda>x. x \<noteq> SLASH) s, tl (dropWhile (\<lambda>x. x \<noteq> SLASH) s)) else None)"
    using True share_parts [of s] by (simp add: parse_share_def s Let_def del: str_Cons)
  then show ?thesis
    using split_at [of SLASH s] split_at_append [of SLASH g flt]
    by (auto simp: s dest: set_takeWhileD simp del: str_Cons)
qed

subsection \<open>Matching\<close>

text \<open>Levels of a topic against levels of a filter, section 4.7.1.\<close>

inductive matches :: "pystr list \<Rightarrow> pystr list \<Rightarrow> bool" where
  matches_end: "matches [] []"
| matches_rest: "matches ts [[HASH]]"
| matches_any: "matches ts fs \<Longrightarrow> matches (t # ts) ([PLUS] # fs)"
| matches_level: "f \<noteq> [HASH] \<Longrightarrow> f \<noteq> [PLUS] \<Longrightarrow> matches ts fs \<Longrightarrow> matches (f # ts) (f # fs)"

inductive_simps matches_Nil: "matches ts []"
inductive_simps matches_Cons: "matches ts (f # fs)"

lemma match_loop_matches:
  "fl = pre @ fs \<Longrightarrow> i = length pre \<Longrightarrow> i \<le> length ts \<Longrightarrow> match_loop i fs ts fl = matches (drop i ts) fs"
proof (induction fs arbitrary: pre i)
  case Nil
  then show ?case by (auto simp: matches_Nil)
next
  case (Cons f fs)
  have IH: "match_loop (i + 1) fs ts fl = matches (drop (i + 1) ts) fs" if "i < length ts"
    using Cons.IH [of "pre @ [f]" "i + 1"] Cons.prems that by simp
  show ?case
  proof (cases "i < length ts")
    case True
    then have "drop i ts = ts ! i # drop (i + 1) ts" by (simp add: Cons_nth_drop_Suc)
    with IH [OF True] Cons.prems True show ?thesis by (auto simp: matches_Cons)
  next
    case False
    with Cons.prems show ?thesis by (auto simp: matches_Cons)
  qed
qed

lemma hd_split_on: "c \<noteq> x \<Longrightarrow> take (Suc 0) (hd (split_on c s)) = [x] \<longleftrightarrow> take (Suc 0) s = [x]"
  by (cases s) (auto split: list.splits)

lemma match_levels_matches:
  "match_levels name flt \<longleftrightarrow>
     \<not> (take 1 name = [DOLLAR] \<and> hd (split_on SLASH flt) \<in> {[HASH], [PLUS]}) \<and>
     matches (split_on SLASH name) (split_on SLASH flt)"
  using match_loop_matches [of "split_on SLASH flt" "[]" "split_on SLASH flt" 0 "split_on SLASH name"]
  by (auto simp: match_levels_def Let_def hd_split_on)

text \<open>The filter that a subscription matches with: behind \<^verbatim>\<open>$share/name/\<close>, or all of it.\<close>

definition matching_part :: "pystr \<Rightarrow> pystr option" where
  "matching_part f = (if share_prefix f then map_option snd (parse_share f) else Some f)"

lemma topic_matches_filter_part:
  "topic_matches_filter name f =
     (name \<noteq> [] \<and> (case matching_part f of None \<Rightarrow> False | Some flt \<Rightarrow> match_levels name flt))"
  by (simp add: topic_matches_filter_def matching_part_def parse_share_def Let_def)

text \<open>
  C17. Topic matching: a topic name matches a filter exactly when, level by level, the specified rules
  relate them, where the filter of a shared subscription is the part behind its share name, and a
  leading wildcard does not match a topic that begins with a dollar sign.
\<close>

theorem topic_matching:
  "topic_matches_filter name f \<longleftrightarrow>
     name \<noteq> [] \<and> (\<exists>flt. matching_part f = Some flt \<and>
       \<not> (take 1 name = [DOLLAR] \<and> hd (split_on SLASH flt) \<in> {[HASH], [PLUS]}) \<and>
       matches (split_on SLASH name) (split_on SLASH flt))"
  by (auto simp: topic_matches_filter_part match_levels_matches split: option.splits)

subsection \<open>Validation\<close>

fun levels_ok :: "pystr list \<Rightarrow> bool" where
  "levels_ok [] = True"
| "levels_ok (l # ls) =
     ((if HASH \<in> set l then l = [HASH] \<and> ls = [] else True) \<and> (if PLUS \<in> set l then l = [PLUS] else True) \<and> levels_ok ls)"

lemma validate_levels_eq:
  "n = i + length ls \<Longrightarrow> validate_levels i ls n = (if levels_ok ls then Inr True else Inl ValueErr)"
  by (induction i ls n rule: validate_levels.induct) (auto simp: Suc_le_eq)

lemma count_split_on: "x \<noteq> c \<Longrightarrow> count_list s x = sum_list (map (\<lambda>l. count_list l x) (split_on c s))"
  by (induction s) (auto split: list.splits)

lemma levels_ok_count: "levels_ok ls \<Longrightarrow> sum_list (map (\<lambda>l. count_list l HASH) ls) \<le> 1"
  by (induction ls) (auto split: if_splits simp: count_list_0_iff)

lemma validate_work_eq: "validate_work w = (if levels_ok (split_on SLASH w) then Inr True else Inl ValueErr)"
  using levels_ok_count [of "split_on SLASH w"] count_split_on [of HASH SLASH w]
  by (auto simp: validate_work_def Let_def validate_levels_eq)

text \<open>
  Filter validation: a subscription's filter is accepted exactly when it has no NUL, its wildcards
  fill whole levels with \<^verbatim>\<open>#\<close> only at the end, and a shared one is \<^verbatim>\<open>$share/name/filter\<close> with a name and
  a filter that are not empty and no wildcard or slash in the name.
\<close>

lemma filter_validation:
  "valid_filter f \<longleftrightarrow>
     0 \<notin> set f \<and> f \<noteq> [] \<and>
     (if share_prefix f
      then \<exists>g flt. f = str ''$share/'' @ g @ SLASH # flt \<and> g \<noteq> [] \<and> set g \<inter> {SLASH, PLUS, HASH} = {} \<and>
             flt \<noteq> [] \<and> levels_ok (split_on SLASH flt)
      else levels_ok (split_on SLASH f))"
proof (cases "share_prefix f")
  case False
  then show ?thesis by (auto simp: valid_filter_def validate_topic_filter_def validate_work_eq)
next
  case True
  have valid: "valid_filter f \<longleftrightarrow> f \<noteq> [] \<and> 0 \<notin> set f \<and> (case parse_share f of None \<Rightarrow> False
      | Some (g, flt) \<Rightarrow> g \<noteq> [] \<and> PLUS \<notin> set g \<and> HASH \<notin> set g \<and> flt \<noteq> [] \<and> levels_ok (split_on SLASH flt))"
    using True by (auto simp: valid_filter_def validate_topic_filter_def validate_work_eq parse_share_def Let_def)
  show ?thesis
  proof (cases "parse_share f")
    case None
    then have "\<not> (SLASH \<notin> set g \<and> f = str ''$share/'' @ g @ SLASH # flt)" for g flt
      using parse_share_Some_iff [of f g flt] by simp
    with valid True None show ?thesis by auto
  next
    case (Some p)
    obtain g flt where p: "p = (g, flt)" by (cases p)
    with Some have "SLASH \<notin> set g" "f = str ''$share/'' @ g @ SLASH # flt"
      by (simp_all add: parse_share_Some_iff)
    moreover have "g' = g \<and> flt' = flt" if "SLASH \<notin> set g'" "f = str ''$share/'' @ g' @ SLASH # flt'" for g' flt'
      using parse_share_Some_iff [of f g' flt'] that Some p by simp
    ultimately show ?thesis using valid True Some p by auto
  qed
qed

end
