(* ===== verification/Mqtt_Tap.thy ===== *)
theory Mqtt_Tap
  imports Mqtt_Topic
begin

text \<open>
  Application taps, \<^verbatim>\<open>src/blackbull/mqtt/tap.py\<close>: topic filters with named captures, and the actor that
  hands published messages to the taps from a bounded inbox. A callback is a number; calling one is
  an entry of the list of calls, since \<^verbatim>\<open>run_taps\<close> goes on whatever a callback raises.
\<close>

record tap_message =
  t_topic :: pystr
  t_payload :: bytes
  t_qos :: nat
  t_retain :: bool
  t_properties :: props

record tap =
  match_filter :: pystr
  captures :: "(nat \<times> pystr) list"
  callback :: nat

fun join_on :: "'a \<Rightarrow> 'a list list \<Rightarrow> 'a list" where
  "join_on c [] = []"
| "join_on c [x] = x"
| "join_on c (x # y # ys) = x @ c # join_on c (y # ys)"

definition tap_bind :: "tap \<Rightarrow> pystr \<Rightarrow> (pystr, pystr) dict option" where
  "tap_bind tp name =
     (if \<not> topic_matches_filter name (match_filter tp) then None
      else if captures tp = [] then Some []
      else
        let levels = split_on SLASH name
        in Some (fold (\<lambda>(i, n) d. if i < length levels then dict_set n (levels ! i) d else d) (captures tp) []))"

definition set_level :: "nat \<times> pystr \<Rightarrow> pystr list \<Rightarrow> pystr list" where
  "set_level = (\<lambda>(i, n) levels. if i < length levels then levels[i := 0x7B # n @ [0x7D]] else levels)"

definition display_filter :: "tap \<Rightarrow> pystr" where
  "display_filter tp =
     (if captures tp = [] then match_filter tp
      else join_on SLASH (fold set_level (captures tp) (split_on SLASH (match_filter tp))))"

definition is_capture :: "pystr \<Rightarrow> bool" where
  "is_capture level = (length level \<ge> 2 \<and> hd level = 0x7B \<and> last level = 0x7D)"

fun compile_levels :: "nat \<Rightarrow> pystr list \<Rightarrow> (nat \<times> pystr) list \<times> pystr list" where
  "compile_levels i [] = ([], [])"
| "compile_levels i (level # levels) =
     (case compile_levels (i + 1) levels of
        (caps, out_levels) \<Rightarrow>
          if is_capture level then ((i, butlast (tl level)) # caps, [PLUS] # out_levels)
          else (caps, level # out_levels))"

definition compile_tap :: "pystr \<Rightarrow> nat \<Rightarrow> tap" where
  "compile_tap name cb =
     (case compile_levels 0 (split_on SLASH name) of
        (caps, out_levels) \<Rightarrow> \<lparr>match_filter = join_on SLASH out_levels, captures = caps, callback = cb\<rparr>)"

datatype tap_handler = Compiled tap | Pair_Handler pystr nat

definition compile_taps :: "tap_handler list \<Rightarrow> tap list" where
  "compile_taps = map (\<lambda>h. case h of Compiled tp \<Rightarrow> tp | Pair_Handler f cb \<Rightarrow> compile_tap f cb)"

type_synonym tap_call = "nat \<times> tap_message \<times> (pystr, pystr) dict"

fun run_taps :: "tap list \<Rightarrow> tap_message \<Rightarrow> tap_call list" where
  "run_taps [] m = []"
| "run_taps (tp # taps) m =
     (case tap_bind tp (t_topic m) of
        None \<Rightarrow> run_taps taps m
      | Some caps \<Rightarrow> (callback tp, m, caps) # run_taps taps m)"

record tap_actor =
  ta_handlers :: "tap_handler list"
  ta_taps :: "tap list"
  compiled_count :: "nat option"
  dropped :: nat
  ta_inbox :: "tap_message list"
  ta_maxsize :: nat

text \<open>\<^verbatim>\<open>_compiled_count\<close> is -1, here \<open>None\<close>, before the first compilation; a queue of size 0 is unbounded.\<close>

definition new_tap_actor :: "tap_handler list \<Rightarrow> nat \<Rightarrow> tap_actor" where
  "new_tap_actor handlers queue_size =
     \<lparr>ta_handlers = handlers, ta_taps = [], compiled_count = None, dropped = 0, ta_inbox = [], ta_maxsize = queue_size\<rparr>"

definition tap_offer :: "tap_message \<Rightarrow> tap_actor \<Rightarrow> tap_actor" where
  "tap_offer m ta =
     (if ta_maxsize ta > 0 \<and> length (ta_inbox ta) \<ge> ta_maxsize ta then ta\<lparr>dropped := dropped ta + 1\<rparr>
      else ta\<lparr>ta_inbox := ta_inbox ta @ [m]\<rparr>)"

definition current_taps :: "tap_actor \<Rightarrow> tap list \<times> tap_actor" where
  "current_taps ta =
     (let ta = (if Some (length (ta_handlers ta)) \<noteq> compiled_count ta
                then ta\<lparr>ta_taps := compile_taps (ta_handlers ta), compiled_count := Some (length (ta_handlers ta))\<rparr>
                else ta)
      in (ta_taps ta, ta))"

text \<open>One pass of \<^verbatim>\<open>run\<close>: take a message from the inbox and handle it.\<close>

definition tap_turn :: "tap_actor \<Rightarrow> tap_call list \<times> tap_actor" where
  "tap_turn ta =
     (case ta_inbox ta of
        [] \<Rightarrow> ([], ta)
      | m # inbox \<Rightarrow> (case current_taps (ta\<lparr>ta_inbox := inbox\<rparr>) of (taps, ta') \<Rightarrow> (run_taps taps m, ta')))"

text \<open>\<^verbatim>\<open>on_message\<close> of \<^verbatim>\<open>extension.py\<close> appends to the list of handlers that the actor shares.\<close>

definition on_message :: "pystr \<Rightarrow> nat \<Rightarrow> tap_actor \<Rightarrow> tap_actor" where
  "on_message name cb ta = ta\<lparr>ta_handlers := ta_handlers ta @ [Compiled (compile_tap name cb)]\<rparr>"

subsection \<open>Filters with captures\<close>

lemma join_split: "join_on c (split_on c s) = s"
proof (induction s)
  case (Cons x s)
  then show ?case by (cases "split_on c s" rule: list.exhaust; cases "tl (split_on c s)") auto
qed simp

lemma split_on_append: "c \<notin> set x \<Longrightarrow> split_on c (x @ c # s) = x # split_on c s"
  by (induction x) auto

lemma split_on_single: "c \<notin> set x \<Longrightarrow> split_on c x = [x]"
  by (induction x) auto

lemma split_join: "ls \<noteq> [] \<Longrightarrow> list_all (\<lambda>l. c \<notin> set l) ls \<Longrightarrow> split_on c (join_on c ls) = ls"
  by (induction c ls rule: join_on.induct) (auto simp: split_on_append split_on_single)

lemma split_on_clean: "list_all (\<lambda>l. c \<notin> set l) (split_on c s)"
  by (induction s) (auto split: list.splits)

lemma is_capture_eq: "is_capture l \<Longrightarrow> 0x7B # butlast (tl l) @ [0x7D] = l"
  by (cases l rule: rev_cases; cases "butlast l") (auto simp: is_capture_def butlast_append)

lemma compile_levels_restore:
  "compile_levels i ls = (caps, outs) \<Longrightarrow> i = length pre \<Longrightarrow> fold set_level caps (pre @ outs) = pre @ ls"
proof (induction ls arbitrary: i caps outs pre)
  case (Cons l ls)
  obtain caps' outs' where c: "compile_levels (i + 1) ls = (caps', outs')" by (cases "compile_levels (i + 1) ls")
  from Cons.IH [OF c, of "pre @ [l]"] Cons.prems(2) have IH: "fold set_level caps' ((pre @ [l]) @ outs') = pre @ l # ls"
    by simp
  show ?case
  proof (cases "is_capture l")
    case True
    with Cons.prems c have "caps = (i, butlast (tl l)) # caps'" "outs = [PLUS] # outs'" by auto
    with IH True Cons.prems(2) is_capture_eq [OF True] show ?thesis by (simp add: set_level_def)
  next
    case False
    with Cons.prems c IH show ?thesis by auto
  qed
qed simp

lemma compile_levels_outs:
  "compile_levels i ls = (caps, outs) \<Longrightarrow> list_all (\<lambda>l. SLASH \<notin> set l) ls \<Longrightarrow>
     list_all (\<lambda>l. SLASH \<notin> set l) outs \<and> length outs = length ls"
  by (induction ls arbitrary: i caps outs) (auto split: prod.splits if_splits)

lemma display_compiled: "display_filter (compile_tap name cb) = name"
proof -
  obtain caps outs where c: "compile_levels 0 (split_on SLASH name) = (caps, outs)"
    by (cases "compile_levels 0 (split_on SLASH name)")
  from compile_levels_outs [OF c split_on_clean] have "length outs \<noteq> 0" and clean: "list_all (\<lambda>l. SLASH \<notin> set l) outs"
    by simp_all
  then have ne: "outs \<noteq> []" by simp
  from compile_levels_restore [OF c, of "[]"] have restore: "fold set_level caps outs = split_on SLASH name" by simp
  have tp: "match_filter (compile_tap name cb) = join_on SLASH outs" "captures (compile_tap name cb) = caps"
    by (simp_all add: compile_tap_def c)
  show ?thesis
  proof (cases "caps = []")
    case True
    with restore show ?thesis by (simp add: display_filter_def tp join_split)
  next
    case False
    with restore show ?thesis by (simp add: display_filter_def tp split_join [OF ne clean] join_split)
  qed
qed

subsection \<open>The actor\<close>

datatype tap_event = Offer tap_message | Register pystr nat | Turn

fun tap_run :: "tap_event list \<Rightarrow> tap_actor \<Rightarrow> tap_call list \<times> tap_actor" where
  "tap_run [] ta = ([], ta)"
| "tap_run (Offer m # es) ta = tap_run es (tap_offer m ta)"
| "tap_run (Register f cb # es) ta = tap_run es (on_message f cb ta)"
| "tap_run (Turn # es) ta =
     (case tap_turn ta of (calls, ta') \<Rightarrow> (case tap_run es ta' of (calls', ta'') \<Rightarrow> (calls @ calls', ta'')))"

text \<open>What the actor promises: a bounded first-in first-out queue in front of all taps registered so far.\<close>

fun tap_spec :: "tap_event list \<Rightarrow> nat \<Rightarrow> tap list \<Rightarrow> tap_message list \<Rightarrow> nat \<Rightarrow> tap_call list \<times> tap_message list \<times> nat" where
  "tap_spec [] n taps q d = ([], q, d)"
| "tap_spec (Offer m # es) n taps q d =
     (if n > 0 \<and> length q \<ge> n then tap_spec es n taps q (d + 1) else tap_spec es n taps (q @ [m]) d)"
| "tap_spec (Register f cb # es) n taps q d = tap_spec es n (taps @ [compile_tap f cb]) q d"
| "tap_spec (Turn # es) n taps [] d = tap_spec es n taps [] d"
| "tap_spec (Turn # es) n taps (m # q) d =
     (case tap_spec es n taps q d of (calls, r) \<Rightarrow> (run_taps taps m @ calls, r))"

definition cache_ok :: "tap_actor \<Rightarrow> bool" where
  "cache_ok ta =
     (case compiled_count ta of
        None \<Rightarrow> True
      | Some n \<Rightarrow> n \<le> length (ta_handlers ta) \<and> ta_taps ta = compile_taps (take n (ta_handlers ta)))"

lemma current_taps_fresh:
  assumes "cache_ok ta" and "current_taps ta = (taps, ta')"
  shows "taps = compile_taps (ta_handlers ta)" "cache_ok ta'" "ta_inbox ta' = ta_inbox ta" "dropped ta' = dropped ta"
    "ta_maxsize ta' = ta_maxsize ta" "ta_handlers ta' = ta_handlers ta"
  using assms by (auto simp: current_taps_def cache_ok_def Let_def split: if_splits option.splits)

lemma tap_run_spec:
  "cache_ok ta \<Longrightarrow>
     (case tap_run es ta of (calls, ta') \<Rightarrow> (calls, ta_inbox ta', dropped ta')) =
     tap_spec es (ta_maxsize ta) (compile_taps (ta_handlers ta)) (ta_inbox ta) (dropped ta)"
proof (induction es ta rule: tap_run.induct)
  case (2 m es ta)
  have "cache_ok (tap_offer m ta)" using 2(2) by (auto simp: tap_offer_def cache_ok_def split: option.splits)
  from 2(1) [OF this] show ?case
    by (cases "0 < ta_maxsize ta \<and> length (ta_inbox ta) \<ge> ta_maxsize ta") (auto simp: tap_offer_def)
next
  case (3 f cb es ta)
  have "cache_ok (on_message f cb ta)"
    using 3(2) by (auto simp: on_message_def cache_ok_def split: option.splits)
  with 3 show ?case by (simp add: on_message_def compile_taps_def)
next
  case (4 es ta)
  show ?case
  proof (cases "ta_inbox ta")
    case Nil
    with 4(1) [of "[]" ta] 4(2) show ?thesis by (simp add: tap_turn_def split: prod.splits)
  next
    case (Cons m q)
    obtain taps ta' where c: "current_taps (ta\<lparr>ta_inbox := q\<rparr>) = (taps, ta')" by (cases "current_taps (ta\<lparr>ta_inbox := q\<rparr>)")
    have ok: "cache_ok (ta\<lparr>ta_inbox := q\<rparr>)" using 4(2) by (auto simp: cache_ok_def split: option.splits)
    have turn: "tap_turn ta = (run_taps taps m, ta')" by (simp add: tap_turn_def Cons c)
    from 4(1) [OF turn [symmetric]] current_taps_fresh [OF ok c]
    show ?thesis by (auto simp: Cons turn split: prod.splits)
  qed
qed simp

text \<open>
  C18. The tap actor refines a bounded queue: in every order of offers, registrations and turns it makes
  the calls of a first-in first-out queue in front of all taps registered by then, compiled afresh,
  drops exactly the offers that find the queue full and counts each of them.
\<close>

theorem tap_actor_refines:
  "(case tap_run es (new_tap_actor handlers n) of (calls, ta) \<Rightarrow> (calls, ta_inbox ta, dropped ta)) =
     tap_spec es n (compile_taps handlers) [] 0"
  using tap_run_spec [of "new_tap_actor handlers n" es] by (simp add: new_tap_actor_def cache_ok_def)

end
