(* ===== verification/Mqtt_Broker.thy ===== *)
theory Mqtt_Broker
  imports Mqtt_Topic Complex_Main
begin

text \<open>
  The broker, \<^verbatim>\<open>src/blackbull/mqtt/broker.py\<close>: sessions, subscriptions, retained messages, Wills, routing
  and the acknowledged delivery of QoS 1 and 2. A connection actor is a number (its \<^verbatim>\<open>id\<close>); a handler
  maps the broker to the broker it leaves and the messages it sends to connections, in order. Sending
  to an inbox without bound never waits, so a handler is one step. What a handler raises ends
  \<^verbatim>\<open>BrokerActor.run\<close>, for nothing catches it. A mutable session is the entry of its client in \<open>sessions\<close>.
\<close>

type_synonym conn = nat

datatype broker_exn = NoFreeIdentifier | PublishRefused

datatype to_broker =
    Attach mqtt_connect
  | ClientSubscribe nat "(pystr \<times> nat) list" "sub_options list"
  | ClientUnsubscribe nat "pystr list"
  | ClientPublish mqtt_publish
  | ClientPuback nat
  | ClientPubrec nat
  | ClientPubrel nat
  | ClientPubcomp nat
  | Detach bool "nat option"
  | SweepExpired

datatype to_conn = Send mqtt_message | Close nat

type_synonym outs = "(conn \<times> to_conn) list"

datatype qos2_in = PubrecSent

datatype qos2_out = PublishSent mqtt_publish | PubrelSent

record held =
  h_publish :: mqtt_publish
  h_qos :: nat
  h_retain :: bool

record session =
  subscriptions :: "(pystr \<times> nat \<times> sub_options) list"
  pending_qos1_out :: "(nat, mqtt_publish) dict"
  pending_qos2_in :: "(nat, qos2_in) dict"
  pending_qos2_out :: "(nat, qos2_out) dict"
  outbound_queue :: "held list"
  receive_maximum :: nat
  expiry :: nat
  expires_at :: "real option"
  next_pid :: nat

definition new_broker_session :: session where
  "new_broker_session =
     \<lparr>subscriptions = [], pending_qos1_out = [], pending_qos2_in = [], pending_qos2_out = [], outbound_queue = [],
      receive_maximum = 65535, expiry = 0, expires_at = None, next_pid = 0\<rparr>"

record broker =
  max_retained :: nat
  max_queued :: nat
  b_receive_maximum :: nat
  b_max_packet_size :: nat
  max_subscriptions :: nat
  max_sessions :: nat
  clients :: "(pystr, conn) dict"
  client_by_conn :: "(conn, pystr) dict"
  sessions :: "(pystr, session) dict"
  retained :: "(pystr, mqtt_publish) dict"
  wills :: "(pystr, mqtt_publish) dict"
  auto_seq :: nat
  share_rotation :: "(pystr \<times> pystr, nat) dict"
  expiry_timer :: "real option"

definition new_broker :: "nat \<Rightarrow> nat \<Rightarrow> nat \<Rightarrow> nat \<Rightarrow> nat \<Rightarrow> nat \<Rightarrow> broker" where
  "new_broker retained_cap queued_cap recv packet_size subs_cap sessions_cap =
     \<lparr>max_retained = retained_cap, max_queued = queued_cap, b_receive_maximum = recv, b_max_packet_size = packet_size,
      max_subscriptions = subs_cap, max_sessions = sessions_cap, clients = [], client_by_conn = [], sessions = [],
      retained = [], wills = [], auto_seq = 0, share_rotation = [], expiry_timer = None\<rparr>"

definition EXPIRY_NEVER :: nat where "EXPIRY_NEVER = 0xFFFFFFFF"

definition SUCCESS :: nat where "SUCCESS = 0x00"
definition PROTOCOL_ERROR_RC :: nat where "PROTOCOL_ERROR_RC = 0x82"
definition UNSUPPORTED_PROTOCOL_VERSION :: nat where "UNSUPPORTED_PROTOCOL_VERSION = 0x84"
definition SESSION_TAKEN_OVER :: nat where "SESSION_TAKEN_OVER = 0x8E"
definition TOPIC_FILTER_INVALID :: nat where "TOPIC_FILTER_INVALID = 0x8F"
definition TOPIC_NAME_INVALID :: nat where "TOPIC_NAME_INVALID = 0x90"
definition QUOTA_EXCEEDED :: nat where "QUOTA_EXCEEDED = 0x97"

lemmas reason_codes = SUCCESS_def PROTOCOL_ERROR_RC_def UNSUPPORTED_PROTOCOL_VERSION_def SESSION_TAKEN_OVER_def
  TOPIC_FILTER_INVALID_def TOPIC_NAME_INVALID_def QUOTA_EXCEEDED_def

text \<open>Constructing an \<^verbatim>\<open>MQTTPublish\<close>, with what its \<^verbatim>\<open>__post_init__\<close> refuses.\<close>

definition build_publish :: "mqtt_publish \<Rightarrow> broker_exn + mqtt_publish" where
  "build_publish p = (case mk_publish p of Inl _ \<Rightarrow> Inl PublishRefused | Inr _ \<Rightarrow> Inr p)"

definition prop_int :: "props \<Rightarrow> string \<Rightarrow> nat option" where
  "prop_int ps key = (case dict_get ps key of Some (PInt n) \<Rightarrow> Some n | _ \<Rightarrow> None)"

definition put_session :: "pystr \<Rightarrow> session \<Rightarrow> broker \<Rightarrow> broker" where
  "put_session cid s b = b\<lparr>sessions := dict_set cid s (sessions b)\<rparr>"

subsection \<open>Helpers\<close>

definition session_for :: "broker \<Rightarrow> conn \<Rightarrow> (pystr \<times> session) option" where
  "session_for b conn =
     (case dict_get (client_by_conn b) conn of
        None \<Rightarrow> None
      | Some cid \<Rightarrow> (case dict_get (sessions b) cid of None \<Rightarrow> None | Some s \<Rightarrow> Some (cid, s)))"

function alloc_loop :: "nat \<Rightarrow> nat list \<Rightarrow> nat \<Rightarrow> nat option" where
  "alloc_loop n in_use pid =
     (if n = 0 then None
      else let pid = pid mod 65535 + 1 in if pid \<notin> set in_use then Some pid else alloc_loop (n - 1) in_use pid)"
  by auto
termination
  by (relation "measure fst") auto

declare alloc_loop.simps [simp del]

definition alloc_pid :: "session \<Rightarrow> broker_exn + nat \<times> session" where
  "alloc_pid s =
     (case alloc_loop 65535 (map fst (pending_qos1_out s) @ map fst (pending_qos2_out s)) (next_pid s) of
        None \<Rightarrow> Inl NoFreeIdentifier
      | Some pid \<Rightarrow> Inr (pid, s\<lparr>next_pid := pid\<rparr>))"

definition store_retained :: "mqtt_publish \<Rightarrow> broker \<Rightarrow> bool \<times> broker" where
  "store_retained p b =
     (if payload p = [] then (True, b\<lparr>retained := dict_pop (topic p) (retained b)\<rparr>)
      else if max_retained b \<noteq> 0 \<and> dict_get (retained b) (topic p) = None \<and> length (retained b) \<ge> max_retained b
      then (False, b)
      else (True, b\<lparr>retained := dict_set (topic p) p (retained b)\<rparr>))"

definition in_flight :: "session \<Rightarrow> nat" where
  "in_flight s = length (pending_qos1_out s) + length (pending_qos2_out s)"

definition enqueue_outbound :: "nat \<Rightarrow> mqtt_publish \<Rightarrow> nat \<Rightarrow> bool \<Rightarrow> session \<Rightarrow> session" where
  "enqueue_outbound queued_cap p q r s =
     (if queued_cap \<noteq> 0 \<and> length (outbound_queue s) \<ge> queued_cap then s
      else s\<lparr>outbound_queue := outbound_queue s @ [\<lparr>h_publish = p, h_qos = q, h_retain = r\<rparr>]\<rparr>)"

definition send_qos :: "conn \<Rightarrow> mqtt_publish \<Rightarrow> nat \<Rightarrow> bool \<Rightarrow> session \<Rightarrow> broker_exn + session \<times> outs" where
  "send_qos conn p q r s =
     andThen (alloc_pid s) (\<lambda>(pid, s).
     andThen (build_publish
       \<lparr>topic = topic p, payload = payload p, qos = q, packet_id = Some pid, retain = r, dup = False,
        p_properties = p_properties p\<rparr>) (\<lambda>out.
       Inr (if q = 1 then s\<lparr>pending_qos1_out := dict_set pid out (pending_qos1_out s)\<rparr>
            else s\<lparr>pending_qos2_out := dict_set pid (PublishSent out) (pending_qos2_out s)\<rparr>,
            [(conn, Send (Publish out))])))"

definition deliver :: "nat \<Rightarrow> conn \<Rightarrow> mqtt_publish \<Rightarrow> nat \<Rightarrow> bool \<Rightarrow> session \<Rightarrow> broker_exn + session \<times> outs" where
  "deliver queued_cap conn p granted_qos r s =
     (let q = min (qos p) granted_qos
      in if q = 0 then
           andThen (build_publish
             \<lparr>topic = topic p, payload = payload p, qos = 0, packet_id = None, retain = r, dup = False,
              p_properties = p_properties p\<rparr>) (\<lambda>out. Inr (s, [(conn, Send (Publish out))]))
         else if in_flight s \<ge> receive_maximum s then Inr (enqueue_outbound queued_cap p q r s, [])
         else send_qos conn p q r s)"

fun drain_loop :: "conn \<Rightarrow> held list \<Rightarrow> session \<Rightarrow> broker_exn + session \<times> outs" where
  "drain_loop conn [] s = Inr (s, [])"
| "drain_loop conn (h # queue) s =
     (if in_flight s < receive_maximum s then
        andThen (send_qos conn (h_publish h) (h_qos h) (h_retain h) (s\<lparr>outbound_queue := queue\<rparr>)) (\<lambda>(s, o1).
        andThen (drain_loop conn queue s) (\<lambda>(s, o2). Inr (s, o1 @ o2)))
      else Inr (s, []))"

definition drain_outbound :: "conn \<Rightarrow> broker \<Rightarrow> broker_exn + broker \<times> outs" where
  "drain_outbound conn b =
     (case session_for b conn of
        None \<Rightarrow> Inr (b, [])
      | Some (cid, s) \<Rightarrow>
          andThen (drain_loop conn (outbound_queue s) s) (\<lambda>(s, out). Inr (put_session cid s b, out)))"

definition clear_pending_qos1 :: "conn \<Rightarrow> nat \<Rightarrow> broker \<Rightarrow> broker" where
  "clear_pending_qos1 conn pid b =
     (case session_for b conn of
        None \<Rightarrow> b
      | Some (cid, s) \<Rightarrow> put_session cid (s\<lparr>pending_qos1_out := dict_pop pid (pending_qos1_out s)\<rparr>) b)"

definition clear_pending_qos2 :: "conn \<Rightarrow> nat \<Rightarrow> broker \<Rightarrow> broker" where
  "clear_pending_qos2 conn pid b =
     (case session_for b conn of
        None \<Rightarrow> b
      | Some (cid, s) \<Rightarrow> put_session cid (s\<lparr>pending_qos2_out := dict_pop pid (pending_qos2_out s)\<rparr>) b)"

subsection \<open>Session expiry\<close>

definition prune_share_rotation :: "pystr list \<Rightarrow> broker \<Rightarrow> broker" where
  "prune_share_rotation removed_filters b =
     (let stale = List.map_filter parse_share removed_filters;
          live = concat (map (\<lambda>(_, s). List.map_filter (\<lambda>(f, _). parse_share f) (subscriptions s)) (sessions b))
      in b\<lparr>share_rotation := fold dict_pop (filter (\<lambda>share. share \<notin> set live) stale) (share_rotation b)\<rparr>)"

definition arm_expiry_timer :: "real \<Rightarrow> broker \<Rightarrow> broker" where
  "arm_expiry_timer now b =
     (let deadlines = List.map_filter (\<lambda>(_, s). expires_at s) (sessions b)
      in case deadlines of
           [] \<Rightarrow> b\<lparr>expiry_timer := None\<rparr>
         | d # ds \<Rightarrow> b\<lparr>expiry_timer := Some (now + max 0 (fold min ds d - now))\<rparr>)"

definition expire_session :: "pystr \<Rightarrow> broker \<Rightarrow> broker" where
  "expire_session cid b =
     (case dict_get (sessions b) cid of
        None \<Rightarrow> b
      | Some s \<Rightarrow> prune_share_rotation (map fst (subscriptions s)) (b\<lparr>sessions := dict_pop cid (sessions b)\<rparr>))"

definition sweep_expired :: "real \<Rightarrow> broker \<Rightarrow> broker" where
  "sweep_expired now b =
     (let expired = map fst (filter (\<lambda>(_, s). case expires_at s of None \<Rightarrow> False | Some due \<Rightarrow> due \<le> now) (sessions b))
      in arm_expiry_timer now (fold expire_session expired b))"

text \<open>\<^verbatim>\<open>close\<close>, and the callback of the timer, which posts a message to the broker's own inbox.\<close>

definition broker_close :: "broker \<Rightarrow> broker" where
  "broker_close b = b\<lparr>expiry_timer := None\<rparr>"

definition post_sweep :: "broker \<Rightarrow> broker \<times> to_broker" where
  "post_sweep b = (b\<lparr>expiry_timer := None\<rparr>, SweepExpired)"

subsection \<open>Routing\<close>

fun match_subs :: "pystr \<Rightarrow> bool \<Rightarrow> (pystr \<times> nat \<times> sub_options) list \<Rightarrow> nat option \<Rightarrow> bool \<Rightarrow>
    nat option \<times> bool \<times> ((pystr \<times> pystr) \<times> nat \<times> bool) list" where
  "match_subs name own [] granted rap = (granted, rap, [])"
| "match_subs name own ((f, q, opts) # subs) granted rap =
     (if \<not> topic_matches_filter name f then match_subs name own subs granted rap
      else
        case parse_share f of
          Some share \<Rightarrow>
            (case match_subs name own subs granted rap of
               (g, r, shares) \<Rightarrow> (g, r, (share, q, retain_as_published opts) # shares))
        | None \<Rightarrow>
            if no_local opts \<and> own then match_subs name own subs granted rap
            else match_subs name own subs (Some (case granted of None \<Rightarrow> q | Some g \<Rightarrow> max g q))
                   (rap \<or> retain_as_published opts))"

type_synonym share_member = "conn \<times> pystr \<times> nat \<times> bool"
type_synonym share_groups = "(pystr \<times> pystr, share_member list) dict"

definition add_member :: "conn \<Rightarrow> pystr \<Rightarrow> (pystr \<times> pystr) \<times> nat \<times> bool \<Rightarrow> share_groups \<Rightarrow> share_groups" where
  "add_member conn cid = (\<lambda>(share, q, rap) groups.
     dict_set share ((case dict_get groups share of None \<Rightarrow> [] | Some ms \<Rightarrow> ms) @ [(conn, cid, q, rap)]) groups)"

fun route_clients :: "mqtt_publish \<Rightarrow> conn option \<Rightarrow> (pystr \<times> conn) list \<Rightarrow> broker \<Rightarrow> share_groups \<Rightarrow>
    broker_exn + broker \<times> outs \<times> share_groups" where
  "route_clients p source [] b groups = Inr (b, [], groups)"
| "route_clients p source ((cid, conn) # rest) b groups =
     (case dict_get (sessions b) cid of
        None \<Rightarrow> route_clients p source rest b groups
      | Some s \<Rightarrow>
          (case match_subs (topic p) (Some conn = source) (subscriptions s) None False of
             (granted, rap, shares) \<Rightarrow>
               let groups = fold (add_member conn cid) shares groups
               in case granted of
                    None \<Rightarrow> route_clients p source rest b groups
                  | Some q \<Rightarrow>
                      andThen (deliver (max_queued b) conn p q (rap \<and> retain p) s) (\<lambda>(s, o1).
                      andThen (route_clients p source rest (put_session cid s b) groups) (\<lambda>(b, o2, groups).
                        Inr (b, o1 @ o2, groups)))))"

fun route_shares :: "mqtt_publish \<Rightarrow> share_groups \<Rightarrow> broker \<Rightarrow> broker_exn + broker \<times> outs" where
  "route_shares p [] b = Inr (b, [])"
| "route_shares p ((share, members) # groups) b =
     (let cursor = (case dict_get (share_rotation b) share of None \<Rightarrow> 0 | Some n \<Rightarrow> n) mod length members;
          b = b\<lparr>share_rotation := dict_set share (cursor + 1) (share_rotation b)\<rparr>
      in case members ! cursor of
           (conn, cid, q, rap) \<Rightarrow>
             (case dict_get (sessions b) cid of
                None \<Rightarrow> route_shares p groups b
              | Some s \<Rightarrow>
                  andThen (deliver (max_queued b) conn p q (rap \<and> retain p) s) (\<lambda>(s, o1).
                  andThen (route_shares p groups (put_session cid s b)) (\<lambda>(b, o2). Inr (b, o1 @ o2)))))"

definition route :: "mqtt_publish \<Rightarrow> conn option \<Rightarrow> broker \<Rightarrow> broker_exn + broker \<times> outs" where
  "route p source b =
     andThen (route_clients p source (clients b) b []) (\<lambda>(b, o1, groups).
     andThen (route_shares p groups b) (\<lambda>(b, o2). Inr (b, o1 @ o2)))"

subsection \<open>CONNECT\<close>

fun nat_str :: "nat \<Rightarrow> pystr" where
  "nat_str n = (if n < 10 then [0x30 + n] else nat_str (n div 10) @ [0x30 + n mod 10])"

declare nat_str.simps [simp del]

definition connack_properties :: "broker \<Rightarrow> props" where
  "connack_properties b =
     (if b_max_packet_size b \<noteq> 0 then [(''maximum_packet_size'', PInt (b_max_packet_size b))] else []) @
     (if b_receive_maximum b \<noteq> 0 then [(''receive_maximum'', PInt (b_receive_maximum b))] else [])"

fun replay_qos1 :: "conn \<Rightarrow> (nat \<times> mqtt_publish) list \<Rightarrow> broker_exn + outs" where
  "replay_qos1 conn [] = Inr []"
| "replay_qos1 conn ((_, p) # rest) =
     andThen (build_publish (p\<lparr>dup := True\<rparr>)) (\<lambda>p.
     andThen (replay_qos1 conn rest) (\<lambda>out. Inr ((conn, Send (Publish p)) # out)))"

fun replay_qos2 :: "conn \<Rightarrow> (nat \<times> qos2_out) list \<Rightarrow> broker_exn + outs" where
  "replay_qos2 conn [] = Inr []"
| "replay_qos2 conn ((pid, PublishSent p) # rest) =
     andThen (build_publish (p\<lparr>dup := True\<rparr>)) (\<lambda>p.
     andThen (replay_qos2 conn rest) (\<lambda>out. Inr ((conn, Send (Publish p)) # out)))"
| "replay_qos2 conn ((pid, PubrelSent) # rest) =
     andThen (replay_qos2 conn rest) (\<lambda>out. Inr ((conn, Send (Pubrel pid SUCCESS [])) # out))"

definition replay_pending :: "conn \<Rightarrow> session \<Rightarrow> broker_exn + outs" where
  "replay_pending conn s =
     andThen (replay_qos1 conn (pending_qos1_out s)) (\<lambda>o1.
     andThen (replay_qos2 conn (pending_qos2_out s)) (\<lambda>o2. Inr (o1 @ o2)))"

definition take_over :: "conn \<Rightarrow> pystr \<Rightarrow> broker \<Rightarrow> broker \<times> outs" where
  "take_over conn cid b =
     (case dict_get (clients b) cid of
        Some existing \<Rightarrow>
          if existing \<noteq> conn
          then (b\<lparr>client_by_conn := dict_pop existing (client_by_conn b)\<rparr>,
                [(existing, Send (Disconnect (Some SESSION_TAKEN_OVER) [])), (existing, Close SESSION_TAKEN_OVER)])
          else (b, [])
      | None \<Rightarrow> (b, []))"

definition will_publish :: "mqtt_connect \<Rightarrow> pystr \<Rightarrow> mqtt_publish" where
  "will_publish c t =
     \<lparr>topic = t, payload = (case will_payload c of None \<Rightarrow> [] | Some d \<Rightarrow> d), qos = will_qos c,
      packet_id = (if will_qos c > 0 then Some 1 else None), retain = will_retain c, dup = False,
      p_properties = will_properties c\<rparr>"

definition register_will :: "mqtt_connect \<Rightarrow> pystr \<Rightarrow> broker \<Rightarrow> broker_exn + broker" where
  "register_will c cid b =
     (case will_topic c of
        Some t \<Rightarrow>
          andThen (build_publish (will_publish c t)) (\<lambda>w. Inr (b\<lparr>wills := dict_set cid w (wills b)\<rparr>))
      | None \<Rightarrow> Inr (b\<lparr>wills := dict_pop cid (wills b)\<rparr>))"

text \<open>The session the CONNECT resumes or starts, and whether it was present.\<close>

definition open_session :: "mqtt_connect \<Rightarrow> session option \<Rightarrow> bool \<times> session" where
  "open_session c existing =
     (let interval = (case prop_int (c_properties c) ''session_expiry_interval'' of None \<Rightarrow> 0 | Some n \<Rightarrow> n);
          (present, s) = (if clean_start c then (False, new_broker_session\<lparr>expiry := interval\<rparr>)
                          else case existing of
                                 Some s \<Rightarrow> (True, s\<lparr>expiry := interval\<rparr>)
                               | None \<Rightarrow> (False, new_broker_session\<lparr>expiry := interval\<rparr>));
          s = s\<lparr>expires_at := None\<rparr>
      in (present,
          case prop_int (c_properties c) ''receive_maximum'' of
            None \<Rightarrow> s
          | Some n \<Rightarrow> if n \<noteq> 0 then s\<lparr>receive_maximum := n\<rparr> else s))"

definition on_attach :: "real \<Rightarrow> conn \<Rightarrow> mqtt_connect \<Rightarrow> broker \<Rightarrow> broker_exn + broker \<times> outs" where
  "on_attach now conn c b =
     (if proto_level c \<noteq> 5 then
        Inr (b, [(conn, Send (Connack False UNSUPPORTED_PROTOCOL_VERSION [])), (conn, Close UNSUPPORTED_PROTOCOL_VERSION)])
      else
        let (cid, b) = (if client_id c = []
                        then (str ''auto-'' @ nat_str (auto_seq b + 1), b\<lparr>auto_seq := auto_seq b + 1\<rparr>)
                        else (client_id c, b));
            b = sweep_expired now b
        in if max_sessions b \<noteq> 0 \<and> dict_get (sessions b) cid = None \<and> length (sessions b) \<ge> max_sessions b then
             Inr (b, [(conn, Send (Connack False QUOTA_EXCEEDED [])), (conn, Close QUOTA_EXCEEDED)])
           else
             let (b, o1) = take_over conn cid b;
                 b = b\<lparr>clients := dict_set cid conn (clients b), client_by_conn := dict_set conn cid (client_by_conn b)\<rparr>
             in andThen (register_will c cid b) (\<lambda>b.
                  let (present, s) = open_session c (dict_get (sessions b) cid);
                      b = arm_expiry_timer now (put_session cid s b);
                      o2 = [(conn, Send (Connack present SUCCESS (connack_properties b)))]
                  in andThen (if present then replay_pending conn s else Inr []) (\<lambda>o3. Inr (b, o1 @ o2 @ o3))))"

subsection \<open>SUBSCRIBE and UNSUBSCRIBE\<close>

fun deliver_retained :: "nat \<Rightarrow> conn \<Rightarrow> pystr \<Rightarrow> nat \<Rightarrow> (pystr \<times> mqtt_publish) list \<Rightarrow> session \<Rightarrow>
    broker_exn + session \<times> outs" where
  "deliver_retained queued_cap conn f q [] s = Inr (s, [])"
| "deliver_retained queued_cap conn f q ((name, p) # rest) s =
     (if topic_matches_filter name f then
        andThen (deliver queued_cap conn p q True s) (\<lambda>(s, o1).
        andThen (deliver_retained queued_cap conn f q rest s) (\<lambda>(s, o2). Inr (s, o1 @ o2)))
      else deliver_retained queued_cap conn f q rest s)"

definition default_options :: sub_options where
  "default_options = \<lparr>so_qos = 0, no_local = False, retain_as_published = False, retain_handling = 0\<rparr>"

text \<open>
  The loop over the requested filters: the session, what was sent, and the reason codes, or \<open>None\<close> in
  their place when the connection is closed for a protocol error.
\<close>

fun subscribe_loop :: "broker \<Rightarrow> conn \<Rightarrow> (pystr \<times> nat) list \<Rightarrow> sub_options list \<Rightarrow> session \<Rightarrow>
    broker_exn + session \<times> outs \<times> nat list option" where
  "subscribe_loop b conn [] options s = Inr (s, [], Some [])"
| "subscribe_loop b conn ((f, q) # subs) options s =
     (let opts = (case options of [] \<Rightarrow> default_options | opts # _ \<Rightarrow> opts);
          answer = (\<lambda>code s o1.
            andThen (subscribe_loop b conn subs (tl options) s) (\<lambda>(s, o2, codes).
              Inr (s, o1 @ o2, map_option (\<lambda>cs. code # cs) codes)))
      in if \<not> valid_filter f then answer TOPIC_FILTER_INVALID s []
         else if parse_share f \<noteq> None \<and> no_local opts then
           Inr (s, [(conn, Send (Disconnect (Some PROTOCOL_ERROR_RC) [])), (conn, Close PROTOCOL_ERROR_RC)], None)
         else
           let opts = opts\<lparr>so_qos := q\<rparr>;
               existed = list_ex (\<lambda>(f', _). f' = f) (subscriptions s)
           in if max_subscriptions b \<noteq> 0 \<and> \<not> existed \<and> length (subscriptions s) \<ge> max_subscriptions b
              then answer QUOTA_EXCEEDED s []
              else
                let s = s\<lparr>subscriptions := filter (\<lambda>(f', _). f' \<noteq> f) (subscriptions s) @ [(f, q, opts)]\<rparr>
                in if parse_share f = None \<and> retain_handling opts \<noteq> 2 \<and> \<not> (retain_handling opts = 1 \<and> existed)
                   then andThen (deliver_retained (max_queued b) conn f q (retained b) s) (\<lambda>(s, o1). answer q s o1)
                   else answer q s [])"

definition on_subscribe :: "conn \<Rightarrow> nat \<Rightarrow> (pystr \<times> nat) list \<Rightarrow> sub_options list \<Rightarrow> broker \<Rightarrow> broker_exn + broker \<times> outs" where
  "on_subscribe conn pid subs options b =
     (case session_for b conn of
        None \<Rightarrow> Inr (b, [])
      | Some (cid, s) \<Rightarrow>
          andThen (subscribe_loop b conn subs options s) (\<lambda>(s, o1, codes).
            Inr (put_session cid s b,
                 o1 @ (case codes of None \<Rightarrow> [] | Some cs \<Rightarrow> [(conn, Send (Suback pid cs []))]))))"

definition on_unsubscribe :: "conn \<Rightarrow> nat \<Rightarrow> pystr list \<Rightarrow> broker \<Rightarrow> broker \<times> outs" where
  "on_unsubscribe conn pid topics b =
     (case session_for b conn of
        None \<Rightarrow> (b, [])
      | Some (cid, s) \<Rightarrow>
          let s = s\<lparr>subscriptions := filter (\<lambda>(f, _). f \<notin> set topics) (subscriptions s)\<rparr>
          in (prune_share_rotation topics (put_session cid s b),
              [(conn, Send (Unsuback pid (replicate (length topics) SUCCESS) []))]))"

subsection \<open>PUBLISH and its acknowledgements\<close>

definition reject_publish :: "conn \<Rightarrow> mqtt_publish \<Rightarrow> nat \<Rightarrow> outs" where
  "reject_publish conn p reason =
     (let pid = (case packet_id p of None \<Rightarrow> 0 | Some i \<Rightarrow> i)
      in if qos p = 1 then [(conn, Send (Puback pid reason []))]
         else if qos p = 2 then [(conn, Send (Pubrec pid reason []))]
         else [(conn, Send (Disconnect (Some reason) [])), (conn, Close reason)])"

definition qos2_accept_inbound :: "conn \<Rightarrow> nat \<Rightarrow> broker \<Rightarrow> bool \<times> broker" where
  "qos2_accept_inbound conn pid b =
     (case session_for b conn of
        None \<Rightarrow> (True, b)
      | Some (cid, s) \<Rightarrow>
          if dict_get (pending_qos2_in s) pid \<noteq> None then (False, b)
          else (True, put_session cid (s\<lparr>pending_qos2_in := dict_set pid PubrecSent (pending_qos2_in s)\<rparr>) b))"

text \<open>A PUBLISH of QoS 1 or 2 has a packet identifier, by its constructor.\<close>

definition on_publish :: "conn \<Rightarrow> mqtt_publish \<Rightarrow> broker \<Rightarrow> broker_exn + broker \<times> outs" where
  "on_publish conn p b =
     (if \<not> validate_topic_name (topic p) then Inr (b, reject_publish conn p TOPIC_NAME_INVALID)
      else
        let (stored, b) = (if retain p then store_retained p b else (True, b));
            ack = (if stored then SUCCESS else QUOTA_EXCEEDED);
            pid = (case packet_id p of None \<Rightarrow> 0 | Some i \<Rightarrow> i)
        in if qos p = 1 then
             andThen (route p (Some conn) b) (\<lambda>(b, out). Inr (b, (conn, Send (Puback pid ack [])) # out))
           else if qos p = 2 then
             (case qos2_accept_inbound conn pid b of
                (fresh, b) \<Rightarrow>
                  if \<not> fresh then Inr (b, [(conn, Send (Pubrec pid ack []))])
                  else andThen (route p (Some conn) b) (\<lambda>(b, out). Inr (b, (conn, Send (Pubrec pid ack [])) # out)))
           else route p (Some conn) b)"

definition on_pubrel :: "conn \<Rightarrow> nat \<Rightarrow> broker \<Rightarrow> broker \<times> outs" where
  "on_pubrel conn pid b =
     ((case session_for b conn of
         None \<Rightarrow> b
       | Some (cid, s) \<Rightarrow> put_session cid (s\<lparr>pending_qos2_in := dict_pop pid (pending_qos2_in s)\<rparr>) b),
      [(conn, Send (Pubcomp pid SUCCESS []))])"

definition on_pubrec :: "conn \<Rightarrow> nat \<Rightarrow> broker \<Rightarrow> broker \<times> outs" where
  "on_pubrec conn pid b =
     ((case session_for b conn of
         None \<Rightarrow> b
       | Some (cid, s) \<Rightarrow> put_session cid (s\<lparr>pending_qos2_out := dict_set pid PubrelSent (pending_qos2_out s)\<rparr>) b),
      [(conn, Send (Pubrel pid SUCCESS []))])"

subsection \<open>The end of a connection\<close>

definition publish_will :: "mqtt_publish \<Rightarrow> broker \<Rightarrow> broker_exn + broker \<times> outs" where
  "publish_will w b = route w None (if retain w then snd (store_retained w b) else b)"

definition leave_session :: "real \<Rightarrow> pystr \<Rightarrow> nat option \<Rightarrow> broker \<Rightarrow> broker" where
  "leave_session now cid interval b =
     (case dict_get (sessions b) cid of
        None \<Rightarrow> b
      | Some s \<Rightarrow>
          let s = (case interval of None \<Rightarrow> s | Some n \<Rightarrow> if expiry s > 0 then s\<lparr>expiry := n\<rparr> else s)
          in if expiry s = 0 then
               arm_expiry_timer now
                 (prune_share_rotation (map fst (subscriptions s)) (b\<lparr>sessions := dict_pop cid (sessions b)\<rparr>))
             else if expiry s \<noteq> EXPIRY_NEVER then
               arm_expiry_timer now (put_session cid (s\<lparr>expires_at := Some (now + real (expiry s))\<rparr>) b)
             else put_session cid s b)"

definition on_detach :: "real \<Rightarrow> conn \<Rightarrow> bool \<Rightarrow> nat option \<Rightarrow> broker \<Rightarrow> broker_exn + broker \<times> outs" where
  "on_detach now conn graceful interval b =
     (case dict_get (client_by_conn b) conn of
        None \<Rightarrow> Inr (b, [])
      | Some cid \<Rightarrow>
          let b = b\<lparr>client_by_conn := dict_pop conn (client_by_conn b)\<rparr>;
              b = (if dict_get (clients b) cid = Some conn then b\<lparr>clients := dict_pop cid (clients b)\<rparr> else b);
              will = dict_get (wills b) cid;
              b = b\<lparr>wills := dict_pop cid (wills b)\<rparr>
          in andThen (case will of
                        Some w \<Rightarrow> if graceful then Inr (b, []) else publish_will w b
                      | None \<Rightarrow> Inr (b, [])) (\<lambda>(b, out).
               Inr (leave_session now cid interval b, out)))"

subsection \<open>Dispatch\<close>

fun handle :: "real \<Rightarrow> conn \<Rightarrow> to_broker \<Rightarrow> broker \<Rightarrow> broker_exn + broker \<times> outs" where
  "handle now conn (Attach c) b = on_attach now conn c b"
| "handle now conn (ClientPublish p) b = on_publish conn p b"
| "handle now conn (ClientSubscribe pid subs options) b = on_subscribe conn pid subs options b"
| "handle now conn (ClientUnsubscribe pid topics) b = Inr (on_unsubscribe conn pid topics b)"
| "handle now conn (ClientPubrel pid) b = Inr (on_pubrel conn pid b)"
| "handle now conn (ClientPubrec pid) b = Inr (on_pubrec conn pid b)"
| "handle now conn (ClientPubcomp pid) b = drain_outbound conn (clear_pending_qos2 conn pid b)"
| "handle now conn (ClientPuback pid) b = drain_outbound conn (clear_pending_qos1 conn pid b)"
| "handle now conn (Detach graceful interval) b = on_detach now conn graceful interval b"
| "handle now conn SweepExpired b = Inr (sweep_expired now b, [])"

end
