(* ===== verification/Mqtt_Broker_Inv.thy ===== *)
theory Mqtt_Broker_Inv
  imports Mqtt_Broker
begin

text \<open>
  The broker's invariant. Every stored PUBLISH is one that its constructor accepts, packet identifiers
  are in range and match their packets, dictionaries have one entry per key, subscriptions one per
  filter, the caps hold, and a held message has an acknowledgement outstanding that will release it.
  Every handler keeps the invariant and returns.
\<close>

subsection \<open>Constructed packets\<close>

definition content_ok :: "mqtt_publish \<Rightarrow> bool" where
  "content_ok p =
     (dict_get (p_properties p) ''topic_alias'' \<noteq> Some (PInt 0) \<and>
      (dict_get (p_properties p) ''payload_format_indicator'' = Some (PInt 1) \<longrightarrow> utf8_decode (payload p) \<noteq> None))"

lemma build_publish_iff:
  "build_publish p = Inr q \<longleftrightarrow> q = p \<and> content_ok p \<and> (qos p = 0 \<or> packet_id p \<noteq> None)"
  by (auto simp: build_publish_def mk_publish_def content_ok_def split: if_splits)

lemma build_ok [simp]: "content_ok p \<Longrightarrow> qos p = 0 \<or> packet_id p \<noteq> None \<Longrightarrow> build_publish p = Inr p"
  by (simp add: build_publish_iff)

lemma content_ok_copy [simp]:
  "content_ok \<lparr>topic = t, payload = payload p, qos = q, packet_id = i, retain = r, dup = d, p_properties = p_properties p\<rparr>
     = content_ok p"
  by (simp add: content_ok_def)

lemma content_ok_dup [simp]: "content_ok (p\<lparr>dup := d\<rparr>) = content_ok p"
  by (simp add: content_ok_def)

subsection \<open>Packet identifiers\<close>

lemma alloc_loop_range: "alloc_loop n used pid = Some i \<Longrightarrow> i \<notin> set used \<and> 1 \<le> i \<and> i \<le> 65535"
proof (induction n used pid rule: alloc_loop.induct)
  case (1 n used pid)
  have "pid mod 65535 < 65535" by simp
  with 1 show ?case by (subst (asm) alloc_loop.simps) (auto simp: Let_def split: if_splits)
qed

lemma alloc_loop_tried:
  "alloc_loop n used pid = None \<Longrightarrow> k < n \<Longrightarrow> (pid + k) mod 65535 + 1 \<in> set used"
proof (induction n arbitrary: pid k)
  case (Suc n)
  let ?p = "pid mod 65535 + 1"
  from Suc.prems(1) have used: "?p \<in> set used" and rest: "alloc_loop n used ?p = None"
    by (subst (asm) alloc_loop.simps, simp add: Let_def split: if_splits)+
  show ?case
  proof (cases k)
    case 0
    with used show ?thesis by simp
  next
    case (Suc j)
    with Suc.IH [OF rest, of j] Suc.prems(2) show ?thesis
      using mod_add_left_eq [of pid 65535 "Suc j"] by simp
  qed
qed simp

lemma alloc_loop_all:
  assumes "alloc_loop 65535 used pid = None" and "1 \<le> i" and "i \<le> 65535"
  shows "i \<in> set used"
proof -
  define k where "k = (i - 1 + 65535 - pid mod 65535) mod 65535"
  have "pid mod 65535 < 65535" by simp
  then have "(pid mod 65535 + (i - 1 + 65535 - pid mod 65535)) mod 65535 = (i - 1) mod 65535"
    by simp
  moreover have "(pid + k) mod 65535 = (pid mod 65535 + (i - 1 + 65535 - pid mod 65535)) mod 65535"
    unfolding k_def by (metis mod_add_eq mod_mod_trivial)
  ultimately have "(pid + k) mod 65535 = i - 1" using assms(2,3) by simp
  with alloc_loop_tried [OF assms(1), of k] assms(2) show ?thesis by (simp add: k_def)
qed

lemma alloc_loop_total:
  assumes "length used < 65535"
  shows "\<exists>i. alloc_loop 65535 used pid = Some i"
proof (rule ccontr)
  assume "\<nexists>i. alloc_loop 65535 used pid = Some i"
  then have "{1..65535} \<subseteq> set used" using alloc_loop_all [of used pid] by auto
  then have "card {1..65535 :: nat} \<le> card (set used)" by (intro card_mono) auto
  with card_length [of used] assms show False by simp
qed

subsection \<open>Sessions\<close>

definition qos1_ok :: "nat \<times> mqtt_publish \<Rightarrow> bool" where
  "qos1_ok = (\<lambda>(pid, p). 1 \<le> pid \<and> pid \<le> 65535 \<and> packet_id p = Some pid \<and> qos p = 1 \<and> content_ok p)"

definition qos2_ok :: "nat \<times> qos2_out \<Rightarrow> bool" where
  "qos2_ok = (\<lambda>(pid, e). case e of
     PublishSent p \<Rightarrow> 1 \<le> pid \<and> pid \<le> 65535 \<and> packet_id p = Some pid \<and> qos p \<ge> 2 \<and> content_ok p
   | PubrelSent \<Rightarrow> True)"

definition held_ok :: "held \<Rightarrow> bool" where
  "held_ok h = (content_ok (h_publish h) \<and> h_qos h \<ge> 1)"

text \<open>All of a session but its queue and its subscriptions.\<close>

definition window_ok :: "session \<Rightarrow> bool" where
  "window_ok s =
     (dict_ok (pending_qos1_out s) \<and> dict_ok (pending_qos2_out s) \<and> dict_ok (pending_qos2_in s) \<and>
      list_all qos1_ok (pending_qos1_out s) \<and> list_all qos2_ok (pending_qos2_out s) \<and>
      1 \<le> receive_maximum s \<and> receive_maximum s \<le> 65535)"

definition queue_ok :: "nat \<Rightarrow> session \<Rightarrow> bool" where
  "queue_ok cap s =
     (list_all held_ok (outbound_queue s) \<and> (cap \<noteq> 0 \<longrightarrow> length (outbound_queue s) \<le> cap) \<and>
      (outbound_queue s \<noteq> [] \<longrightarrow> in_flight s > 0))"

definition subs_ok :: "nat \<Rightarrow> session \<Rightarrow> bool" where
  "subs_ok cap s =
     (distinct (map fst (subscriptions s)) \<and> list_all (\<lambda>(f, _). valid_filter f) (subscriptions s) \<and>
      (cap \<noteq> 0 \<longrightarrow> length (subscriptions s) \<le> cap))"

definition session_ok :: "nat \<Rightarrow> nat \<Rightarrow> session \<Rightarrow> bool" where
  "session_ok qcap scap s = (window_ok s \<and> queue_ok qcap s \<and> subs_ok scap s)"

lemmas session_defs = session_ok_def window_ok_def queue_ok_def subs_ok_def

lemma list_all_dict_set: "list_all P d \<Longrightarrow> P (k, v) \<Longrightarrow> list_all P (dict_set k v d)"
  using set_dict_set_subset [of k v d] by (auto simp: list_all_iff)

lemma list_all_dict_pop: "list_all P d \<Longrightarrow> list_all P (dict_pop k d)"
  using set_dict_pop_subset [of k d] by (auto simp: list_all_iff)

lemma dict_set_pos: "0 < length (dict_set k v d)"
  by (cases d) auto

text \<open>What delivering may change of a session: only its window, its queue and the last identifier.\<close>

definition same_rest :: "session \<Rightarrow> session \<Rightarrow> bool" where
  "same_rest s s' =
     (subscriptions s' = subscriptions s \<and> receive_maximum s' = receive_maximum s \<and> expiry s' = expiry s \<and>
      expires_at s' = expires_at s \<and> pending_qos2_in s' = pending_qos2_in s)"

lemma same_rest_refl [simp]: "same_rest s s"
  by (simp add: same_rest_def)

lemma same_rest_trans: "same_rest s s' \<Longrightarrow> same_rest s' s'' \<Longrightarrow> same_rest s s''"
  by (simp add: same_rest_def)

lemma send_qos_ok:
  assumes "window_ok s" and "in_flight s < receive_maximum s" and "content_ok p" and "1 \<le> q"
  shows "\<exists>s' out. send_qos conn p q r s = Inr (s', out) \<and> window_ok s' \<and> same_rest s s' \<and>
    outbound_queue s' = outbound_queue s \<and> in_flight s' = in_flight s + 1"
proof -
  let ?used = "map fst (pending_qos1_out s) @ map fst (pending_qos2_out s)"
  have "length ?used < 65535" using assms(1,2) by (simp add: in_flight_def window_ok_def)
  then obtain pid where pid: "alloc_loop 65535 ?used (next_pid s) = Some pid" using alloc_loop_total by blast
  from alloc_loop_range [OF pid] have range: "pid \<notin> set ?used" "1 \<le> pid" "pid \<le> 65535" by auto
  then have fresh: "dict_get (pending_qos1_out s) pid = None" "dict_get (pending_qos2_out s) pid = None"
    by (auto simp: map_of_eq_None_iff)
  let ?out = "\<lparr>topic = topic p, payload = payload p, qos = q, packet_id = Some pid, retain = r, dup = False,
    p_properties = p_properties p\<rparr>"
  let ?s = "if q = 1 then s\<lparr>next_pid := pid, pending_qos1_out := dict_set pid ?out (pending_qos1_out s)\<rparr>
    else s\<lparr>next_pid := pid, pending_qos2_out := dict_set pid (PublishSent ?out) (pending_qos2_out s)\<rparr>"
  have "send_qos conn p q r s = Inr (?s, [(conn, Send (Publish ?out))])"
    using assms(3) by (simp add: send_qos_def alloc_pid_def pid)
  moreover have "window_ok ?s"
    using assms(1,3,4) range(2,3)
    by (auto simp: window_ok_def qos1_ok_def qos2_ok_def intro!: list_all_dict_set)
  moreover have "in_flight ?s = in_flight s + 1"
    using fresh by (simp add: in_flight_def length_dict_set)
  ultimately show ?thesis by (auto simp: same_rest_def)
qed

lemma deliver_ok:
  assumes "session_ok qc sc s" and "content_ok p"
  shows "\<exists>s' out. deliver qc conn p g r s = Inr (s', out) \<and> session_ok qc sc s' \<and> same_rest s s'"
proof -
  define q where "q = min (qos p) g"
  consider "q = 0" | "q \<noteq> 0" "in_flight s \<ge> receive_maximum s" | "q \<noteq> 0" "in_flight s < receive_maximum s"
    by linarith
  then show ?thesis
  proof cases
    case 1
    with assms show ?thesis by (simp add: deliver_def q_def [symmetric])
  next
    case 2
    with assms have "session_ok qc sc (enqueue_outbound qc p q r s)"
      by (auto simp: session_defs enqueue_outbound_def held_ok_def in_flight_def)
    moreover have "same_rest s (enqueue_outbound qc p q r s)" by (simp add: same_rest_def enqueue_outbound_def)
    ultimately show ?thesis using 2 by (simp add: deliver_def Let_def q_def [symmetric])
  next
    case 3
    from assms(1) have w: "window_ok s" by (simp add: session_ok_def)
    from send_qos_ok [OF w 3(2) assms(2), of q conn r] 3(1) obtain s' out where
      "send_qos conn p q r s = Inr (s', out)" "window_ok s'" "same_rest s s'"
      "outbound_queue s' = outbound_queue s" "in_flight s' = in_flight s + 1" by auto
    with assms(1) 3 show ?thesis
      by (auto simp: deliver_def Let_def q_def [symmetric] session_ok_def queue_ok_def subs_ok_def same_rest_def)
  qed
qed

lemma drain_loop_ok:
  "window_ok s \<Longrightarrow> list_all held_ok q \<Longrightarrow> outbound_queue s = q \<Longrightarrow>
   \<exists>s' out. drain_loop conn q s = Inr (s', out) \<and> window_ok s' \<and> same_rest s s' \<and>
     (\<exists>pre. q = pre @ outbound_queue s') \<and> (outbound_queue s' \<noteq> [] \<longrightarrow> receive_maximum s' \<le> in_flight s')"
proof (induction q arbitrary: s)
  case (Cons h q)
  show ?case
  proof (cases "in_flight s < receive_maximum s")
    case True
    let ?s = "s\<lparr>outbound_queue := q\<rparr>"
    have w: "window_ok ?s" "in_flight ?s < receive_maximum ?s"
      using Cons.prems(1) True by (simp_all add: window_ok_def in_flight_def)
    from Cons.prems(2) have h: "content_ok (h_publish h)" "1 \<le> h_qos h" by (simp_all add: held_ok_def)
    from send_qos_ok [OF w h, of conn "h_retain h"] obtain s1 o1 where
      s1: "send_qos conn (h_publish h) (h_qos h) (h_retain h) ?s = Inr (s1, o1)" "window_ok s1" "same_rest ?s s1"
        "outbound_queue s1 = q" by auto
    from Cons.IH [OF s1(2) _ s1(4)] Cons.prems(2) obtain s2 o2 pre where
      "drain_loop conn q s1 = Inr (s2, o2)" "window_ok s2" "same_rest s1 s2" "q = pre @ outbound_queue s2"
      "outbound_queue s2 \<noteq> [] \<longrightarrow> receive_maximum s2 \<le> in_flight s2" by auto
    moreover have "same_rest s s2" using s1(3) \<open>same_rest s1 s2\<close> by (simp add: same_rest_def)
    ultimately show ?thesis
      using True s1(1) by (auto intro: exI [of _ "h # pre"])
  next
    case False
    with Cons.prems show ?thesis by (auto intro: exI [of _ "[]"])
  qed
qed auto

lemma drained_ok:
  assumes "window_ok s" and "list_all held_ok (outbound_queue s)" and "qc \<noteq> 0 \<longrightarrow> length (outbound_queue s) \<le> qc"
    and "subs_ok sc s"
  shows "\<exists>s' out. drain_loop conn (outbound_queue s) s = Inr (s', out) \<and> session_ok qc sc s' \<and> same_rest s s'"
proof -
  from drain_loop_ok [OF assms(1,2) refl, of conn] obtain s' out pre where
    d: "drain_loop conn (outbound_queue s) s = Inr (s', out)" "window_ok s'" "same_rest s s'"
      "outbound_queue s = pre @ outbound_queue s'" "outbound_queue s' \<noteq> [] \<longrightarrow> receive_maximum s' \<le> in_flight s'"
    by blast
  have "length (outbound_queue s') \<le> length (outbound_queue s)" "list_all held_ok (outbound_queue s')"
    using d(4) assms(2) by simp_all
  with d assms(3,4) show ?thesis by (auto simp: session_defs same_rest_def)
qed

lemma deliver_retained_ok:
  "session_ok qc sc s \<Longrightarrow> list_all (\<lambda>(_, p). content_ok p) rs \<Longrightarrow>
   \<exists>s' out. deliver_retained qc conn f q rs s = Inr (s', out) \<and> session_ok qc sc s' \<and> same_rest s s'"
proof (induction rs arbitrary: s)
  case (Cons r rs)
  obtain name p where r: "r = (name, p)" by (cases r)
  show ?case
  proof (cases "topic_matches_filter name f")
    case True
    from deliver_ok [OF Cons.prems(1), of p conn q True] Cons.prems(2) r obtain s1 o1 where
      s1: "deliver qc conn p q True s = Inr (s1, o1)" "session_ok qc sc s1" "same_rest s s1" by auto
    from Cons.IH [OF s1(2)] Cons.prems(2) obtain s2 o2 where
      "deliver_retained qc conn f q rs s1 = Inr (s2, o2)" "session_ok qc sc s2" "same_rest s1 s2" by auto
    with s1 True r same_rest_trans show ?thesis by auto
  qed (use Cons r in auto)
qed simp

definition replace_sub :: "pystr \<Rightarrow> nat \<Rightarrow> sub_options \<Rightarrow> session \<Rightarrow> session" where
  "replace_sub f q opts s = s\<lparr>subscriptions := filter (\<lambda>(f', _). f' \<noteq> f) (subscriptions s) @ [(f, q, opts)]\<rparr>"

lemma filter_other: "map fst (filter (\<lambda>(f', _). f' \<noteq> f) subs) = filter (\<lambda>f'. f' \<noteq> f) (map fst subs)"
  by (induction subs) auto

lemma length_filter_other:
  "distinct (map fst subs) \<Longrightarrow>
   length (filter (\<lambda>(f', _). f' \<noteq> f) subs) = (if list_ex (\<lambda>(f', _). f' = f) subs then length subs - 1 else length subs)"
proof (induction subs)
  case (Cons x subs)
  show ?case
  proof (cases "fst x = f")
    case True
    with Cons.prems have "filter (\<lambda>(f', _). f' \<noteq> f) subs = subs" by (intro filter_True) (auto simp: image_iff)
    with True show ?thesis by (cases x) simp
  next
    case False
    have "list_ex (\<lambda>(f', _). f' = f) subs \<Longrightarrow> 0 < length subs" by (cases subs) auto
    with Cons False show ?thesis by (cases x) auto
  qed
qed simp

lemma replace_sub_ok:
  assumes "session_ok qc sc s" and "valid_filter f"
    and "\<not> (sc \<noteq> 0 \<and> \<not> list_ex (\<lambda>(f', _). f' = f) (subscriptions s) \<and> length (subscriptions s) \<ge> sc)"
  shows "session_ok qc sc (replace_sub f q opts s)"
proof -
  have "distinct (map fst (subscriptions s))" using assms(1) by (simp add: session_defs)
  from length_filter_other [OF this, of f] assms show ?thesis
    by (auto simp: session_defs replace_sub_def filter_other in_flight_def list_all_iff list_ex_iff split: if_splits)
qed

lemma subscribe_loop_ok:
  "session_ok (max_queued b) (max_subscriptions b) s \<Longrightarrow> list_all (\<lambda>(_, p). content_ok p) (retained b) \<Longrightarrow>
   \<exists>s' out codes. subscribe_loop b conn subs options s = Inr (s', out, codes) \<and>
     session_ok (max_queued b) (max_subscriptions b) s' \<and> expires_at s' = expires_at s"
proof (induction subs arbitrary: options s)
  case (Cons sub subs)
  obtain f q where sub: "sub = (f, q)" by (cases sub)
  define opts where "opts = (case options of [] \<Rightarrow> default_options | opts # _ \<Rightarrow> opts)\<lparr>so_qos := q\<rparr>"
  have answer: "\<exists>s2 out codes. andThen (subscribe_loop b conn subs (tl options) s1) (\<lambda>(s, o2, codes).
        Inr (s, o1 @ o2, map_option (\<lambda>cs. code # cs) codes)) = Inr (s2, out, codes) \<and>
      session_ok (max_queued b) (max_subscriptions b) s2 \<and> expires_at s2 = expires_at s"
    if "session_ok (max_queued b) (max_subscriptions b) s1" "expires_at s1 = expires_at s" for s1 o1 code
    using Cons.IH [OF that(1) Cons.prems(2), of "tl options"] that(2) by auto
  let ?full = "max_subscriptions b \<noteq> 0 \<and> \<not> list_ex (\<lambda>(f', _). f' = f) (subscriptions s) \<and>
    length (subscriptions s) \<ge> max_subscriptions b"
  show ?case
  proof (cases "valid_filter f \<and> \<not> ?full")
    case False
    then show ?thesis
      using answer [of s "[]"] Cons.prems(1) by (auto simp: sub Let_def)
  next
    case True
    let ?s = "replace_sub f q opts s"
    have ok: "session_ok (max_queued b) (max_subscriptions b) ?s" using replace_sub_ok [OF Cons.prems(1)] True by blast
    have exp: "expires_at ?s = expires_at s" by (simp add: replace_sub_def)
    from deliver_retained_ok [OF ok Cons.prems(2), of conn f q] obtain s1 o1 where
      "deliver_retained (max_queued b) conn f q (retained b) ?s = Inr (s1, o1)"
      "session_ok (max_queued b) (max_subscriptions b) s1" "expires_at s1 = expires_at s"
      by (auto simp: same_rest_def exp)
    with True Cons.prems(1) answer [of s1 o1 q] answer [OF ok exp, of "[]" q] show ?thesis
      by (auto simp: sub Let_def opts_def [symmetric] replace_sub_def [symmetric])
  qed
qed simp

subsection \<open>The broker\<close>

definition attached_ok :: "broker \<Rightarrow> bool" where
  "attached_ok b =
     (\<forall>conn cid. dict_get (client_by_conn b) conn = Some cid \<longrightarrow>
        dict_get (clients b) cid = Some conn \<and> (\<exists>s. dict_get (sessions b) cid = Some s \<and> expires_at s = None))"

definition broker_ok :: "broker \<Rightarrow> bool" where
  "broker_ok b =
     (dict_ok (clients b) \<and> dict_ok (client_by_conn b) \<and> dict_ok (sessions b) \<and> dict_ok (retained b) \<and> dict_ok (wills b) \<and>
      list_all (\<lambda>(_, s). session_ok (max_queued b) (max_subscriptions b) s) (sessions b) \<and>
      list_all (\<lambda>(t, p). content_ok p \<and> topic p = t \<and> payload p \<noteq> []) (retained b) \<and>
      list_all (\<lambda>(_, w). content_ok w) (wills b) \<and>
      (max_sessions b \<noteq> 0 \<longrightarrow> length (sessions b) \<le> max_sessions b) \<and>
      (max_retained b \<noteq> 0 \<longrightarrow> length (retained b) \<le> max_retained b) \<and>
      attached_ok b)"

lemma broker_ok_session:
  "broker_ok b \<Longrightarrow> dict_get (sessions b) cid = Some s \<Longrightarrow> session_ok (max_queued b) (max_subscriptions b) s"
  by (auto simp: broker_ok_def list_all_iff dest!: map_of_SomeD)

lemma session_for_Some:
  "session_for b conn = Some (cid, s) \<longleftrightarrow>
     dict_get (client_by_conn b) conn = Some cid \<and> dict_get (sessions b) cid = Some s"
  by (auto simp: session_for_def split: option.splits)

lemma attached_put:
  assumes "attached_ok b" and "dict_get (sessions b) cid = Some s" and "expires_at s' = expires_at s"
  shows "attached_ok (put_session cid s' b)"
  using assms by (fastforce simp: attached_ok_def put_session_def)

lemma put_session_ok:
  assumes "broker_ok b" and "dict_get (sessions b) cid = Some s"
    and "session_ok (max_queued b) (max_subscriptions b) s'" and "expires_at s' = expires_at s"
  shows "broker_ok (put_session cid s' b)"
proof -
  have "attached_ok (put_session cid s' b)" using assms attached_put by (auto simp: broker_ok_def)
  with assms(1-3) show ?thesis
    by (simp add: broker_ok_def put_session_def length_dict_set list_all_dict_set dict_ok_set)
qed

text \<open>What delivering may change of the broker: only windows and queues of sessions, and share cursors.\<close>

definition delivers :: "broker \<Rightarrow> broker \<Rightarrow> bool" where
  "delivers b b' =
     (clients b' = clients b \<and> client_by_conn b' = client_by_conn b \<and> retained b' = retained b \<and> wills b' = wills b \<and>
      max_queued b' = max_queued b \<and> max_subscriptions b' = max_subscriptions b \<and> max_sessions b' = max_sessions b \<and>
      max_retained b' = max_retained b \<and> auto_seq b' = auto_seq b \<and> expiry_timer b' = expiry_timer b \<and>
      (\<forall>cid. rel_option same_rest (dict_get (sessions b) cid) (dict_get (sessions b') cid)))"

lemma delivers_refl [simp]: "delivers b b"
  by (simp add: delivers_def option.rel_refl)

lemma delivers_trans: "delivers b b' \<Longrightarrow> delivers b' b'' \<Longrightarrow> delivers b b''"
proof -
  assume a: "delivers b b'" "delivers b' b''"
  have "rel_option same_rest (dict_get (sessions b) cid) (dict_get (sessions b'') cid)" for cid
    using a option.rel_transp [of same_rest] same_rest_trans
    unfolding delivers_def transp_def by metis
  with a show ?thesis by (simp add: delivers_def)
qed

lemma delivers_put:
  "dict_get (sessions b) cid = Some s \<Longrightarrow> same_rest s s' \<Longrightarrow> delivers b (put_session cid s' b)"
  by (auto simp: delivers_def put_session_def option.rel_refl)

lemma broker_ok_rotation [simp]: "broker_ok (b\<lparr>share_rotation := r\<rparr>) = broker_ok b"
  by (simp add: broker_ok_def attached_ok_def)

lemma broker_ok_timer [simp]: "broker_ok (b\<lparr>expiry_timer := t\<rparr>) = broker_ok b"
  by (simp add: broker_ok_def attached_ok_def)

lemma broker_deliver_ok:
  assumes "broker_ok b" and "content_ok p" and "dict_get (sessions b) cid = Some s"
  shows "\<exists>s' out. deliver (max_queued b) conn p g r s = Inr (s', out) \<and> broker_ok (put_session cid s' b) \<and>
    delivers b (put_session cid s' b)"
proof -
  from deliver_ok [OF broker_ok_session [OF assms(1,3)] assms(2)] obtain s' out where
    "deliver (max_queued b) conn p g r s = Inr (s', out)" "session_ok (max_queued b) (max_subscriptions b) s'" "same_rest s s'"
    by blast
  then show ?thesis
    using put_session_ok [OF assms(1,3)] delivers_put [OF assms(3)] by (auto simp: same_rest_def)
qed

lemma route_clients_ok:
  "broker_ok b \<Longrightarrow> content_ok p \<Longrightarrow>
   \<exists>b' out groups'. route_clients p source cs b groups = Inr (b', out, groups') \<and> broker_ok b' \<and> delivers b b'"
proof (induction cs arbitrary: b groups)
  case (Cons c cs)
  obtain cid conn where c: "c = (cid, conn)" by (cases c)
  show ?case
  proof (cases "dict_get (sessions b) cid")
    case None
    with Cons.IH [OF Cons.prems] c show ?thesis by simp
  next
    case (Some s)
    obtain granted rap shares where
      m: "match_subs (topic p) (Some conn = source) (subscriptions s) None False = (granted, rap, shares)"
      by (cases "match_subs (topic p) (Some conn = source) (subscriptions s) None False")
    show ?thesis
    proof (cases granted)
      case None
      with Cons.IH [OF Cons.prems] Some m c show ?thesis by simp
    next
      case (Some q)
      from broker_deliver_ok [OF Cons.prems \<open>dict_get (sessions b) cid = Some s\<close>] obtain s' o1 where
        d: "deliver (max_queued b) conn p q (rap \<and> retain p) s = Inr (s', o1)" "broker_ok (put_session cid s' b)"
          "delivers b (put_session cid s' b)" by blast
      from Cons.IH [OF d(2) Cons.prems(2), of "fold (add_member conn cid) shares groups"] d
        \<open>dict_get (sessions b) cid = Some s\<close> Some m c delivers_trans
      show ?thesis by fastforce
    qed
  qed
qed simp

lemma route_shares_ok:
  "broker_ok b \<Longrightarrow> content_ok p \<Longrightarrow>
   \<exists>b' out. route_shares p groups b = Inr (b', out) \<and> broker_ok b' \<and> delivers b b'"
proof (induction groups arbitrary: b)
  case (Cons g groups)
  obtain share members where g: "g = (share, members)" by (cases g)
  define cursor where "cursor = (case dict_get (share_rotation b) share of None \<Rightarrow> 0 | Some n \<Rightarrow> n) mod length members"
  define b1 where "b1 = b\<lparr>share_rotation := dict_set share (cursor + 1) (share_rotation b)\<rparr>"
  obtain conn cid q rap where m: "members ! cursor = (conn, cid, q, rap)" by (cases "members ! cursor")
  have b1: "broker_ok b1" "delivers b b1"
    using Cons.prems(1) by (simp_all add: b1_def delivers_def option.rel_refl)
  have eq: "route_shares p (g # groups) b = (case dict_get (sessions b1) cid of
        None \<Rightarrow> route_shares p groups b1
      | Some s \<Rightarrow> andThen (deliver (max_queued b1) conn p q (rap \<and> retain p) s) (\<lambda>(s, o1).
          andThen (route_shares p groups (put_session cid s b1)) (\<lambda>(b, o2). Inr (b, o1 @ o2))))"
    unfolding g route_shares.simps Let_def cursor_def [symmetric] b1_def [symmetric] m prod.case ..
  show ?case
  proof (cases "dict_get (sessions b1) cid")
    case None
    with Cons.IH [OF b1(1) Cons.prems(2)] b1(2) delivers_trans show ?thesis unfolding eq by fastforce
  next
    case (Some s)
    from broker_deliver_ok [OF b1(1) Cons.prems(2) Some] obtain s' o1 where
      d: "deliver (max_queued b1) conn p q (rap \<and> retain p) s = Inr (s', o1)" "broker_ok (put_session cid s' b1)"
        "delivers b1 (put_session cid s' b1)" by blast
    from Cons.IH [OF d(2) Cons.prems(2)] obtain b2 o2 where
      "route_shares p groups (put_session cid s' b1) = Inr (b2, o2)" "broker_ok b2" "delivers (put_session cid s' b1) b2"
      by blast
    with d Some delivers_trans [OF delivers_trans [OF b1(2) d(3)]] show ?thesis unfolding eq by simp
  qed
qed simp

lemma route_ok:
  assumes "broker_ok b" and "content_ok p"
  shows "\<exists>b' out. route p source b = Inr (b', out) \<and> broker_ok b' \<and> delivers b b'"
proof -
  from route_clients_ok [OF assms] obtain b1 o1 groups where
    b1: "route_clients p source (clients b) b [] = Inr (b1, o1, groups)" "broker_ok b1" "delivers b b1" by blast
  from route_shares_ok [OF b1(2) assms(2)] obtain b2 o2 where
    "route_shares p groups b1 = Inr (b2, o2)" "broker_ok b2" "delivers b1 b2" by blast
  with b1 delivers_trans show ?thesis by (auto simp: route_def)
qed

subsection \<open>Expiry\<close>

lemma broker_ok_prune [simp]: "broker_ok (prune_share_rotation fs b) = broker_ok b"
  by (simp add: prune_share_rotation_def Let_def)

lemma sessions_prune [simp]: "sessions (prune_share_rotation fs b) = sessions b"
  by (simp add: prune_share_rotation_def Let_def)

lemma broker_ok_arm [simp]: "broker_ok (arm_expiry_timer now b) = broker_ok b"
  by (simp add: arm_expiry_timer_def Let_def split: list.splits)

lemma sessions_arm [simp]: "sessions (arm_expiry_timer now b) = sessions b"
  by (simp add: arm_expiry_timer_def Let_def split: list.splits)

lemma drop_session_ok:
  assumes "broker_ok b" and "\<And>conn. dict_get (client_by_conn b) conn \<noteq> Some cid"
  shows "broker_ok (b\<lparr>sessions := dict_pop cid (sessions b)\<rparr>)"
proof -
  have "attached_ok (b\<lparr>sessions := dict_pop cid (sessions b)\<rparr>)"
    using assms by (auto simp: broker_ok_def attached_ok_def)
  with assms(1) length_dict_pop_le [of cid "sessions b"] show ?thesis
    by (auto simp: broker_ok_def list_all_dict_pop dict_ok_pop)
qed

lemma expire_session_ok:
  assumes "broker_ok b" and "\<And>s. dict_get (sessions b) cid = Some s \<Longrightarrow> expires_at s \<noteq> None"
  shows "broker_ok (expire_session cid b)"
proof (cases "dict_get (sessions b) cid")
  case (Some s)
  have "dict_get (client_by_conn b) conn \<noteq> Some cid" for conn
    using assms Some by (fastforce simp: broker_ok_def attached_ok_def)
  with drop_session_ok [OF assms(1)] Some show ?thesis by (simp add: expire_session_def)
qed (use assms in \<open>simp add: expire_session_def\<close>)

lemma expire_session_less: "dict_get (sessions (expire_session cid b)) c = Some s \<Longrightarrow> dict_get (sessions b) c = Some s"
  by (auto simp: expire_session_def split: option.splits if_splits)

lemma expire_all_ok:
  assumes "broker_ok b" and "\<And>cid s. cid \<in> set cids \<Longrightarrow> dict_get (sessions b) cid = Some s \<Longrightarrow> expires_at s \<noteq> None"
  shows "broker_ok (fold expire_session cids b)"
  using assms
proof (induction cids arbitrary: b)
  case (Cons cid cids)
  from Cons.prems(2) [of cid] have ok: "broker_ok (expire_session cid b)"
    by (intro expire_session_ok [OF Cons.prems(1)]) simp
  have "broker_ok (fold expire_session cids (expire_session cid b))"
    by (rule Cons.IH [OF ok]) (use Cons.prems(2) expire_session_less in \<open>meson list.set_intros(2)\<close>)
  then show ?case by simp
qed simp

lemma sweep_expired_ok:
  assumes "broker_ok b"
  shows "broker_ok (sweep_expired now b)"
proof -
  let ?expired = "map fst (filter (\<lambda>(_, s). case expires_at s of None \<Rightarrow> False | Some due \<Rightarrow> due \<le> now) (sessions b))"
  have ok: "dict_ok (sessions b)" using assms by (simp add: broker_ok_def)
  have "expires_at s \<noteq> None" if "cid \<in> set ?expired" "dict_get (sessions b) cid = Some s" for cid s
  proof -
    from that(1) obtain s' where "(cid, s') \<in> set (sessions b)" "expires_at s' \<noteq> None" by (auto split: option.splits)
    with map_of_is_SomeI [OF ok this(1)] that(2) show ?thesis by simp
  qed
  with expire_all_ok [OF assms, of ?expired] show ?thesis by (simp add: sweep_expired_def Let_def)
qed

subsection \<open>The handlers\<close>

lemma store_retained_ok:
  assumes "broker_ok b" and "content_ok p"
  shows "broker_ok (snd (store_retained p b))"
proof -
  have "attached_ok (b\<lparr>retained := r\<rparr>) = attached_ok b" for r by (simp add: attached_ok_def)
  with assms length_dict_pop_le [of "topic p" "retained b"] show ?thesis
    by (auto simp: store_retained_def broker_ok_def list_all_dict_pop dict_ok_pop length_dict_set
        intro!: list_all_dict_set)
qed

lemma broker_ok_change:
  assumes "broker_ok b" and "session_for b conn = Some (cid, s)"
    and "session_ok (max_queued b) (max_subscriptions b) s'" and "expires_at s' = expires_at s"
  shows "broker_ok (put_session cid s' b)"
  using assms put_session_ok by (simp add: session_for_Some)

lemma session_for_ok:
  "broker_ok b \<Longrightarrow> session_for b conn = Some (cid, s) \<Longrightarrow> session_ok (max_queued b) (max_subscriptions b) s"
  using broker_ok_session by (auto simp: session_for_Some)

lemma session_ok_qos2_in:
  "session_ok qc sc s \<Longrightarrow> dict_ok d \<Longrightarrow> session_ok qc sc (s\<lparr>pending_qos2_in := d\<rparr>)"
  by (simp add: session_defs in_flight_def)

lemma qos2_accept_ok:
  assumes "broker_ok b"
  shows "broker_ok (snd (qos2_accept_inbound conn pid b))"
proof (cases "session_for b conn")
  case (Some r)
  obtain cid s where r: "r = (cid, s)" by (cases r)
  have s: "session_ok (max_queued b) (max_subscriptions b) s" using session_for_ok [OF assms] Some r by simp
  then have "session_ok (max_queued b) (max_subscriptions b) (s\<lparr>pending_qos2_in := dict_set pid PubrecSent (pending_qos2_in s)\<rparr>)"
    by (intro session_ok_qos2_in) (auto simp: session_defs)
  with broker_ok_change [OF assms] Some r assms show ?thesis by (simp add: qos2_accept_inbound_def)
qed (use assms in \<open>simp add: qos2_accept_inbound_def\<close>)

lemma on_publish_ok:
  assumes "broker_ok b" and "content_ok p"
  shows "\<exists>b' out. on_publish conn p b = Inr (b', out) \<and> broker_ok b'"
proof -
  obtain stored b1 where r: "(if retain p then store_retained p b else (True, b)) = (stored, b1)"
    by (cases "if retain p then store_retained p b else (True, b)")
  obtain fresh b2 where a: "qos2_accept_inbound conn (case packet_id p of None \<Rightarrow> 0 | Some i \<Rightarrow> i) b1 = (fresh, b2)"
    by (cases "qos2_accept_inbound conn (case packet_id p of None \<Rightarrow> 0 | Some i \<Rightarrow> i) b1")
  have b1: "broker_ok b1" using assms store_retained_ok [OF assms] r by (auto split: if_splits)
  have b2: "broker_ok b2" using qos2_accept_ok [OF b1] a by (metis snd_conv)
  from route_ok [OF b1 assms(2), of "Some conn"] route_ok [OF b2 assms(2), of "Some conn"] assms(1) b2 show ?thesis
    by (auto simp: on_publish_def r a Let_def)
qed

end
