(* ===== verification/Mqtt_Broker_Type.thy ===== *)
theory Mqtt_Broker_Type
  imports Mqtt_Broker_Inv
begin

text \<open>
  Every message to the broker is handled without an exception and keeps the invariant, but for a
  CONNECT whose Will is no valid PUBLISH.
\<close>

lemma on_subscribe_ok:
  assumes "broker_ok b"
  shows "\<exists>b' out. on_subscribe conn pid subs options b = Inr (b', out) \<and> broker_ok b'"
proof (cases "session_for b conn")
  case (Some r)
  obtain cid s where r: "r = (cid, s)" by (cases r)
  have "list_all (\<lambda>(_, p). content_ok p) (retained b)" using assms by (auto simp: broker_ok_def list_all_iff)
  with subscribe_loop_ok [OF session_for_ok [OF assms], of conn cid s conn subs options] Some r obtain s' out codes where
    "subscribe_loop b conn subs options s = Inr (s', out, codes)"
    "session_ok (max_queued b) (max_subscriptions b) s'" "expires_at s' = expires_at s" by blast
  with broker_ok_change [OF assms] Some r show ?thesis by (simp add: on_subscribe_def)
qed (use assms in \<open>simp add: on_subscribe_def\<close>)

lemma unsubscribe_subs_ok:
  "session_ok qc sc s \<Longrightarrow> session_ok qc sc (s\<lparr>subscriptions := filter P (subscriptions s)\<rparr>)"
  by (auto simp: session_defs in_flight_def list_all_iff distinct_map_filter intro: le_trans [OF length_filter_le])

lemma on_unsubscribe_ok: "broker_ok b \<Longrightarrow> broker_ok (fst (on_unsubscribe conn pid topics b))"
  using broker_ok_change [of b conn] unsubscribe_subs_ok session_for_ok
  by (auto simp: on_unsubscribe_def Let_def split: option.splits)

lemma update_session_ok:
  assumes "broker_ok b"
    and "\<And>s. session_ok (max_queued b) (max_subscriptions b) s \<Longrightarrow>
      session_ok (max_queued b) (max_subscriptions b) (f s) \<and> expires_at (f s) = expires_at s"
  shows "broker_ok (case session_for b conn of None \<Rightarrow> b | Some (cid, s) \<Rightarrow> put_session cid (f s) b)"
proof (cases "session_for b conn")
  case (Some r)
  obtain cid s where r: "r = (cid, s)" by (cases r)
  from assms(2) [OF session_for_ok [OF assms(1)]] Some r broker_ok_change [OF assms(1)] show ?thesis by simp
qed (use assms in simp)

lemma on_pubrel_ok: "broker_ok b \<Longrightarrow> broker_ok (fst (on_pubrel conn pid b))"
  unfolding on_pubrel_def fst_conv
  by (rule update_session_ok) (simp_all add: session_ok_qos2_in session_ok_def window_ok_def dict_ok_pop queue_ok_def
      subs_ok_def in_flight_def)

lemma pubrec_session_ok:
  "session_ok qc sc s \<Longrightarrow> session_ok qc sc (s\<lparr>pending_qos2_out := dict_set pid PubrelSent (pending_qos2_out s)\<rparr>)"
  using dict_set_pos [of pid PubrelSent "pending_qos2_out s"]
  by (auto simp: session_defs in_flight_def qos2_ok_def intro!: list_all_dict_set)

lemma on_pubrec_ok: "broker_ok b \<Longrightarrow> broker_ok (fst (on_pubrec conn pid b))"
  unfolding on_pubrec_def fst_conv by (rule update_session_ok) (simp_all add: pubrec_session_ok)

text \<open>An acknowledgement empties a slot, and the queue is drained into it.\<close>

lemma ack_ok:
  assumes "broker_ok b" and "session_for b conn = Some (cid, s)"
    and "window_ok s'" and "outbound_queue s' = outbound_queue s" and "same_rest s s'"
  shows "\<exists>b' out. drain_outbound conn (put_session cid s' b) = Inr (b', out) \<and> broker_ok b'"
proof -
  from session_for_ok [OF assms(1,2)] have s: "session_ok (max_queued b) (max_subscriptions b) s" .
  have "\<exists>s2 out. drain_loop conn (outbound_queue s') s' = Inr (s2, out) \<and>
      session_ok (max_queued b) (max_subscriptions b) s2 \<and> same_rest s' s2"
    using s assms(3-5) by (intro drained_ok) (auto simp: session_defs same_rest_def)
  then obtain s2 out where d: "drain_loop conn (outbound_queue s') s' = Inr (s2, out)"
    "session_ok (max_queued b) (max_subscriptions b) s2" "same_rest s' s2" by blast
  have "session_for (put_session cid s' b) conn = Some (cid, s')"
    using assms(2) by (simp add: session_for_Some put_session_def)
  moreover have "put_session cid s2 (put_session cid s' b) = put_session cid s2 b"
    by (simp add: put_session_def)
  moreover have "broker_ok (put_session cid s2 b)"
    using broker_ok_change [OF assms(1,2) d(2)] d(3) assms(5) by (simp add: same_rest_def)
  ultimately show ?thesis using d(1) by (simp add: drain_outbound_def)
qed

lemma on_puback_ok:
  assumes "broker_ok b"
  shows "\<exists>b' out. drain_outbound conn (clear_pending_qos1 conn pid b) = Inr (b', out) \<and> broker_ok b'"
proof (cases "session_for b conn")
  case (Some r)
  obtain cid s where r: "r = (cid, s)" by (cases r)
  let ?s = "s\<lparr>pending_qos1_out := dict_pop pid (pending_qos1_out s)\<rparr>"
  have "window_ok ?s" using session_for_ok [OF assms] Some r
    by (auto simp: session_ok_def window_ok_def list_all_dict_pop dict_ok_pop)
  from ack_ok [OF assms _ this, of conn cid s] Some r show ?thesis
    by (simp add: clear_pending_qos1_def same_rest_def)
qed (use assms in \<open>simp add: drain_outbound_def clear_pending_qos1_def\<close>)

lemma on_pubcomp_ok:
  assumes "broker_ok b"
  shows "\<exists>b' out. drain_outbound conn (clear_pending_qos2 conn pid b) = Inr (b', out) \<and> broker_ok b'"
proof (cases "session_for b conn")
  case (Some r)
  obtain cid s where r: "r = (cid, s)" by (cases r)
  let ?s = "s\<lparr>pending_qos2_out := dict_pop pid (pending_qos2_out s)\<rparr>"
  have "window_ok ?s" using session_for_ok [OF assms] Some r
    by (auto simp: session_ok_def window_ok_def list_all_dict_pop dict_ok_pop)
  from ack_ok [OF assms _ this, of conn cid s] Some r show ?thesis
    by (simp add: clear_pending_qos2_def same_rest_def)
qed (use assms in \<open>simp add: drain_outbound_def clear_pending_qos2_def\<close>)

subsection \<open>The end of a connection\<close>

definition unattached :: "pystr \<Rightarrow> broker \<Rightarrow> bool" where
  "unattached cid b = (\<forall>conn. dict_get (client_by_conn b) conn \<noteq> Some cid)"

lemma put_unattached_ok:
  assumes "broker_ok b" and "unattached cid b" and "dict_get (sessions b) cid = Some s"
    and "session_ok (max_queued b) (max_subscriptions b) s'"
  shows "broker_ok (put_session cid s' b)"
proof -
  have "attached_ok (put_session cid s' b)"
    using assms(1,2) by (auto simp: broker_ok_def attached_ok_def put_session_def unattached_def)
  with assms show ?thesis
    by (simp add: broker_ok_def put_session_def length_dict_set list_all_dict_set dict_ok_set)
qed

lemma leave_session_ok:
  assumes "broker_ok b" and "unattached cid b"
  shows "broker_ok (leave_session now cid interval b)"
proof (cases "dict_get (sessions b) cid")
  case (Some s)
  define s1 where "s1 = (case interval of None \<Rightarrow> s | Some n \<Rightarrow> if expiry s > 0 then s\<lparr>expiry := n\<rparr> else s)"
  have ok: "session_ok (max_queued b) (max_subscriptions b) (s1\<lparr>expires_at := e\<rparr>)"
    "session_ok (max_queued b) (max_subscriptions b) s1" for e
    using broker_ok_session [OF assms(1) Some]
    by (auto simp: s1_def session_defs in_flight_def split: option.splits)
  have "broker_ok (b\<lparr>sessions := dict_pop cid (sessions b)\<rparr>)"
    using assms by (intro drop_session_ok) (auto simp: unattached_def)
  then show ?thesis
    using Some put_unattached_ok [OF assms Some] ok
    by (simp add: leave_session_def s1_def [symmetric] Let_def)
qed (use assms in \<open>simp add: leave_session_def\<close>)

lemma detached_ok:
  assumes "broker_ok b" and "dict_get (client_by_conn b) conn = Some cid"
  shows "broker_ok (b\<lparr>client_by_conn := dict_pop conn (client_by_conn b), clients := dict_pop cid (clients b),
      wills := dict_pop cid (wills b)\<rparr>)"
    and "unattached cid (b\<lparr>client_by_conn := dict_pop conn (client_by_conn b), clients := dict_pop cid (clients b),
      wills := dict_pop cid (wills b)\<rparr>)"
proof -
  have a: "attached_ok b" using assms(1) by (simp add: broker_ok_def)
  have other: "c = conn" if "dict_get (client_by_conn b) c = Some cid" for c
    using a assms(2) that unfolding attached_ok_def by (metis option.inject)
  show "unattached cid (b\<lparr>client_by_conn := dict_pop conn (client_by_conn b), clients := dict_pop cid (clients b),
      wills := dict_pop cid (wills b)\<rparr>)"
    using other by (auto simp: unattached_def)
  have "attached_ok (b\<lparr>client_by_conn := dict_pop conn (client_by_conn b), clients := dict_pop cid (clients b),
      wills := dict_pop cid (wills b)\<rparr>)"
    using a other by (auto simp: attached_ok_def)
  with assms(1) show "broker_ok (b\<lparr>client_by_conn := dict_pop conn (client_by_conn b), clients := dict_pop cid (clients b),
      wills := dict_pop cid (wills b)\<rparr>)"
    by (simp add: broker_ok_def list_all_dict_pop dict_ok_pop)
qed

lemma on_detach_ok:
  assumes "broker_ok b"
  shows "\<exists>b' out. on_detach now conn graceful interval b = Inr (b', out) \<and> broker_ok b'"
proof (cases "dict_get (client_by_conn b) conn")
  case (Some cid)
  define b1 where "b1 = b\<lparr>client_by_conn := dict_pop conn (client_by_conn b), clients := dict_pop cid (clients b),
      wills := dict_pop cid (wills b)\<rparr>"
  note b1 = detached_ok [OF assms Some, folded b1_def]
  have live: "dict_get (clients b) cid = Some conn" using assms Some by (simp add: broker_ok_def attached_ok_def)
  have wills: "content_ok w" if "dict_get (wills b) cid = Some w" for w
    using assms that by (auto simp: broker_ok_def list_all_iff dest!: map_of_SomeD)
  have route: "\<exists>b2 out. publish_will w b1 = Inr (b2, out) \<and> broker_ok b2 \<and> unattached cid b2"
    if "dict_get (wills b) cid = Some w" for w
  proof -
    have "broker_ok (if retain w then snd (store_retained w b1) else b1)"
      using store_retained_ok [OF b1(1) wills [OF that]] b1(1) by simp
    from route_ok [OF this wills [OF that], of None] obtain b2 out where
      "publish_will w b1 = Inr (b2, out)" "broker_ok b2" "delivers (if retain w then snd (store_retained w b1) else b1) b2"
      by (auto simp: publish_will_def)
    moreover have "client_by_conn (if retain w then snd (store_retained w b1) else b1) = client_by_conn b1"
      by (simp add: store_retained_def)
    ultimately show ?thesis using b1(2) by (auto simp: unattached_def delivers_def)
  qed
  show ?thesis
  proof (cases "dict_get (wills b) cid")
    case None
    with Some live leave_session_ok [OF b1] show ?thesis by (simp add: on_detach_def Let_def b1_def)
  next
    case (Some w)
    with route [OF Some] leave_session_ok [OF b1] leave_session_ok live \<open>dict_get (client_by_conn b) conn = Some cid\<close>
    show ?thesis by (auto simp: on_detach_def Let_def b1_def)
  qed
qed (use assms in \<open>simp add: on_detach_def\<close>)

subsection \<open>CONNECT\<close>

lemma replay_qos1_ok: "list_all qos1_ok d \<Longrightarrow> \<exists>out. replay_qos1 conn d = Inr out"
  by (induction conn d rule: replay_qos1.induct) (auto simp: qos1_ok_def)

lemma replay_qos2_ok: "list_all qos2_ok d \<Longrightarrow> \<exists>out. replay_qos2 conn d = Inr out"
  by (induction conn d rule: replay_qos2.induct) (auto simp: qos2_ok_def)

lemma replay_pending_ok:
  assumes "session_ok qc sc s"
  shows "\<exists>out. replay_pending conn s = Inr out"
proof -
  from assms have "list_all qos1_ok (pending_qos1_out s)" "list_all qos2_ok (pending_qos2_out s)"
    by (simp_all add: session_ok_def window_ok_def)
  from replay_qos1_ok [OF this(1)] replay_qos2_ok [OF this(2)] show ?thesis by (metis andThen_Inr replay_pending_def)
qed

text \<open>A CONNECT as the decoder delivers it, with a Will that is a valid PUBLISH.\<close>

definition connect_ok :: "mqtt_connect \<Rightarrow> bool" where
  "connect_ok c =
     ((case prop_int (c_properties c) ''receive_maximum'' of None \<Rightarrow> True | Some n \<Rightarrow> n \<le> 65535) \<and>
      (case will_topic c of None \<Rightarrow> True | Some t \<Rightarrow> content_ok (will_publish c t)))"

lemma new_session_ok: "session_ok qc sc new_broker_session"
  by (simp add: session_defs new_broker_session_def in_flight_def)

lemma open_session_ok:
  assumes "connect_ok c" and "\<And>s. existing = Some s \<Longrightarrow> session_ok qc sc s" and "open_session c existing = (present, s)"
  shows "session_ok qc sc s" "expires_at s = None"
proof -
  have base: "session_ok qc sc (s0\<lparr>expiry := i, expires_at := None\<rparr>)" if "session_ok qc sc s0" for s0 i
    using that by (simp add: session_defs in_flight_def)
  have recv: "session_ok qc sc (s0\<lparr>receive_maximum := n\<rparr>)" if "session_ok qc sc s0" "n \<noteq> 0" "n \<le> 65535" for s0 n
    using that by (simp add: session_defs in_flight_def)
  show "session_ok qc sc s" "expires_at s = None"
    using assms base [OF new_session_ok] base recv
    by (auto simp: open_session_def connect_ok_def Let_def split: option.splits if_splits)
qed

lemma register_will_eq:
  assumes "connect_ok c"
  shows "\<exists>ws. register_will c cid b = Inr (b\<lparr>wills := ws\<rparr>) \<and>
    (list_all (\<lambda>(_, w). content_ok w) (wills b) \<longrightarrow> list_all (\<lambda>(_, w). content_ok w) ws) \<and>
    (dict_ok (wills b) \<longrightarrow> dict_ok ws)"
proof (cases "will_topic c")
  case (Some t)
  with assms have "build_publish (will_publish c t) = Inr (will_publish c t)"
    by (simp add: connect_ok_def will_publish_def)
  with Some assms show ?thesis
    by (auto simp: register_will_def connect_ok_def intro!: list_all_dict_set)
qed (auto simp: register_will_def list_all_dict_pop)

text \<open>The broker once a client is registered: takeover, both registries, its Will and its session.\<close>

lemma attached_new:
  assumes "attached_ok b" and "take_over conn cid b = (b1, o1)" and "expires_at s = None"
  shows "attached_ok (put_session cid s (b1\<lparr>clients := dict_set cid conn (clients b1),
      client_by_conn := dict_set conn cid (client_by_conn b1), wills := ws\<rparr>))"
  using assms
  by (auto simp: attached_ok_def take_over_def put_session_def split: option.splits if_splits)

lemma registered_ok:
  assumes "broker_ok b" and "take_over conn cid b = (b1, o1)" and "expires_at s = None"
    and "session_ok (max_queued b) (max_subscriptions b) s"
    and "list_all (\<lambda>(_, w). content_ok w) ws" and "dict_ok ws"
    and "\<not> (max_sessions b \<noteq> 0 \<and> dict_get (sessions b) cid = None \<and> length (sessions b) \<ge> max_sessions b)"
  shows "broker_ok (put_session cid s (b1\<lparr>clients := dict_set cid conn (clients b1),
      client_by_conn := dict_set conn cid (client_by_conn b1), wills := ws\<rparr>))"
proof -
  have b1: "b1 = b\<lparr>client_by_conn := client_by_conn b1\<rparr>" "dict_ok (client_by_conn b1)"
    using assms(1,2) by (auto simp: take_over_def broker_ok_def dict_ok_pop split: option.splits if_splits)
  have "attached_ok (put_session cid s (b1\<lparr>clients := dict_set cid conn (clients b1),
      client_by_conn := dict_set conn cid (client_by_conn b1), wills := ws\<rparr>))"
    using attached_new [OF _ assms(2,3)] assms(1) by (simp add: broker_ok_def)
  moreover have "clients b1 = clients b" "sessions b1 = sessions b" "retained b1 = retained b" "max_queued b1 = max_queued b"
    "max_subscriptions b1 = max_subscriptions b" "max_sessions b1 = max_sessions b" "max_retained b1 = max_retained b"
    by (subst b1(1), simp)+
  ultimately show ?thesis
    using assms b1(2)
    by (auto simp: broker_ok_def put_session_def length_dict_set list_all_dict_set dict_ok_set)
qed

lemma on_attach_ok:
  assumes "broker_ok b" and "connect_ok c"
  shows "\<exists>b' out. on_attach now conn c b = Inr (b', out) \<and> broker_ok b'"
proof (cases "proto_level c = 5")
  case True
  define cid where "cid = (if client_id c = [] then str ''auto-'' @ nat_str (auto_seq b + 1) else client_id c)"
  define b0 where "b0 = sweep_expired now (if client_id c = [] then b\<lparr>auto_seq := auto_seq b + 1\<rparr> else b)"
  have "attached_ok (b\<lparr>auto_seq := auto_seq b + 1\<rparr>) = attached_ok b" by (simp add: attached_ok_def)
  then have "broker_ok (b\<lparr>auto_seq := auto_seq b + 1\<rparr>)" using assms(1) by (simp add: broker_ok_def)
  then have b0: "broker_ok b0" using assms(1) sweep_expired_ok by (simp add: b0_def)
  have pair: "(if client_id c = [] then (str ''auto-'' @ nat_str (auto_seq b + 1), b\<lparr>auto_seq := auto_seq b + 1\<rparr>)
      else (client_id c, b)) = (cid, if client_id c = [] then b\<lparr>auto_seq := auto_seq b + 1\<rparr> else b)"
    by (simp add: cid_def)
  let ?full = "max_sessions b0 \<noteq> 0 \<and> dict_get (sessions b0) cid = None \<and> length (sessions b0) \<ge> max_sessions b0"
  obtain b1 o1 where t: "take_over conn cid b0 = (b1, o1)" by (cases "take_over conn cid b0")
  define b2 where "b2 = b1\<lparr>clients := dict_set cid conn (clients b1), client_by_conn := dict_set conn cid (client_by_conn b1)\<rparr>"
  have same: "wills b2 = wills b0" "sessions b2 = sessions b0"
    using t by (auto simp: b2_def take_over_def split: option.splits if_splits)
  from register_will_eq [OF assms(2), of cid b2] obtain ws where
    ws: "register_will c cid b2 = Inr (b2\<lparr>wills := ws\<rparr>)" "list_all (\<lambda>(_, w). content_ok w) ws" "dict_ok ws"
    using b0 same by (auto simp: broker_ok_def)
  obtain present s where o: "open_session c (dict_get (sessions b0) cid) = (present, s)"
    by (cases "open_session c (dict_get (sessions b0) cid)")
  from open_session_ok [OF assms(2) broker_ok_session [OF b0] o]
  have s: "session_ok (max_queued b0) (max_subscriptions b0) s" "expires_at s = None" by simp_all
  from replay_pending_ok [OF s(1), of conn] obtain o3 where replay: "replay_pending conn s = Inr o3" by blast
  define b3 where "b3 = put_session cid s (b2\<lparr>wills := ws\<rparr>)"
  have b3: "broker_ok b3" if "\<not> ?full"
    using registered_ok [OF b0 t s(2,1) ws(2,3) that] by (simp add: b3_def b2_def)
  show ?thesis
  proof (cases ?full)
    case True
    then show ?thesis using \<open>proto_level c = 5\<close> b0
      by (simp add: on_attach_def pair b0_def [symmetric] Let_def)
  next
    case False
    have "on_attach now conn c b = andThen (register_will c cid b2) (\<lambda>b.
        let (present, s) = open_session c (dict_get (sessions b) cid);
            b = arm_expiry_timer now (put_session cid s b);
            o2 = [(conn, Send (Connack present SUCCESS (connack_properties b)))]
        in andThen (if present then replay_pending conn s else Inr []) (\<lambda>o3. Inr (b, o1 @ o2 @ o3)))"
      using True False unfolding on_attach_def pair
      by (simp only: b0_def [symmetric] Let_def prod.case t b2_def [symmetric]) auto
    with b3 [OF False] show ?thesis
      by (simp add: ws(1) same o replay b3_def [symmetric] Let_def)
  qed
qed (use assms in \<open>simp add: on_attach_def\<close>)

subsection \<open>Runs\<close>

fun msg_ok :: "to_broker \<Rightarrow> bool" where
  "msg_ok (Attach c) = connect_ok c"
| "msg_ok (ClientPublish p) = content_ok p"
| "msg_ok _ = True"

lemma handle_ok:
  assumes "broker_ok b" and "msg_ok m"
  shows "\<exists>b' out. handle now conn m b = Inr (b', out) \<and> broker_ok b'"
proof (cases m)
  case (ClientUnsubscribe pid topics)
  with on_unsubscribe_ok [OF assms(1), of conn pid topics] show ?thesis by (auto simp: prod_eq_iff)
next
  case (ClientPubrec pid)
  with on_pubrec_ok [OF assms(1), of conn pid] show ?thesis by (auto simp: prod_eq_iff)
next
  case (ClientPubrel pid)
  with on_pubrel_ok [OF assms(1), of conn pid] show ?thesis by (auto simp: prod_eq_iff)
qed (use assms in \<open>simp_all add: on_attach_ok on_publish_ok on_subscribe_ok on_puback_ok on_pubcomp_ok on_detach_ok
    sweep_expired_ok del: ex_simps\<close>)

text \<open>The broker's inbox is drained message by message; the timer's callback may run between two.\<close>

datatype broker_event = Arrives real conn to_broker | TimerFires

fun event_ok :: "broker_event \<Rightarrow> bool" where
  "event_ok (Arrives now conn m) = msg_ok m"
| "event_ok TimerFires = True"

fun broker_step :: "broker_exn + broker \<times> outs \<Rightarrow> broker_event \<Rightarrow> broker_exn + broker \<times> outs" where
  "broker_step r (Arrives now conn m) =
     andThen r (\<lambda>(b, o1). andThen (handle now conn m b) (\<lambda>(b, o2). Inr (b, o1 @ o2)))"
| "broker_step r TimerFires = andThen r (\<lambda>(b, o1). Inr (fst (post_sweep b), o1))"

definition broker_run :: "broker \<Rightarrow> broker_event list \<Rightarrow> broker_exn + broker \<times> outs" where
  "broker_run b es = foldl broker_step (Inr (b, [])) es"

definition runs_ok :: "broker_exn + broker \<times> outs \<Rightarrow> bool" where
  "runs_ok r = (case r of Inl _ \<Rightarrow> False | Inr (b, _) \<Rightarrow> broker_ok b)"

interpretation bm: invariant_machine broker_step runs_ok event_ok
proof
  fix r e
  assume r: "runs_ok r" and e: "event_ok e"
  then obtain b o1 where b: "r = Inr (b, o1)" "broker_ok b" by (auto simp: runs_ok_def split: sum.splits)
  show "runs_ok (broker_step r e)"
  proof (cases e)
    case (Arrives now conn m)
    with handle_ok [OF b(2), of m now conn] e b(1) show ?thesis by (auto simp: runs_ok_def)
  qed (use b in \<open>simp add: runs_ok_def post_sweep_def\<close>)
qed

lemma new_broker_ok: "broker_ok (new_broker n1 n2 n3 n4 n5 n6)"
  by (simp add: broker_ok_def new_broker_def attached_ok_def)


definition demo_connect :: mqtt_connect where
  "demo_connect =
     \<lparr>client_id = str ''a'', clean_start = True, keep_alive = 60, proto_level = 5, username = None, password = None,
      will_topic = Some (str ''gone''), will_payload = Some (octets ''a''), will_qos = 1, will_retain = False,
      will_properties = [], c_properties = [(''receive_maximum'', PInt 10)]\<rparr>"


end
