(* ===== verification/Spec2Isabelle.thy ===== *)
theory Spec2Isabelle
  imports H2_Frame Rate_Window H2_Stream Sf_Roundtrip H2_Request H2_Recipient H2_Sender H2_Conn_Props
    H2_Conn_Defects H2_Flow H2_Liveness Ws_Message Mqtt_Framer Mqtt_Tap Mqtt_Broker_Type
begin

text \<open>
  \<^bold>\<open>Verification of the BlackBull server.\<close>

  BlackBull (\<^verbatim>\<open>src/blackbull\<close>) is an asynchronous application server. A connection is accepted, its
  protocol is detected, and an actor for that protocol reads frames or messages from the transport,
  hands requests to the application and writes its answers. This library models the HTTP/2, WebSocket
  and MQTT protocol machinery as executable functions and proves what they promise.

  \<^bold>\<open>Conventions.\<close> Octets are \<open>8 word\<close>, Python integers \<open>nat\<close> or \<open>int\<close>, strings lists of code points
  (\<open>pystr\<close>), dictionaries association lists in insertion order, times \<open>real\<close>. An object is a record and
  a method a function that returns the record updated. A raised exception is the left side of a sum,
  or a constructor of its own where control goes on after it. A suspended coroutine is a value too
  (\<open>Waits\<close>, \<open>Parked\<close>, \<open>Waiting\<close>, or a continuation that a later step takes up), so that interleavings
  are explicit lists of steps. \<^verbatim>\<open>hpack\<close> and \<^verbatim>\<open>zlib\<close> are third-party code and parameters; so are
  clocks and random masking keys.

  \<^bold>\<open>Theories.\<close>

  \<^item> \<open>Prelude\<close>: octet strings, big-endian integers, dictionaries, the error monad, and the locale of
  machines with an invariant. \<open>Utf8\<close>: the UTF-8 codec with its round trip.
  \<^item> \<open>H2_Frame\<close> (\<^verbatim>\<open>protocol/frame_types.py\<close>, \<^verbatim>\<open>frame.py\<close>, \<^verbatim>\<open>hpack_fastpath.py\<close>): every frame type,
  \<^verbatim>\<open>load\<close>, \<^verbatim>\<open>save\<close>, the header-block rules of RFC 9113; round trip, exact acceptance, no injection.
  \<^item> \<open>H2_Stream\<close> (\<^verbatim>\<open>protocol/stream.py\<close>): the stream tree, refined to a dictionary.
  \<^item> \<open>Structured_Fields\<close>, \<open>Sf_Roundtrip\<close> (\<^verbatim>\<open>protocol/structured_fields.py\<close>): parser and serialiser of
  RFC 8941 fields and their round trip.
  \<^item> \<open>Rate_Window\<close> (\<^verbatim>\<open>server/rate_window.py\<close>): the frame meter, through the locale \<open>meter\<close>.
  \<^item> \<open>H2_Request\<close> (\<^verbatim>\<open>server/parser.py\<close>): from a header block to a request.
  \<^item> \<open>H2_Recipient\<close> (\<^verbatim>\<open>HTTP2Recipient\<close> of \<^verbatim>\<open>server/recipient.py\<close>): request bodies and their credit.
  \<^item> \<open>H2_Sender\<close> (\<^verbatim>\<open>HTTP2Sender\<close> of \<^verbatim>\<open>server/sender.py\<close>): responses under flow control; the plain,
  coalesced and deferred paths agree, bodies are delivered whole and within credit.
  \<^item> \<open>H2_Conn\<close> (\<^verbatim>\<open>server/http2_actor.py\<close>, \<^verbatim>\<open>response.py\<close>, \<^verbatim>\<open>http2_ws.py\<close>): the frame loop with all
  handlers. \<open>H2_Conn_Props\<close>, \<open>H2_Flow\<close>, \<open>H2_Liveness\<close>: accounting of streams, bounds, GOAWAY, credit,
  termination and the watchdog. \<open>H2_Conn_Defects\<close>: runs in which the loop does not do what it means
  to.
  \<^item> \<open>Ws_Codec\<close> (\<^verbatim>\<open>server/ws_codec.py\<close>), \<open>Ws_Recipient\<close> (\<^verbatim>\<open>WebSocketRecipient\<close>): frames, the fragment
  assembler, and the read side in both read modes. \<open>Ws_Modes\<close>: inline and eager reading deliver the
  same. \<open>Ws_Ends\<close>: bounds, reads that always return, the liveness probe. \<open>Ws_Message\<close>: messages end
  to end.
  \<^item> \<open>Mqtt_Codec\<close> (\<^verbatim>\<open>mqtt/messages.py\<close>): the control packets of MQTT 5.0 with encoder and decoder;
  \<open>Mqtt_Roundtrip\<close>: the decoder inverts the encoder. \<open>Mqtt_Framer\<close> (\<^verbatim>\<open>PacketFramer\<close> of
  \<^verbatim>\<open>mqtt/connection.py\<close>): packets out of arbitrary chunks, the size gate and where it fails.
  \<open>Mqtt_Topic\<close>: topic names and filters against the rules of the standard. \<open>Mqtt_Tap\<close> (\<^verbatim>\<open>mqtt/tap.py\<close>):
  application taps and their bounded queue.
  \<^item> \<open>Mqtt_Broker\<close> (\<^verbatim>\<open>mqtt/broker.py\<close>): sessions, subscriptions, retained messages, Wills, routing and
  acknowledged delivery, one definition per handler. \<open>Mqtt_Broker_Inv\<close>, \<open>Mqtt_Broker_Type\<close>: the
  invariant, and that every handler returns and keeps it.

  \<^bold>\<open>Termination.\<close> No definition uses fuel but \<open>alloc_loop\<close>, whose bound of 65535 turns is the source's
  own. Loops that read end because each turn consumes octets that
  have arrived; a read that would wait for more is a value. The loops of the sender and of the
  watchdog are driven by the finite list of events they are given.

  \<^bold>\<open>Not modelled.\<close> Application callbacks, event listeners and dependency injection (arbitrary user
  code); logging and cap logs; process and worker management, sockets and TLS (operating system);
  the MQTT connection actor, HTTP/1.1, gRPC, the router, middleware, clients and the fault-injection tools.
\<close>

end
